(* ===== verification/Once_Flow.thy ===== *)
theory Once_Flow
  imports Main
begin

text \<open>
  The interface of an asynchronous flow: a chain of callbacks that serves one request and owes its
  client one answer. The create flow of \<open>Ubi_Bdev\<close>, the snapshot flow of \<open>Ubi_Snapshot\<close> and the copy
  engine of \<open>Dd_Run\<close> are such flows; the locales state what one step of the chain promises and derive
  what a whole run does.
\<close>

locale answer_flow =
  fixes step :: "'s \<Rightarrow> 's \<Rightarrow> bool"
    and waiting :: "'s \<Rightarrow> bool"
    and answers :: "'s \<Rightarrow> nat"
  assumes step_answers:
      "step s t \<Longrightarrow> answers t = answers s + (if waiting s \<and> \<not> waiting t then 1 else 0)"
    and step_silent: "step s t \<Longrightarrow> \<not> waiting s \<Longrightarrow> \<not> waiting t"
begin

lemma run_answers:
  assumes "step\<^sup>*\<^sup>* s t" and "waiting s"
  shows "answers t = answers s + (if waiting t then 0 else 1)"
  using assms
proof (induction rule: rtranclp_induct)
  case base
  then show ?case by simp
next
  case (step t u)
  then show ?case
    using step_answers [OF step.hyps(2)] step_silent [OF step.hyps(2)] by auto
qed

text \<open>A request is answered at most once, and not before the flow stops waiting.\<close>

lemma run_once:
  assumes "step\<^sup>*\<^sup>* s t" and "waiting s" and "answers s = 0"
  shows "answers t \<le> 1" and "answers t = 1 \<longleftrightarrow> \<not> waiting t"
  using run_answers [OF assms(1,2)] assms(3) by auto

end

text \<open>A flow that also comes to an end: every step of it uses up rank while it waits.\<close>

locale once_flow = answer_flow step waiting answers
  for step :: "'s \<Rightarrow> 's \<Rightarrow> bool" and waiting :: "'s \<Rightarrow> bool" and answers :: "'s \<Rightarrow> nat" +
  fixes rank :: "'s \<Rightarrow> nat"
  assumes step_rank: "step s t \<Longrightarrow> waiting s \<Longrightarrow> rank t < rank s"
begin

text \<open>Every step of a flow that still waits uses up rank, so it answers within \<open>rank s\<close> steps.\<close>

lemma run_rank:
  assumes "(step ^^ n) s t" and "waiting s" and "waiting t"
  shows "n + rank t \<le> rank s"
  using assms
proof (induction n arbitrary: t)
  case 0
  then show ?case by simp
next
  case (Suc n)
  from Suc.prems(1) obtain u where u: "(step ^^ n) s u" "step u t" by auto
  with Suc.prems(3) step_silent have "waiting u" by blast
  with Suc.IH [OF u(1) Suc.prems(2)] step_rank [OF u(2)] show ?case by linarith
qed

lemma answered_in_time:
  assumes "(step ^^ n) s t" and "waiting s" and "rank s < n"
  shows "\<not> waiting t"
  using run_rank [OF assms(1,2)] assms(3) by auto

end

end
