(* ===== verification/Prelude.thy ===== *)
theory Prelude
  imports Main "HOL-Library.Word"
begin

unbundle bit_operations_syntax

text \<open>
  Shared vocabulary of the development: the C integer types as words, the outcomes of
  undefined behaviour, the errno values the sources name, C strings in fixed-size character
  arrays, and the arithmetic lemmas on shifts, masks and products that the components use.

  A C function whose execution may be undefined (a null pointer dereference, an index out of
  an array, a division by zero, a copy past the end of a buffer, a shift by too many bits, a
  use of freed memory, a failed assertion) has a result of type \<open>'a c_result\<close>: \<open>Inl\<close> names the undefined
  behaviour, \<open>Inr\<close> carries the value. Log output is not modelled.
\<close>

section \<open>Types\<close>

type_synonym u8 = "8 word"
type_synonym u16 = "16 word"
type_synonym u32 = "32 word"
type_synonym u64 = "64 word"

text \<open>A memory region read or written by an I/O call: the byte at each offset.\<close>

type_synonym buf = "nat \<Rightarrow> u8"

datatype ub =
    Null_deref
  | Out_of_bounds
  | Div_by_zero
  | Buffer_overflow
  | Bad_shift
  | Signed_overflow
  | Use_after_free
  | Bad_free
  | Assertion_failed

type_synonym 'a c_result = "ub + 'a"

fun c_bind :: "'a c_result \<Rightarrow> ('a \<Rightarrow> 'b c_result) \<Rightarrow> 'b c_result" where
  "c_bind (Inl e) f = Inl e"
| "c_bind (Inr x) f = f x"

text \<open>Linux errno values.\<close>

abbreviation ENOENT :: int where "ENOENT \<equiv> 2"
abbreviation EIO :: int where "EIO \<equiv> 5"
abbreviation ENXIO :: int where "ENXIO \<equiv> 6"
abbreviation EAGAIN :: int where "EAGAIN \<equiv> 11"
abbreviation ENOMEM :: int where "ENOMEM \<equiv> 12"
abbreviation EINVAL :: int where "EINVAL \<equiv> 22"
abbreviation ENOSPC :: int where "ENOSPC \<equiv> 28"
abbreviation ENOTSUP :: int where "ENOTSUP \<equiv> 95"

text \<open>Conversion of a wider signed value to \<open>int\<close> and to \<open>uint32_t\<close>.\<close>

definition c_int :: "int \<Rightarrow> int" where
  "c_int x = sint (word_of_int x :: 32 word)"

named_theorems geom \<open>address arithmetic of clusters, blocks and bytes\<close>

section \<open>C strings\<close>

abbreviation NUL :: char where "NUL \<equiv> CHR 0x00"

text \<open>The string a character array holds: what precedes its first NUL.\<close>

definition c_str :: "char list \<Rightarrow> string" where
  "c_str a = takeWhile (\<lambda>c. c \<noteq> NUL) a"

text \<open>
  \<open>strncpy (dst, src, n)\<close>: the first \<open>n\<close> characters of \<open>src\<close>, padded with NULs. No
  terminator is written when \<open>src\<close> has \<open>n\<close> characters or more.
\<close>

definition c_strncpy :: "string \<Rightarrow> nat \<Rightarrow> char list" where
  "c_strncpy src n = take n src @ replicate (n - length src) NUL"

text \<open>
  \<open>strcpy (dst, src)\<close> into an array of \<open>n\<close> characters: the terminator must fit too. The rest of
  the array keeps what it held; here it is NUL, since every such array comes from
  \<open>calloc\<close>.
\<close>

definition c_strcpy :: "string \<Rightarrow> nat \<Rightarrow> char list c_result" where
  "c_strcpy src n =
     (if length src < n then Inr (src @ replicate (n - length src) NUL)
      else Inl Buffer_overflow)"

section \<open>Results of undefined behaviour\<close>

lemma c_bind_Inr_iff [simp]:
  "c_bind m f = Inr y \<longleftrightarrow> (\<exists>x. m = Inr x \<and> f x = Inr y)"
  by (cases m) auto

lemma c_bind_Inl_iff:
  "c_bind m f = Inl e \<longleftrightarrow> m = Inl e \<or> (\<exists>x. m = Inr x \<and> f x = Inl e)"
  by (cases m) auto

lemma c_int_small: "- (2 ^ 31) \<le> x \<Longrightarrow> x < 2 ^ 31 \<Longrightarrow> c_int x = x"
  by (simp add: c_int_def sint_sbintrunc' signed_take_bit_int_eq_self)

section \<open>C strings: lemmas\<close>

lemma c_str_no_NUL [simp]: "NUL \<notin> set (c_str a)"
  by (auto simp: c_str_def dest: set_takeWhileD)

lemma c_str_pad: "NUL \<notin> set s \<Longrightarrow> c_str (s @ replicate k NUL) = s"
  unfolding c_str_def by (subst takeWhile_append2) (auto simp: takeWhile_replicate)

lemma c_strcpy_str: "NUL \<notin> set s \<Longrightarrow> c_strcpy s n = Inr a \<Longrightarrow> c_str a = s \<and> length a = n"
  by (auto simp: c_strcpy_def c_str_pad split: if_splits)

lemma length_c_strncpy [simp]: "length (c_strncpy s n) = n"
  by (simp add: c_strncpy_def)

text \<open>Copying with \<open>strncpy\<close> and then forcing a terminator truncates the string.\<close>

lemma c_str_strncpy_terminated:
  assumes "NUL \<notin> set s"
  shows "c_str ((c_strncpy s (Suc n))[n := NUL]) = take n s"
proof (cases "n < length s")
  case True
  then have "(c_strncpy s (Suc n))[n := NUL] = take n s @ [NUL]"
    by (simp add: c_strncpy_def take_Suc_conv_app_nth list_update_append)
  moreover have "NUL \<notin> set (take n s)"
    using assms by (meson in_set_takeD)
  ultimately show ?thesis
    using c_str_pad [of "take n s" 1] by simp
next
  case False
  then have "(c_strncpy s (Suc n))[n := NUL] = s @ replicate (Suc n - length s) NUL"
    by (auto simp: c_strncpy_def list_update_append list_eq_iff_nth_eq nth_list_update nth_append)
  with False assms show ?thesis
    by (simp add: c_str_pad)
qed

section \<open>Words: shifts, masks, products\<close>

lemma unat_mult_exact:
  "unat (a :: 'a::len word) * unat b < 2 ^ LENGTH('a) \<Longrightarrow> unat (a * b) = unat a * unat b"
  by (simp add: unat_word_ariths)

lemma unat_add_exact:
  "unat (a :: 'a::len word) + unat b < 2 ^ LENGTH('a) \<Longrightarrow> unat (a + b) = unat a + unat b"
  by (simp add: unat_word_ariths)

lemma unat_push_bit_exact:
  assumes "unat (a :: 'a::len word) * 2 ^ n < 2 ^ LENGTH('a)"
  shows "unat (push_bit n a) = unat a * 2 ^ n"
proof -
  have "unat (push_bit n a) = take_bit LENGTH('a) (push_bit n (unat a))"
    by (rule unsigned_push_bit_eq)
  then show ?thesis
    using assms by (simp add: push_bit_eq_mult [of n "unat a"] take_bit_nat_eq_self)
qed

lemma unat_ucast_up [simp]:
  assumes "LENGTH('a::len) \<le> LENGTH('b::len)"
  shows "unat (ucast (a :: 'a word) :: 'b word) = unat a"
proof -
  have "unat a < 2 ^ LENGTH('b)"
    by (rule less_le_trans [OF unsigned_less]) (simp add: assms)
  then show ?thesis
    by (simp add: unsigned_ucast_eq take_bit_nat_eq_self)
qed

lemma unat_drop_bit_div: "unat (drop_bit n (x :: 'a::len word)) = unat x div 2 ^ n"
  by (subst unat_drop_bit_eq) (rule drop_bit_eq_div)

lemma unat_take_bit_mod: "unat (take_bit n (x :: 'a::len word)) = unat x mod 2 ^ n"
  by (subst unsigned_take_bit_eq) (rule take_bit_eq_mod)

lemma unat_two_power [simp]:
  assumes "k < LENGTH('a::len)"
  shows "unat (2 ^ k :: 'a word) = 2 ^ k"
proof -
  have "unat (push_bit k (1 :: 'a word)) = unat (1 :: 'a word) * 2 ^ k"
    using assms by (intro unat_push_bit_exact) simp
  then show ?thesis
    by (simp add: push_bit_eq_mult)
qed

lemma ucast_two_power [simp]: "k < 32 \<Longrightarrow> (ucast (2 ^ k :: u32) :: u64) = 2 ^ k"
  by (rule word_unat_eq_iff [THEN iffD2]) simp

lemma u32_two_power_div:
  assumes "a + s < 32"
  shows "(2 ^ (a + s) :: u32) div 2 ^ a = 2 ^ s"
proof -
  have "unat ((2 ^ (a + s) :: u32) div 2 ^ a) = 2 ^ (a + s) div 2 ^ a"
    using assms by (simp only: unat_div) simp
  also have "\<dots> = 2 ^ s"
    by (simp add: power_add)
  finally show ?thesis
    using assms by (simp only: word_unat_eq_iff) simp
qed

lemma unat_div_ucast [simp]:
  "unat ((x :: u64) div ucast (y :: u32)) = unat x div unat y"
  by (simp add: unat_div)

lemma unat_mod_ucast [simp]:
  "unat ((x :: u64) mod ucast (y :: u32)) = unat x mod unat y"
  by (simp add: unat_mod)

end
