(* ===== verification/Posix_File.thy ===== *)
theory Posix_File
  imports Prelude
begin

text \<open>
  The file operations of libc that the device code uses (\<open>open\<close>, \<open>read\<close>, \<open>write\<close>,
  \<open>lseek\<close>, \<open>close\<close>), on a file system that maps paths to files and a table of open file
  descriptors. A file is the byte at every offset and a size; bytes past the size are zero.
  Whatever the kernel decides (the descriptor number, an error, a short count) is an argument of
  the operation: a negative value is a failure, any other value the count it offers, which the
  operation clips to what the request and the file allow.

  The second part is the byte image of an array of 64-bit words in memory (little-endian), with
  its round trip; the third the interface \<open>append_log\<close>, the laws of an append-only writer
  that the delta device relies on, with its interpretation on files.
\<close>

section \<open>Files and descriptors\<close>

record pfile =
  fbytes :: buf
  fsize :: nat
  fseekable :: bool

definition empty_file :: pfile where
  "empty_file = \<lparr>fbytes = (\<lambda>_. 0), fsize = 0, fseekable = True\<rparr>"

record posix =
  files :: "string \<rightharpoonup> pfile"
  fds :: "int \<rightharpoonup> string \<times> nat"

definition file_write :: "nat \<Rightarrow> buf \<Rightarrow> nat \<Rightarrow> pfile \<Rightarrow> pfile" where
  "file_write p b n f =
     f\<lparr>fbytes := (\<lambda>i. if p \<le> i \<and> i < p + n then b (i - p) else fbytes f i),
       fsize := (if n = 0 then fsize f else max (fsize f) (p + n))\<rparr>"

definition posix_open :: "string \<Rightarrow> bool \<Rightarrow> int \<Rightarrow> posix \<Rightarrow> int \<times> posix" where
  "posix_open path creat r P =
     (if r < 0 \<or> files P path = None \<and> \<not> creat then (-1, P)
      else (r, P\<lparr>files := (if files P path = None then (files P)(path \<mapsto> empty_file)
                          else files P),
                 fds := (fds P)(r \<mapsto> (path, 0))\<rparr>))"

definition posix_close :: "int \<Rightarrow> posix \<Rightarrow> posix" where
  "posix_close fd P = P\<lparr>fds := (fds P)(fd := None)\<rparr>"

definition fd_file :: "posix \<Rightarrow> int \<Rightarrow> (string \<times> nat \<times> pfile) option" where
  "fd_file P fd =
     (case fds P fd of None \<Rightarrow> None
      | Some (path, pos) \<Rightarrow> map_option (\<lambda>f. (path, pos, f)) (files P path))"

text \<open>\<open>lseek (fd, 0, SEEK_CUR)\<close> and \<open>lseek (fd, 0, SEEK_SET)\<close>.\<close>

definition posix_lseek_cur :: "int \<Rightarrow> posix \<Rightarrow> int" where
  "posix_lseek_cur fd P =
     (case fd_file P fd of None \<Rightarrow> -1
      | Some (path, pos, f) \<Rightarrow> if fseekable f then int pos else -1)"

definition posix_lseek_start :: "int \<Rightarrow> posix \<Rightarrow> int \<times> posix" where
  "posix_lseek_start fd P =
     (case fd_file P fd of None \<Rightarrow> (-1, P)
      | Some (path, pos, f) \<Rightarrow>
          if fseekable f then (0, P\<lparr>fds := (fds P)(fd \<mapsto> (path, 0))\<rparr>) else (-1, P))"

definition posix_write :: "int \<Rightarrow> buf \<Rightarrow> nat \<Rightarrow> int \<Rightarrow> posix \<Rightarrow> int \<times> posix" where
  "posix_write fd b n r P =
     (case fd_file P fd of None \<Rightarrow> (-1, P)
      | Some (path, pos, f) \<Rightarrow>
          if r < 0 then (-1, P)
          else let k = min n (nat r) in
            (int k, P\<lparr>files := (files P)(path \<mapsto> file_write pos b k f),
                      fds := (fds P)(fd \<mapsto> (path, pos + k))\<rparr>))"

definition posix_read :: "int \<Rightarrow> nat \<Rightarrow> int \<Rightarrow> posix \<Rightarrow> int \<times> buf \<times> posix" where
  "posix_read fd n r P =
     (case fd_file P fd of None \<Rightarrow> (-1, (\<lambda>_. 0), P)
      | Some (path, pos, f) \<Rightarrow>
          if r < 0 then (-1, (\<lambda>_. 0), P)
          else let k = min n (min (nat r) (fsize f - pos)) in
            (int k, (\<lambda>i. fbytes f (pos + i)), P\<lparr>fds := (fds P)(fd \<mapsto> (path, pos + k))\<rparr>))"

text \<open>The byte an access at an absolute offset through a descriptor sees.\<close>

definition fd_byte :: "posix \<Rightarrow> int \<Rightarrow> nat \<Rightarrow> u8 option" where
  "fd_byte P fd off = map_option (\<lambda>(path, pos, f). fbytes f off) (fd_file P fd)"

section \<open>The memory image of an array of 64-bit words\<close>

definition map_bytes :: "(nat \<Rightarrow> u64) \<Rightarrow> buf" where
  "map_bytes m i = ucast (drop_bit (8 * (i mod 8)) (m (i div 8)))"

definition u64_at :: "buf \<Rightarrow> nat \<Rightarrow> u64" where
  "u64_at b k = fold (\<lambda>j w. w OR push_bit (8 * j) (ucast (b (8 * k + j)))) [0..<8] 0"

text \<open>Overwriting the first \<open>n\<close> bytes of a region.\<close>

definition overlay :: "nat \<Rightarrow> buf \<Rightarrow> buf \<Rightarrow> buf" where
  "overlay n new old = (\<lambda>i. if i < n then new i else old i)"

lemma bit_push_byte:
  assumes "r < 8" and "q < 8" and "m < 8"
  shows "bit (push_bit (8 * m) (ucast (x :: u8) :: u64)) (8 * q + r) \<longleftrightarrow> q = m \<and> bit x r"
proof -
  have "8 * m \<le> 8 * q + r \<longleftrightarrow> m \<le> q"
    using assms by linarith
  moreover have "\<not> bit x (8 * q + r - 8 * m)" if "m < q"
    using that by (auto dest!: bit_imp_le_length)
  ultimately show ?thesis
    using assms by (cases m q rule: linorder_cases) (auto simp: bit_simps)
qed

lemma bit_u64_at:
  assumes "q < 8" and "r < 8"
  shows "bit (u64_at b k) (8 * q + r) \<longleftrightarrow> bit (b (8 * k + q)) r"
proof -
  have "bit (fold (\<lambda>j w. w OR push_bit (8 * j) (ucast (b (8 * k + j)))) [0..<m] (0 :: u64)) (8 * q + r)
      \<longleftrightarrow> q < m \<and> bit (b (8 * k + q)) r" if "m \<le> 8" for m
    using that by (induction m) (auto simp: bit_or_iff bit_push_byte assms less_Suc_eq)
  from this [of 8] show ?thesis
    using assms by (simp only: u64_at_def simp_thms order_refl)
qed

lemma u64_at_map_bytes [simp]: "u64_at (map_bytes m) k = m k"
proof (rule bit_word_eqI)
  fix n assume "n < LENGTH(64)"
  then have qr: "n div 8 < 8" "n mod 8 < 8" by simp_all
  have "(8 * k + n div 8) mod 8 = n div 8" and "(8 * k + n div 8) div 8 = k"
    using qr by simp_all
  then have "bit (map_bytes m (8 * k + n div 8)) (n mod 8) = bit (m k) (8 * (n div 8) + n mod 8)"
    by (simp add: map_bytes_def bit_simps)
  then show "bit (u64_at (map_bytes m) k) n = bit (m k) n"
    using bit_u64_at [OF qr, of "map_bytes m" k] by simp
qed

lemma u64_at_cong: "(\<And>j. j < 8 \<Longrightarrow> b (8 * k + j) = b' (8 * k + j)) \<Longrightarrow> u64_at b k = u64_at b' k"
  unfolding u64_at_def by (intro fold_cong) auto

lemma u64_at_overlay:
  "8 * k + 8 \<le> n \<Longrightarrow> u64_at (overlay n b old) k = u64_at b k"
  by (rule u64_at_cong) (simp add: overlay_def)

lemma u64_at_overlay_beyond:
  "n \<le> 8 * k \<Longrightarrow> u64_at (overlay n b old) k = u64_at old k"
  by (rule u64_at_cong) (simp add: overlay_def)

lemma map_bytes_zero [simp]: "map_bytes (\<lambda>_. 0) i = 0"
  by (simp add: map_bytes_def)

section \<open>Append-only writing\<close>

text \<open>
  What a client of a log relies on: a position, the byte at every offset, and an operation that
  appends a record at the position.
\<close>

locale append_log =
  fixes wpos :: "'s \<Rightarrow> nat"
    and byte_at :: "'s \<Rightarrow> nat \<Rightarrow> u8"
    and app :: "buf \<Rightarrow> nat \<Rightarrow> 's \<Rightarrow> 's"
  assumes wpos_app: "wpos (app b n s) = wpos s + n"
    and byte_app_new: "i < n \<Longrightarrow> byte_at (app b n s) (wpos s + i) = b i"
    and byte_app_old: "i < wpos s \<Longrightarrow> byte_at (app b n s) i = byte_at s i"
begin

lemma wpos_fold: "wpos (fold (\<lambda>(b, n). app b n) rs s) = wpos s + sum_list (map snd rs)"
  by (induction rs arbitrary: s) (auto simp: wpos_app)

lemma byte_fold_old:
  "i < wpos s \<Longrightarrow> byte_at (fold (\<lambda>(b, n). app b n) rs s) i = byte_at s i"
  by (induction rs arbitrary: s) (auto simp: wpos_app byte_app_old)

text \<open>A record stays where it was appended, whatever is appended after it.\<close>

lemma record_kept:
  assumes "i < n"
  shows "byte_at (fold (\<lambda>(b, n). app b n) (xs @ (b, n) # ys) s)
           (wpos s + sum_list (map snd xs) + i) = b i"
proof -
  let ?t = "fold (\<lambda>(b, n). app b n) xs s"
  have "wpos ?t + i < wpos (app b n ?t)"
    using assms by (simp add: wpos_app)
  then have "byte_at (fold (\<lambda>(b, n). app b n) ys (app b n ?t)) (wpos ?t + i) = b i"
    using assms by (simp add: byte_fold_old byte_app_new)
  then show ?thesis
    by (simp add: wpos_fold)
qed

end

text \<open>A file with a write position is such a log.\<close>

definition log_append :: "buf \<Rightarrow> nat \<Rightarrow> nat \<times> pfile \<Rightarrow> nat \<times> pfile" where
  "log_append b n s = (fst s + n, file_write (fst s) b n (snd s))"

definition log_byte :: "nat \<times> pfile \<Rightarrow> nat \<Rightarrow> u8" where
  "log_byte s i = fbytes (snd s) i"

interpretation flog: append_log fst log_byte log_append
  by unfold_locales (simp_all add: log_append_def log_byte_def file_write_def)

section \<open>Descriptors: lemmas\<close>

lemma fd_file_Some_iff:
  "fd_file P fd = Some (path, pos, f) \<longleftrightarrow> fds P fd = Some (path, pos) \<and> files P path = Some f"
  by (auto simp: fd_file_def split: option.splits)

lemma fd_byte_Some: "fd_file P fd = Some (path, pos, f) \<Longrightarrow> fd_byte P fd i = Some (fbytes f i)"
  by (simp add: fd_byte_def)

text \<open>A complete write appends to the log behind the descriptor.\<close>

lemma posix_write_full:
  assumes "fd_file P fd = Some (path, pos, f)"
  obtains P' where "posix_write fd b n (int n) P = (int n, P')"
    and "fd_file P' fd = Some (path, log_append b n (pos, f))"
    and "\<And>q. q \<noteq> path \<Longrightarrow> files P' q = files P q"
    and "\<And>d. d \<noteq> fd \<Longrightarrow> fds P' d = fds P d"
  using assms
  by (auto simp: posix_write_def fd_file_Some_iff Let_def log_append_def)

lemma file_write_simps [simp]:
  "fseekable (file_write p b n f) = fseekable f"
  "0 < n \<Longrightarrow> fsize (file_write p b n f) = max (fsize f) (p + n)"
  by (simp_all add: file_write_def)

lemma log_append_simps [simp]:
  "fst (log_append b n s) = fst s + n"
  "fseekable (snd (log_append b n s)) = fseekable (snd s)"
  by (simp_all add: log_append_def)

end
