(* ===== verification/Bs_Dev.thy ===== *)
theory Bs_Dev
  imports Posix_File "HOL-Library.Multiset"
begin

text \<open>
  The interface between the blobstore and its back-end devices: the operations of
  \<open>struct spdk_bs_dev\<close> that carry a completion callback, what an operation does to the outside
  (it calls its callback with a status, or it queues a request on the device's io_uring and submits
  the ring), and the poller that turns ring completions into callbacks. Both devices of the
  library, the read-only image device (\<open>Bs_Uring\<close>) and the snapshot writer (\<open>Bs_Delta\<close>),
  implement it.

  io_uring and the blobstore are not part of the repository. What they return to the code is an
  argument of the operations, what the code asks of them an entry of the effect list.

  The locale \<open>bs_dev_io\<close> states the contract of such a device: every operation answers its
  callback at once or queues exactly one request for it, and the poller answers exactly the requests
  whose completion it reaps. Inside it, conservation of callbacks along every run is proved once. The
  weaker locale \<open>bs_dev_serve\<close> lets an operation do both, as the image device does when the submission of
  the ring fails: no request is lost, and none is served more than twice.
\<close>

section \<open>Requests and effects\<close>

type_synonym cb_args = nat
type_synonym iovec = "nat \<times> u64"

datatype sqe =
    Prep_read int nat u32 u64
  | Prep_readv int "iovec list" u64

datatype bs_eff =
    Callback cb_args int
  | Queue_sqe cb_args sqe
  | Ring_submit
  | Cqe_seen

datatype poller_rc = Poller_busy | Poller_idle

text \<open>
  What a device asks of SPDK's thread library: a channel of a device (SPDK calls back its
  \<open>create_channel_cb\<close> for the first one on a thread), the release of a channel (and \<open>destroy_channel_cb\<close>
  for the last), the end of a device. Devices and channels are addresses.
\<close>

datatype thread_call =
    Get_io_channel nat
  | Put_io_channel nat
  | Io_device_unregister nat

datatype bs_op =
    Bs_read nat u64 u32 cb_args
  | Bs_readv "iovec list" u64 u32 cb_args
  | Bs_readv_ext "iovec list" u64 u32 cb_args
  | Bs_write buf u64 u32 cb_args
  | Bs_writev "iovec list" u64 u32 cb_args
  | Bs_writev_ext "iovec list" u64 u32 cb_args
  | Bs_flush cb_args
  | Bs_write_zeroes u64 u64 cb_args
  | Bs_unmap u64 u64 cb_args
  | Bs_copy u64 u64 u64 cb_args

primrec op_cb :: "bs_op \<Rightarrow> cb_args" where
  "op_cb (Bs_read _ _ _ cb) = cb"
| "op_cb (Bs_readv _ _ _ cb) = cb"
| "op_cb (Bs_readv_ext _ _ _ cb) = cb"
| "op_cb (Bs_write _ _ _ cb) = cb"
| "op_cb (Bs_writev _ _ _ cb) = cb"
| "op_cb (Bs_writev_ext _ _ _ cb) = cb"
| "op_cb (Bs_flush cb) = cb"
| "op_cb (Bs_write_zeroes _ _ cb) = cb"
| "op_cb (Bs_unmap _ _ cb) = cb"
| "op_cb (Bs_copy _ _ _ cb) = cb"

fun callbacks :: "bs_eff list \<Rightarrow> (cb_args \<times> int) list" where
  "callbacks [] = []"
| "callbacks (Callback cb rc # es) = (cb, rc) # callbacks es"
| "callbacks (_ # es) = callbacks es"

fun queued :: "bs_eff list \<Rightarrow> cb_args list" where
  "queued [] = []"
| "queued (Queue_sqe cb q # es) = cb # queued es"
| "queued (_ # es) = queued es"

section \<open>Runs of a device\<close>

text \<open>
  A run of a device: the blobstore issues operations, the poller reaps completions. A state is the
  device's own state, the callbacks issued so far, the callbacks whose request is in the ring, and
  the callbacks made, each with its status. A completion that the ring delivers belongs to a
  request in it, and each request completes once.
\<close>

inductive bs_run ::
  "('st \<Rightarrow> 'env \<Rightarrow> bs_op \<Rightarrow> ('st \<times> bs_eff list) c_result) \<Rightarrow>
   (int \<Rightarrow> (cb_args \<times> int) list \<Rightarrow> poller_rc \<times> bs_eff list) \<Rightarrow>
   ('env \<Rightarrow> bool) \<Rightarrow> 'st \<Rightarrow>
   'st \<times> cb_args list \<times> cb_args multiset \<times> (cb_args \<times> int) list \<Rightarrow> bool"
  for submit poll env_ok s0 where
  start: "bs_run submit poll env_ok s0 (s0, [], {#}, [])"
| issue: "bs_run submit poll env_ok s0 (s, iss, fl, dn) \<Longrightarrow> env_ok e \<Longrightarrow>
    submit s e op = Inr (s', es) \<Longrightarrow>
    bs_run submit poll env_ok s0
      (s', iss @ [op_cb op], fl + mset (queued es), dn @ callbacks es)"
| reap: "bs_run submit poll env_ok s0 (s, iss, fl, dn) \<Longrightarrow> mset (map fst cqes) \<subseteq># fl \<Longrightarrow>
    poll (int (length cqes)) cqes = (rc, es) \<Longrightarrow>
    bs_run submit poll env_ok s0
      (s, iss, fl - mset (map fst cqes) + mset (queued es), dn @ callbacks es)"

section \<open>The contract of a device\<close>

locale bs_dev_io =
  fixes submit :: "'st \<Rightarrow> 'env \<Rightarrow> bs_op \<Rightarrow> ('st \<times> bs_eff list) c_result"
    and poll :: "int \<Rightarrow> (cb_args \<times> int) list \<Rightarrow> poller_rc \<times> bs_eff list"
    and env_ok :: "'env \<Rightarrow> bool"
  assumes submit_answers:
      "env_ok e \<Longrightarrow> submit s e op = Inr (s', es) \<Longrightarrow>
       map fst (callbacks es) @ queued es = [op_cb op]"
    and poll_answers:
      "poll (int (length cqes)) cqes = (rc, es) \<Longrightarrow> map fst (callbacks es) = map fst cqes"
    and poll_queues_nothing:
      "poll (int (length cqes)) cqes = (rc, es) \<Longrightarrow> queued es = []"
begin

lemma conservation:
  "bs_run submit poll env_ok s0 (s, iss, fl, dn) \<Longrightarrow> mset iss = fl + mset (map fst dn)"
proof (induction "(s, iss, fl, dn)" arbitrary: s iss fl dn rule: bs_run.induct)
  case start
  show ?case by simp
next
  case (issue s iss fl dn e op s' es)
  from submit_answers [OF issue.hyps(3,4)]
  have "mset (map fst (callbacks es) @ queued es) = {#op_cb op#}"
    by simp
  then show ?case
    using issue.hyps(2) by (simp add: ac_simps)
next
  case (reap s iss fl dn cqes rc es)
  from reap.hyps(3) have "mset (map fst (callbacks es)) = mset (map fst cqes)"
    by (simp only: poll_answers [OF reap.hyps(4)])
  with reap.hyps(2,3) show ?case
    by (simp add: poll_queues_nothing [OF reap.hyps(4)] subset_mset.add_diff_assoc2)
qed

text \<open>Once the ring is drained, every operation has been answered exactly once.\<close>

lemma drained:
  assumes "bs_run submit poll env_ok s0 (s, iss, {#}, dn)"
  shows "mset (map fst dn) = mset iss"
  using conservation [OF assms] by simp

end

section \<open>A device that may answer twice\<close>

locale bs_dev_serve =
  fixes submit :: "'st \<Rightarrow> 'env \<Rightarrow> bs_op \<Rightarrow> ('st \<times> bs_eff list) c_result"
    and poll :: "int \<Rightarrow> (cb_args \<times> int) list \<Rightarrow> poller_rc \<times> bs_eff list"
    and env_ok :: "'env \<Rightarrow> bool"
  assumes submit_serves:
      "env_ok e \<Longrightarrow> submit s e op = Inr (s', es) \<Longrightarrow>
       op_cb op \<in># mset (map fst (callbacks es)) + mset (queued es) \<and>
       mset (map fst (callbacks es)) + mset (queued es) \<subseteq># {#op_cb op, op_cb op#}"
    and poll_answers:
      "poll (int (length cqes)) cqes = (rc, es) \<Longrightarrow> map fst (callbacks es) = map fst cqes"
    and poll_queues_nothing:
      "poll (int (length cqes)) cqes = (rc, es) \<Longrightarrow> queued es = []"
begin

lemma served:
  "bs_run submit poll env_ok s0 (s, iss, fl, dn) \<Longrightarrow>
   mset iss \<subseteq># fl + mset (map fst dn) \<and> fl + mset (map fst dn) \<subseteq># mset iss + mset iss"
proof (induction "(s, iss, fl, dn)" arbitrary: s iss fl dn rule: bs_run.induct)
  case start
  show ?case by simp
next
  case (issue s iss fl dn e op s' es)
  let ?new = "mset (map fst (callbacks es)) + mset (queued es)" and ?old = "fl + mset (map fst dn)"
  have new: "{#op_cb op#} \<subseteq># ?new" "?new \<subseteq># {#op_cb op#} + {#op_cb op#}"
    using submit_serves [OF issue.hyps(3,4)] by (simp_all add: single_subset_iff)
  have "mset iss + {#op_cb op#} \<subseteq># ?old + ?new"
    by (rule subset_mset.add_mono [OF conjunct1 [OF issue.hyps(2)] new(1)])
  moreover have "?old + ?new \<subseteq># (mset iss + mset iss) + ({#op_cb op#} + {#op_cb op#})"
    by (rule subset_mset.add_mono [OF conjunct2 [OF issue.hyps(2)] new(2)])
  ultimately show ?case
    by (simp add: ac_simps)
next
  case (reap s iss fl dn cqes rc es)
  from reap.hyps(3) have "fl - mset (map fst cqes) + mset (map fst (callbacks es)) = fl"
    by (simp only: poll_answers [OF reap.hyps(4)]) simp
  then have "fl - mset (map fst cqes) + mset (queued es) + mset (map fst (dn @ callbacks es)) = fl + mset (map fst dn)"
    by (simp add: poll_queues_nothing [OF reap.hyps(4)] ac_simps)
  with reap.hyps(2) show ?case
    by (simp only:)
qed

end

text \<open>The contract of \<open>bs_dev_io\<close> gives the weaker one.\<close>

sublocale bs_dev_io \<subseteq> serve: bs_dev_serve submit poll env_ok
proof unfold_locales
  fix e s op s' es
  assume "env_ok e" and "submit s e op = Inr (s', es)"
  from submit_answers [OF this]
  have "mset (map fst (callbacks es) @ queued es) = {#op_cb op#}"
    by simp
  then show "op_cb op \<in># mset (map fst (callbacks es)) + mset (queued es) \<and>
      mset (map fst (callbacks es)) + mset (queued es) \<subseteq># {#op_cb op, op_cb op#}"
    by simp
qed (use poll_answers poll_queues_nothing in blast)+

lemma callbacks_append [simp]: "callbacks (xs @ ys) = callbacks xs @ callbacks ys"
  by (induction xs rule: callbacks.induct) auto

lemma queued_append [simp]: "queued (xs @ ys) = queued xs @ queued ys"
  by (induction xs rule: queued.induct) auto

end
