(* ===== verification/Bs_Delta.thy ===== *)
theory Bs_Delta
  imports Bs_Dev
begin

text \<open>
  The delta device of \<open>src/lib/spdk_bs_dev_delta.c\<close>: the write-only back-end that a snapshot is
  copied to, and the reader of its cluster map. A delta file is a table of \<open>MAX_CLUSTERS\<close> 64-bit
  offsets followed by the clusters in the order they were written; entry \<open>c\<close> is the offset of
  cluster \<open>c\<close>, or 0.

  Definitions: the device and channel records, channel set-up and tear-down on the POSIX files of
  \<open>Posix_File\<close>, every operation of the device table, the constructor. Theorems: what a write
  does on each branch; that any sequence of whole-cluster writes lays the clusters out one
  after the other and records each cluster's last position; that the map written at tear-down is
  the map a reader loads.
\<close>

section \<open>Definitions\<close>

definition MAX_CLUSTERS :: nat where
  "MAX_CLUSTERS = 1024 * 1024 * 64"

text \<open>\<open>sizeof (ch->cluster_map)\<close>\<close>

definition MAP_BYTES :: nat where
  "MAP_BYTES = 8 * MAX_CLUSTERS"

datatype bs_dev_delta_direction = BS_DEV_DELTA_READ | BS_DEV_DELTA_WRITE

record bs_dev_delta =
  d_blockcnt :: u64
  d_blocklen :: u32
  d_filename :: "char list"
  d_direction :: bs_dev_delta_direction
  d_directio :: bool
  d_cluster_size :: u32

record bs_dev_delta_io_channel =
  delta_file_fd :: int
  d_poller :: bool
  d_cluster_map :: "nat \<Rightarrow> u64"
  d_initialized :: bool

text \<open>The cluster map after \<open>read\<close> placed \<open>n\<close> bytes over it.\<close>

definition load_map :: "int \<Rightarrow> buf \<Rightarrow> (nat \<Rightarrow> u64) \<Rightarrow> nat \<Rightarrow> u64" where
  "load_map n b m = u64_at (overlay (nat n) b (map_bytes m))"

definition ubi_read_cluster_map ::
  "string \<Rightarrow> int \<Rightarrow> int \<Rightarrow> (nat \<Rightarrow> u64) \<Rightarrow> posix \<Rightarrow> int \<times> (nat \<Rightarrow> u64) \<times> posix" where
  "ubi_read_cluster_map filename open_ret read_ret m P =
     (let (fd, P1) = posix_open filename False open_ret P in
      if fd < 0 then (-1, m, P1)
      else let (n, b, P2) = posix_read fd MAP_BYTES read_ret P1 in
        if n < 0 then (-1, m, posix_close fd P2)
        else (0, load_map n b m, posix_close fd P2))"

text \<open>
  \<open>bs_dev_delta_poll\<close>. \<open>ret\<close> and \<open>cqes\<close> are what \<open>io_uring_peek_batch_cqe\<close> returned: a
  count or an error, and that many completions, each with its user data and result.
\<close>

fun delta_poll_loop :: "(cb_args \<times> int) list \<Rightarrow> bs_eff list" where
  "delta_poll_loop [] = []"
| "delta_poll_loop ((cb, res) # cqes) =
     (if res < 0 then Callback cb (- EIO) else Callback cb 0) # Cqe_seen # delta_poll_loop cqes"

definition bs_dev_delta_poll :: "int \<Rightarrow> (cb_args \<times> int) list \<Rightarrow> poller_rc \<times> bs_eff list" where
  "bs_dev_delta_poll ret cqes =
     (if ret = - EAGAIN then (Poller_busy, [])
      else if ret < 0 then (Poller_busy, [])
      else (Poller_busy, delta_poll_loop (take (nat ret) cqes)))"

text \<open>The kernel's answers during channel creation.\<close>

record delta_open_env =
  de_open :: int
  de_read :: int
  de_write :: int
  de_ring :: int

text \<open>
  The result is the return code, the channel and the file system. Every error path ends in \<open>free (ch)\<close>; but
  \<open>ch\<close> is the context buffer of the channel, a part of SPDK's channel and no block of its own, so that the
  call is undefined.
\<close>

definition bs_dev_delta_create_channel_cb ::
  "bs_dev_delta \<Rightarrow> delta_open_env \<Rightarrow> posix \<Rightarrow> (int \<times> bs_dev_delta_io_channel \<times> posix) c_result" where
  "bs_dev_delta_create_channel_cb dev e P =
     (let (fd, P1) = (if d_direction dev = BS_DEV_DELTA_WRITE
                      then posix_open (c_str (d_filename dev)) True (de_open e) P
                      else posix_open (c_str (d_filename dev)) False (de_open e) P) in
      if fd < 0 then Inl Bad_free
      else let (n, m, ini, P2) =
          (if d_direction dev = BS_DEV_DELTA_READ
           then let (n, b, P2) = posix_read fd MAP_BYTES (de_read e) P1
                in (n, load_map n b (\<lambda>_. 0), True, P2)
           else let (n, P2) = posix_write fd (map_bytes (\<lambda>_. 0)) MAP_BYTES (de_write e) P1
                in (n, (\<lambda>_. 0), False, P2)) in
        if n < 0 then Inl Bad_free
        else if de_ring e \<noteq> 0 then Inl Bad_free
        else Inr (0, \<lparr>delta_file_fd = fd, d_poller = True, d_cluster_map = m,
                       d_initialized = ini\<rparr>, P2))"

definition bs_dev_delta_destroy_channel_cb ::
  "bs_dev_delta \<Rightarrow> bs_dev_delta_io_channel \<Rightarrow> int \<Rightarrow> posix \<Rightarrow> bs_dev_delta_io_channel \<times> posix" where
  "bs_dev_delta_destroy_channel_cb dev ch write_ret P =
     (let P2 = (if d_direction dev = BS_DEV_DELTA_WRITE
                then let (ret, P1) = posix_lseek_start (delta_file_fd ch) P
                     in snd (posix_write (delta_file_fd ch) (map_bytes (d_cluster_map ch))
                               MAP_BYTES write_ret P1)
                else P)
      in (ch\<lparr>d_poller := False\<rparr>, posix_close (delta_file_fd ch) P2))"

text \<open>The entries of the device table for channels and for the end of the device; the device is not freed.\<close>

definition bs_dev_delta_create_channel :: "nat \<Rightarrow> thread_call list" where
  "bs_dev_delta_create_channel dev = [Get_io_channel dev]"

definition bs_dev_delta_destroy_channel :: "nat \<Rightarrow> nat \<Rightarrow> thread_call list" where
  "bs_dev_delta_destroy_channel dev channel = [Put_io_channel channel]"

definition bs_dev_delta_destroy :: "nat \<Rightarrow> thread_call list" where
  "bs_dev_delta_destroy dev = [Io_device_unregister dev]"

text \<open>The operations of the device table that read, or that the device does not support.\<close>

definition bs_dev_delta_read :: "nat \<Rightarrow> u64 \<Rightarrow> u32 \<Rightarrow> cb_args \<Rightarrow> bs_eff list" where
  "bs_dev_delta_read payload lba lba_count cb = [Callback cb (- ENOTSUP)]"

definition bs_dev_delta_readv :: "iovec list \<Rightarrow> u64 \<Rightarrow> u32 \<Rightarrow> cb_args \<Rightarrow> bs_eff list" where
  "bs_dev_delta_readv iov lba lba_count cb = [Callback cb (- ENOTSUP)]"

definition bs_dev_delta_readv_ext :: "iovec list \<Rightarrow> u64 \<Rightarrow> u32 \<Rightarrow> cb_args \<Rightarrow> bs_eff list" where
  "bs_dev_delta_readv_ext iov lba lba_count cb = bs_dev_delta_readv iov lba lba_count cb"

text \<open>
  \<open>bs_dev_delta_write\<close>. \<open>size\<close> is the product of two 32-bit values, computed in 32 bits. The loop
  that looks for a non-zero byte only feeds a log line, but its \<open>int\<close> counter overflows on
  \<open>2 ^ 31\<close> zero bytes.
\<close>

definition delta_all_zero_overflows :: "buf \<Rightarrow> u64 \<Rightarrow> bool" where
  "delta_all_zero_overflows payload sz \<longleftrightarrow>
     2 ^ 31 \<le> unat sz \<and> list_all (\<lambda>i. payload i = 0) [0..<2 ^ 31]"

definition bs_dev_delta_write ::
  "bs_dev_delta \<Rightarrow> bs_dev_delta_io_channel \<Rightarrow> posix \<Rightarrow> int \<Rightarrow> buf \<Rightarrow> u64 \<Rightarrow> u32 \<Rightarrow> cb_args \<Rightarrow>
   (bs_dev_delta_io_channel \<times> posix \<times> bs_eff list) c_result" where
  "bs_dev_delta_write dev ch P write_ret payload lba lba_count cb =
     (let sz = (ucast (d_blocklen dev * lba_count) :: u64);
          pos = posix_lseek_cur (delta_file_fd ch) P in
      if pos < 0 then Inr (ch, P, [Callback cb (- EIO)])
      else if d_cluster_size dev = 0 then Inl Div_by_zero
      else if lba mod ucast (d_cluster_size dev) \<noteq> 0 then Inr (ch, P, [Callback cb (- EINVAL)])
      else let idx = unat (lba div ucast (d_cluster_size dev)) in
        if MAX_CLUSTERS \<le> idx then Inl Out_of_bounds
        else let ch1 = ch\<lparr>d_cluster_map := (d_cluster_map ch)(idx := word_of_int pos)\<rparr> in
          if delta_all_zero_overflows payload sz then Inl Signed_overflow
          else let (n, P1) = posix_write (delta_file_fd ch) payload (unat sz) write_ret P in
            if c_int n < 0 then Inr (ch1, P1, [Callback cb (- EIO)])
            else Inr (ch1, P1, [Callback cb 0]))"

definition bs_dev_delta_writev :: "iovec list \<Rightarrow> u64 \<Rightarrow> u32 \<Rightarrow> cb_args \<Rightarrow> bs_eff list" where
  "bs_dev_delta_writev iov lba lba_count cb = [Callback cb 0]"

definition bs_dev_delta_writev_ext :: "iovec list \<Rightarrow> u64 \<Rightarrow> u32 \<Rightarrow> cb_args \<Rightarrow> bs_eff list" where
  "bs_dev_delta_writev_ext iov lba lba_count cb = [Callback cb 0]"

definition bs_dev_delta_flush :: "cb_args \<Rightarrow> bs_eff list" where
  "bs_dev_delta_flush cb = [Callback cb (- ENOTSUP)]"

definition bs_dev_delta_write_zeroes :: "u64 \<Rightarrow> u64 \<Rightarrow> cb_args \<Rightarrow> bs_eff list" where
  "bs_dev_delta_write_zeroes lba lba_count cb = [Callback cb (- ENOTSUP)]"

definition bs_dev_delta_unmap :: "u64 \<Rightarrow> u64 \<Rightarrow> cb_args \<Rightarrow> bs_eff list" where
  "bs_dev_delta_unmap lba lba_count cb = [Callback cb (- ENOTSUP)]"

definition bs_dev_delta_get_base_bdev :: "bs_dev_delta \<Rightarrow> nat option" where
  "bs_dev_delta_get_base_bdev dev = None"

definition bs_dev_delta_is_range_valid :: "bs_dev_delta \<Rightarrow> u64 \<Rightarrow> u64 \<Rightarrow> bool" where
  "bs_dev_delta_is_range_valid dev lba lba_count = True"

definition bs_dev_delta_is_zeroes :: "bs_dev_delta \<Rightarrow> u64 \<Rightarrow> u64 \<Rightarrow> bool" where
  "bs_dev_delta_is_zeroes dev lba lba_count = (\<not> bs_dev_delta_is_range_valid dev lba lba_count)"

definition bs_dev_delta_translate_lba :: "bs_dev_delta \<Rightarrow> u64 \<Rightarrow> bool \<times> u64" where
  "bs_dev_delta_translate_lba dev lba = (True, lba)"

definition bs_dev_delta_copy :: "u64 \<Rightarrow> u64 \<Rightarrow> u64 \<Rightarrow> cb_args \<Rightarrow> bs_eff list" where
  "bs_dev_delta_copy dst_lba src_lba lba_count cb = [Callback cb (- ENOTSUP)]"

definition bs_dev_delta_is_degraded :: "bs_dev_delta \<Rightarrow> bool" where
  "bs_dev_delta_is_degraded dev = False"

text \<open>
  \<open>bs_dev_delta_create\<close>. \<open>calloc_ok\<close> tells whether the allocation succeeded; the second component
  of the result tells whether the I/O device was registered.
\<close>

definition bs_dev_delta_create ::
  "bool \<Rightarrow> string \<Rightarrow> u64 \<Rightarrow> u32 \<Rightarrow> u32 \<Rightarrow> bs_dev_delta_direction \<Rightarrow>
   (bs_dev_delta option \<times> bool) c_result" where
  "bs_dev_delta_create calloc_ok filename blockcnt blocklen cluster_size direction =
     (if \<not> calloc_ok then Inr (None, False)
      else if blocklen = 0 then Inl Div_by_zero
      else c_bind (c_strcpy filename 1024) (\<lambda>name.
        Inr (Some \<lparr>d_blockcnt = blockcnt, d_blocklen = blocklen, d_filename = name,
                   d_direction = direction, d_directio = False,
                   d_cluster_size = cluster_size div blocklen\<rparr>, True)))"

section \<open>The device table\<close>

record delta_state =
  dd :: bs_dev_delta
  dc :: bs_dev_delta_io_channel
  dos :: posix

text \<open>The dispatch through the function pointers that \<open>bs_dev_delta_create\<close> installs.\<close>

fun delta_submit :: "delta_state \<Rightarrow> int \<Rightarrow> bs_op \<Rightarrow> (delta_state \<times> bs_eff list) c_result" where
  "delta_submit s w (Bs_read p lba n cb) = Inr (s, bs_dev_delta_read p lba n cb)"
| "delta_submit s w (Bs_readv iov lba n cb) = Inr (s, bs_dev_delta_readv iov lba n cb)"
| "delta_submit s w (Bs_readv_ext iov lba n cb) = Inr (s, bs_dev_delta_readv_ext iov lba n cb)"
| "delta_submit s w (Bs_write b lba n cb) =
     c_bind (bs_dev_delta_write (dd s) (dc s) (dos s) w b lba n cb)
       (\<lambda>(ch, P, es). Inr (s\<lparr>dc := ch, dos := P\<rparr>, es))"
| "delta_submit s w (Bs_writev iov lba n cb) = Inr (s, bs_dev_delta_writev iov lba n cb)"
| "delta_submit s w (Bs_writev_ext iov lba n cb) = Inr (s, bs_dev_delta_writev_ext iov lba n cb)"
| "delta_submit s w (Bs_flush cb) = Inr (s, bs_dev_delta_flush cb)"
| "delta_submit s w (Bs_write_zeroes lba n cb) = Inr (s, bs_dev_delta_write_zeroes lba n cb)"
| "delta_submit s w (Bs_unmap lba n cb) = Inr (s, bs_dev_delta_unmap lba n cb)"
| "delta_submit s w (Bs_copy d sr n cb) = Inr (s, bs_dev_delta_copy d sr n cb)"

text \<open>
  A sequence of whole-cluster writes through the table, each of which the file takes completely:
  how a shallow copy drives the device.
\<close>

definition cluster_bytes :: "bs_dev_delta \<Rightarrow> nat" where
  "cluster_bytes dev = unat (d_blocklen dev) * unat (d_cluster_size dev)"

fun delta_write_all :: "delta_state \<Rightarrow> (nat \<times> buf) list \<Rightarrow> delta_state c_result" where
  "delta_write_all s [] = Inr s"
| "delta_write_all s ((c, p) # ws) =
     c_bind (delta_submit s (int (cluster_bytes (dd s)))
               (Bs_write p (of_nat (c * unat (d_cluster_size (dd s)))) (d_cluster_size (dd s)) 0))
       (\<lambda>(s', es). delta_write_all s' ws)"

text \<open>The map such a sequence leaves, starting at file offset \<open>pos\<close>.\<close>

fun place :: "nat \<Rightarrow> nat \<Rightarrow> (nat \<Rightarrow> u64) \<Rightarrow> (nat \<times> buf) list \<Rightarrow> nat \<Rightarrow> u64" where
  "place pos n m [] = m"
| "place pos n m ((c, p) # ws) = place (pos + n) n (m(c := of_nat pos)) ws"

section \<open>Completions\<close>

lemmas delta_op_defs =
  bs_dev_delta_read_def bs_dev_delta_readv_def bs_dev_delta_readv_ext_def bs_dev_delta_writev_def
  bs_dev_delta_writev_ext_def bs_dev_delta_flush_def bs_dev_delta_write_zeroes_def
  bs_dev_delta_unmap_def bs_dev_delta_copy_def

lemma callbacks_delta_poll_loop:
  "callbacks (delta_poll_loop cqes) = map (\<lambda>(cb, res). (cb, if res < 0 then - EIO else 0)) cqes"
  "queued (delta_poll_loop cqes) = []"
  by (induction cqes rule: delta_poll_loop.induct) auto

lemma delta_write_answers:
  "bs_dev_delta_write dev ch P w b lba n cb = Inr (ch', P', es) \<Longrightarrow> \<exists>rc. es = [Callback cb rc]"
  by (auto simp: bs_dev_delta_write_def Let_def split: if_splits prod.splits)

interpretation delta_io: bs_dev_io delta_submit bs_dev_delta_poll "\<lambda>_. True"
proof unfold_locales
  fix e s op s' es
  assume "delta_submit s e op = Inr (s', es)"
  then show "map fst (callbacks es) @ queued es = [op_cb op]"
    by (cases op) (auto simp: delta_op_defs dest!: delta_write_answers)
next
  fix cqes rc es
  assume "bs_dev_delta_poll (int (length cqes)) cqes = (rc, es)"
  then have es: "es = delta_poll_loop cqes"
    by (auto simp: bs_dev_delta_poll_def)
  show "map fst (callbacks es) = map fst cqes" and "queued es = []"
    by (auto simp: es callbacks_delta_poll_loop)
qed

section \<open>One write\<close>

lemma MAX_CLUSTERS_eq: "MAX_CLUSTERS = 2 ^ 26"
  by (simp add: MAX_CLUSTERS_def)

lemma MAP_BYTES_eq: "MAP_BYTES = 2 ^ 29"
  by (simp add: MAP_BYTES_def MAX_CLUSTERS_def)

text \<open>The first block of cluster \<open>c\<close>, as a 64-bit block address.\<close>

lemma cluster_lba [geom]:
  assumes "c < MAX_CLUSTERS"
  shows "unat (of_nat (c * unat (k :: u32)) :: u64) = c * unat k"
proof -
  have "unat k < 2 ^ 32"
    using unsigned_less [of k] by simp
  then have "c * unat k < 2 ^ 26 * 2 ^ 32"
    using assms by (intro mult_strict_mono) (auto simp: MAX_CLUSTERS_eq)
  then show ?thesis
    by (simp add: unat_of_nat take_bit_nat_eq_self del: of_nat_mult)
qed

lemma cluster_lba_div_mod [geom]:
  assumes "c < MAX_CLUSTERS" and "k \<noteq> (0 :: u32)"
  shows "unat ((of_nat (c * unat k) :: u64) div ucast k) = c"
    and "(of_nat (c * unat k) :: u64) mod ucast k = 0"
proof -
  have "0 < unat k"
    using assms(2) by (simp add: unat_gt_0)
  then show "unat ((of_nat (c * unat k) :: u64) div ucast k) = c"
    by (simp only: unat_div_ucast cluster_lba [OF assms(1)] nonzero_mult_div_cancel_right)
  have "unat ((of_nat (c * unat k) :: u64) mod ucast k) = 0"
    by (simp only: unat_mod_ucast cluster_lba [OF assms(1)] mod_mult_self2_is_0)
  then show "(of_nat (c * unat k) :: u64) mod ucast k = 0"
    by (simp only: unat_eq_0)
qed

lemma delta_write_full:
  assumes fd: "fd_file P (delta_file_fd ch) = Some (path, pos, f)" "fseekable f"
    and size: "0 < cluster_bytes dev" "cluster_bytes dev < 2 ^ 31"
    and c: "c < MAX_CLUSTERS"
  obtains P' where
    "bs_dev_delta_write dev ch P (int (cluster_bytes dev)) p
       (of_nat (c * unat (d_cluster_size dev))) (d_cluster_size dev) cb =
     Inr (ch\<lparr>d_cluster_map := (d_cluster_map ch)(c := of_nat pos)\<rparr>, P', [Callback cb 0])"
    and "fd_file P' (delta_file_fd ch) = Some (path, log_append p (cluster_bytes dev) (pos, f))"
    and "\<And>q. q \<noteq> path \<Longrightarrow> files P' q = files P q"
    and "\<And>d. d \<noteq> delta_file_fd ch \<Longrightarrow> fds P' d = fds P d"
proof -
  let ?k = "d_cluster_size dev"
  have k: "?k \<noteq> 0"
    using size(1) by (auto simp: cluster_bytes_def)
  have sz: "unat (d_blocklen dev * ?k) = cluster_bytes dev"
    using size(2) unat_mult_exact [of "d_blocklen dev" ?k] by (simp add: cluster_bytes_def)
  obtain P' where P': "posix_write (delta_file_fd ch) p (cluster_bytes dev) (int (cluster_bytes dev)) P
        = (int (cluster_bytes dev), P')"
    and rest: "fd_file P' (delta_file_fd ch) = Some (path, log_append p (cluster_bytes dev) (pos, f))"
      "\<And>q. q \<noteq> path \<Longrightarrow> files P' q = files P q"
      "\<And>d. d \<noteq> delta_file_fd ch \<Longrightarrow> fds P' d = fds P d"
    using posix_write_full [OF fd(1)] by metis
  have "posix_lseek_cur (delta_file_fd ch) P = int pos"
    using fd by (simp add: posix_lseek_cur_def)
  moreover have "\<not> delta_all_zero_overflows p (ucast (d_blocklen dev * ?k))"
    using size(2) by (simp add: delta_all_zero_overflows_def sz)
  moreover have "c_int (int (cluster_bytes dev)) = int (cluster_bytes dev)"
    using size(2) by (intro c_int_small) (simp_all flip: of_nat_less_iff)
  ultimately have "bs_dev_delta_write dev ch P (int (cluster_bytes dev)) p
       (of_nat (c * unat ?k)) ?k cb =
     Inr (ch\<lparr>d_cluster_map := (d_cluster_map ch)(c := of_nat pos)\<rparr>, P', [Callback cb 0])"
    using c k P' cluster_lba_div_mod [OF c k]
    by (simp add: bs_dev_delta_write_def Let_def sz del: of_nat_mult unat_div_ucast)
  then show ?thesis
    using rest by (rule that)
qed

section \<open>A sequence of writes\<close>

lemma place_other: "c \<notin> fst ` set ws \<Longrightarrow> place pos n m ws c = m c"
  by (induction ws arbitrary: pos m rule: list.induct) (auto split: prod.splits)

lemma place_last:
  "c \<notin> fst ` set ys \<Longrightarrow> place pos n m (xs @ (c, p) # ys) c = of_nat (pos + n * length xs)"
  by (induction xs arbitrary: pos m) (auto simp: place_other algebra_simps)

text \<open>
  Whole-cluster writes append the clusters one after the other and record where the last write of
  each cluster went.
\<close>

lemma delta_write_all_layout:
  assumes "fd_file (dos s) (delta_file_fd (dc s)) = Some (path, pos, f)" and "fseekable f"
    and "0 < cluster_bytes (dd s)" and "cluster_bytes (dd s) < 2 ^ 31"
    and "\<forall>w \<in> set ws. fst w < MAX_CLUSTERS"
  shows "\<exists>s'. delta_write_all s ws = Inr s' \<and> dd s' = dd s \<and>
    delta_file_fd (dc s') = delta_file_fd (dc s) \<and>
    fd_file (dos s') (delta_file_fd (dc s)) =
      Some (path, fold (\<lambda>(b, n). log_append b n)
        (map (\<lambda>w. (snd w, cluster_bytes (dd s))) ws) (pos, f)) \<and>
    d_cluster_map (dc s') = place pos (cluster_bytes (dd s)) (d_cluster_map (dc s)) ws \<and>
    (\<forall>q. q \<noteq> path \<longrightarrow> files (dos s') q = files (dos s) q)"
  using assms
proof (induction ws arbitrary: s pos f)
  case Nil
  then show ?case by simp
next
  case (Cons w ws)
  obtain c p where w: "w = (c, p)" by (cases w)
  with Cons.prems(5) have c: "c < MAX_CLUSTERS" by simp
  let ?n = "cluster_bytes (dd s)"
  obtain P' where P': "bs_dev_delta_write (dd s) (dc s) (dos s) (int ?n) p
       (of_nat (c * unat (d_cluster_size (dd s)))) (d_cluster_size (dd s)) 0 =
     Inr ((dc s)\<lparr>d_cluster_map := (d_cluster_map (dc s))(c := of_nat pos)\<rparr>, P', [Callback 0 0])"
    and fd': "fd_file P' (delta_file_fd (dc s)) = Some (path, log_append p ?n (pos, f))"
    and oth: "\<And>q. q \<noteq> path \<Longrightarrow> files P' q = files (dos s) q"
    using delta_write_full [OF Cons.prems(1-4) c, of p 0] by blast
  let ?s = "s\<lparr>dc := (dc s)\<lparr>d_cluster_map := (d_cluster_map (dc s))(c := of_nat pos)\<rparr>, dos := P'\<rparr>"
  obtain f' where la: "log_append p ?n (pos, f) = (pos + ?n, f')" and f': "fseekable f'"
    using Cons.prems(2) by (auto simp: log_append_def)
  have "fd_file (dos ?s) (delta_file_fd (dc ?s)) = Some (path, pos + ?n, f')"
    using fd' la by simp
  from Cons.IH [OF this f'] Cons.prems(3-5) obtain s' where
    "delta_write_all ?s ws = Inr s'" "dd s' = dd s"
    "delta_file_fd (dc s') = delta_file_fd (dc s)"
    "fd_file (dos s') (delta_file_fd (dc s)) = Some (path, fold (\<lambda>(b, n). log_append b n)
        (map (\<lambda>w. (snd w, ?n)) ws) (log_append p ?n (pos, f)))"
    "d_cluster_map (dc s') = place (pos + ?n) ?n ((d_cluster_map (dc s))(c := of_nat pos)) ws"
    "\<forall>q. q \<noteq> path \<longrightarrow> files (dos s') q = files P' q"
    by (auto simp: la fun_upd_def)
  then show ?case
    using P' oth w by (simp del: of_nat_mult)
qed

section \<open>The cluster map on disk\<close>

lemma destroy_channel_writes_map:
  assumes fd: "fd_file P (delta_file_fd ch) = Some (path, pos, f)" "fseekable f"
    and dir: "d_direction dev = BS_DEV_DELTA_WRITE" and full: "int MAP_BYTES \<le> w"
  shows "\<exists>P' f'. bs_dev_delta_destroy_channel_cb dev ch w P = (ch\<lparr>d_poller := False\<rparr>, P') \<and>
    files P' = (files P)(path \<mapsto> f') \<and> MAP_BYTES \<le> fsize f' \<and> fseekable f' \<and>
    (\<forall>i. fbytes f' i = (if i < MAP_BYTES then map_bytes (d_cluster_map ch) i else fbytes f i))"
proof -
  have "min MAP_BYTES (nat w) = MAP_BYTES" and "0 \<le> w" and "0 < MAP_BYTES"
    using full by (auto simp: MAP_BYTES_eq)
  with fd [unfolded fd_file_Some_iff] dir have "files (snd (bs_dev_delta_destroy_channel_cb dev ch w P)) =
      (files P)(path \<mapsto> file_write 0 (map_bytes (d_cluster_map ch)) MAP_BYTES f)"
    by (simp add: bs_dev_delta_destroy_channel_cb_def posix_lseek_start_def posix_write_def
        fd_file_def posix_close_def Let_def)
  moreover have "fst (bs_dev_delta_destroy_channel_cb dev ch w P) = ch\<lparr>d_poller := False\<rparr>"
    by (simp add: bs_dev_delta_destroy_channel_cb_def Let_def)
  ultimately show ?thesis
    using \<open>0 < MAP_BYTES\<close> fd(2)
    by (intro exI [of _ "snd (bs_dev_delta_destroy_channel_cb dev ch w P)"]
        exI [of _ "file_write 0 (map_bytes (d_cluster_map ch)) MAP_BYTES f"])
      (auto simp: prod_eq_iff file_write_def)
qed

lemma read_cluster_map_loads:
  assumes "files P path = Some f" and "MAP_BYTES \<le> fsize f"
    and "\<forall>i < MAP_BYTES. fbytes f i = map_bytes m i"
    and "0 \<le> open_ret" and "int MAP_BYTES \<le> read_ret"
  shows "\<exists>m' P'. ubi_read_cluster_map path open_ret read_ret m0 P = (0, m', P') \<and>
    files P' = files P \<and> (\<forall>c < MAX_CLUSTERS. m' c = m c)"
proof -
  have k: "min MAP_BYTES (min (nat read_ret) (fsize f - 0)) = MAP_BYTES" and r: "0 \<le> read_ret"
    using assms(2,5) by auto
  have "load_map (int MAP_BYTES) (fbytes f) m0 c = m c" if "c < MAX_CLUSTERS" for c
  proof -
    have "load_map (int MAP_BYTES) (fbytes f) m0 c = u64_at (fbytes f) c"
      using that by (simp add: load_map_def u64_at_overlay MAP_BYTES_def)
    also have "\<dots> = u64_at (map_bytes m) c"
      using that assms(3) by (intro u64_at_cong) (simp add: MAP_BYTES_def)
    finally show ?thesis by simp
  qed
  with assms(1,4) k r show ?thesis
    by (simp add: ubi_read_cluster_map_def posix_open_def posix_read_def fd_file_def posix_close_def
        Let_def)
qed

text \<open>A fresh writing channel: the map region is reserved and the position is behind it.\<close>

lemma create_channel_write:
  assumes dir: "d_direction dev = BS_DEV_DELTA_WRITE"
    and env: "0 \<le> de_open e" "int MAP_BYTES \<le> de_write e" "de_ring e = 0"
    and old: "\<And>f. files P (c_str (d_filename dev)) = Some f \<Longrightarrow> fseekable f"
  shows "\<exists>ch P' f. bs_dev_delta_create_channel_cb dev e P = Inr (0, ch, P') \<and>
    fd_file P' (delta_file_fd ch) = Some (c_str (d_filename dev), MAP_BYTES, f) \<and> fseekable f \<and>
    d_cluster_map ch = (\<lambda>_. 0) \<and> delta_file_fd ch = de_open e \<and>
    (\<forall>q. q \<noteq> c_str (d_filename dev) \<longrightarrow> files P' q = files P q)"
proof -
  have "min MAP_BYTES (nat (de_write e)) = MAP_BYTES" and "0 \<le> de_write e"
    using env(2) by auto
  with dir env(1,3) old show ?thesis
    by (auto simp: bs_dev_delta_create_channel_cb_def posix_open_def posix_write_def fd_file_def
        Let_def empty_file_def split: option.splits)
qed

section \<open>Properties of the delta device\<close>

lemma delta_queues_nothing:
  "bs_run delta_submit bs_dev_delta_poll (\<lambda>_. True) s0 (s, iss, fl, dn) \<Longrightarrow> fl = {#}"
proof (induction "(s, iss, fl, dn)" arbitrary: s iss fl dn rule: bs_run.induct)
  case (issue s iss fl dn e op s' es)
  have "length (map fst (callbacks es) @ queued es) = 1" and "callbacks es \<noteq> []"
    using issue.hyps(4) delta_io.submit_answers [OF issue.hyps(3,4)]
    by (auto, cases op) (auto simp: delta_op_defs dest!: delta_write_answers)
  then have "queued es = []"
    by (cases "callbacks es") auto
  with issue.hyps(2) show ?case by simp
next
  case (reap s iss fl dn cqes rc es)
  then show ?case
    using delta_io.poll_queues_nothing [OF reap.hyps(4)] by simp
qed simp

text \<open>
  C17. Whatever operations the blobstore issues on the delta device, and whatever its poller reaps,
  at every moment of a run each operation issued so far has had its completion callback called
  exactly once, and none is left waiting.
\<close>

theorem delta_answers_each_request_once:
  assumes "bs_run delta_submit bs_dev_delta_poll (\<lambda>_. True) s0 (s, iss, fl, dn)"
  shows "fl = {#} \<and> mset (map fst dn) = mset iss"
  using delta_io.conservation [OF assms] delta_queues_nothing [OF assms] by simp

theorem delta_answers_each_request_once_witness:
  "\<exists>s. bs_run delta_submit bs_dev_delta_poll (\<lambda>_. True) s (s, [7], {#}, [(7, - ENOTSUP)]) \<and>
    mset (map fst [(7 :: nat, - ENOTSUP)]) = mset [7 :: nat]"
proof -
  let ?s = "\<lparr>dd = \<lparr>d_blockcnt = 0, d_blocklen = 512, d_filename = [], d_direction = BS_DEV_DELTA_WRITE,
                  d_directio = False, d_cluster_size = 8\<rparr>,
            dc = \<lparr>delta_file_fd = 3, d_poller = True, d_cluster_map = (\<lambda>_. 0), d_initialized = False\<rparr>,
            dos = \<lparr>files = Map.empty, fds = Map.empty\<rparr>\<rparr>"
  have "bs_run delta_submit bs_dev_delta_poll (\<lambda>_. True) ?s
      (?s, [] @ [op_cb (Bs_flush 7)], {#} + mset (queued (bs_dev_delta_flush 7)),
       [] @ callbacks (bs_dev_delta_flush 7))"
    by (rule bs_run.issue [OF bs_run.start, where e = 0]) simp_all
  then have run: "bs_run delta_submit bs_dev_delta_poll (\<lambda>_. True) ?s
      (?s, [7], {#}, [(7, - ENOTSUP)])"
    by (simp add: bs_dev_delta_flush_def)
  then show ?thesis
    using delta_answers_each_request_once [OF run] by blast
qed

text \<open>
  C15. Tearing down a writing channel and loading the file again returns the cluster map of the
  channel: \<open>ubi_read_cluster_map\<close> inverts what \<open>bs_dev_delta_destroy_channel_cb\<close> wrote, for every
  cluster number below \<open>MAX_CLUSTERS\<close>, and the bytes behind the map are untouched.
\<close>

theorem cluster_map_roundtrip:
  assumes "fd_file P (delta_file_fd ch) = Some (path, pos, f)" and "fseekable f"
    and "d_direction dev = BS_DEV_DELTA_WRITE" and "int MAP_BYTES \<le> w"
    and "0 \<le> open_ret" and "int MAP_BYTES \<le> read_ret"
  shows "\<exists>m P'. ubi_read_cluster_map path open_ret read_ret (\<lambda>_. 0)
        (snd (bs_dev_delta_destroy_channel_cb dev ch w P)) = (0, m, P') \<and>
      (\<forall>c < MAX_CLUSTERS. m c = d_cluster_map ch c) \<and>
      (\<exists>f'. files P' path = Some f' \<and> (\<forall>i. MAP_BYTES \<le> i \<longrightarrow> fbytes f' i = fbytes f i))"
proof -
  obtain P1 f1 where P1: "bs_dev_delta_destroy_channel_cb dev ch w P = (ch\<lparr>d_poller := False\<rparr>, P1)"
    "files P1 = (files P)(path \<mapsto> f1)" "MAP_BYTES \<le> fsize f1"
    "\<forall>i. fbytes f1 i = (if i < MAP_BYTES then map_bytes (d_cluster_map ch) i else fbytes f i)"
    using destroy_channel_writes_map [OF assms(1-4)] by blast
  have "files P1 path = Some f1" and "\<forall>i < MAP_BYTES. fbytes f1 i = map_bytes (d_cluster_map ch) i"
    using P1(2,4) by simp_all
  from read_cluster_map_loads [OF this(1) P1(3) this(2) assms(5,6), of "\<lambda>_. 0"] P1
  show ?thesis by auto
qed

theorem cluster_map_roundtrip_witness:
  defines "f \<equiv> \<lparr>fbytes = (\<lambda>_. 9), fsize = 2 ^ 30, fseekable = True\<rparr>"
  defines "ch \<equiv> \<lparr>delta_file_fd = 3, d_poller = True, d_cluster_map = (\<lambda>_. 0)(5 := 2 ^ 29),
                  d_initialized = False\<rparr>"
  defines "dev \<equiv> \<lparr>d_blockcnt = 0, d_blocklen = 512, d_filename = ''d'', d_direction = BS_DEV_DELTA_WRITE,
                  d_directio = False, d_cluster_size = 8\<rparr>"
  defines "P \<equiv> \<lparr>files = [''d'' \<mapsto> f], fds = [3 \<mapsto> (''d'', 2 ^ 30)]\<rparr>"
  shows "\<exists>m P'. ubi_read_cluster_map ''d'' 4 (2 ^ 29) (\<lambda>_. 0)
        (snd (bs_dev_delta_destroy_channel_cb dev ch (2 ^ 29) P)) = (0, m, P') \<and>
      (\<forall>c < MAX_CLUSTERS. m c = d_cluster_map ch c) \<and>
      (\<exists>f'. files P' ''d'' = Some f' \<and> (\<forall>i. MAP_BYTES \<le> i \<longrightarrow> fbytes f' i = fbytes f i))"
  by (rule cluster_map_roundtrip)
    (simp_all add: f_def ch_def dev_def P_def fd_file_def MAP_BYTES_eq)

text \<open>
  C35. What \<open>bs_dev_delta_write\<close> does with a request it rejects, on every branch: a descriptor that
  cannot be positioned gives \<open>-EIO\<close> and a block address that is not the start of a cluster gives
  \<open>-EINVAL\<close>, both with the map and the file as they were; when the write itself fails, the request
  gets \<open>-EIO\<close> and no byte is written, but the map already has an entry for the cluster, at the
  position where nothing was stored.
\<close>

theorem delta_write_errors:
  assumes "d_cluster_size dev \<noteq> 0"
  shows "(posix_lseek_cur (delta_file_fd ch) P < 0 \<longrightarrow>
      bs_dev_delta_write dev ch P w b lba n cb = Inr (ch, P, [Callback cb (- EIO)])) \<and>
    (0 \<le> posix_lseek_cur (delta_file_fd ch) P \<and> \<not> unat (d_cluster_size dev) dvd unat lba \<longrightarrow>
      bs_dev_delta_write dev ch P w b lba n cb = Inr (ch, P, [Callback cb (- EINVAL)])) \<and>
    (0 \<le> posix_lseek_cur (delta_file_fd ch) P \<and> unat (d_cluster_size dev) dvd unat lba \<and>
     unat lba div unat (d_cluster_size dev) < MAX_CLUSTERS \<and> w < 0 \<and>
     unat (d_blocklen dev * n) < 2 ^ 31 \<longrightarrow>
      bs_dev_delta_write dev ch P w b lba n cb =
        Inr (ch\<lparr>d_cluster_map := (d_cluster_map ch)
               (unat lba div unat (d_cluster_size dev) :=
                  word_of_int (posix_lseek_cur (delta_file_fd ch) P))\<rparr>,
             P, [Callback cb (- EIO)]))"
proof (intro conjI impI)
  have al: "lba mod ucast (d_cluster_size dev) = 0 \<longleftrightarrow> unat (d_cluster_size dev) dvd unat lba"
    by (simp only: unat_mod_ucast dvd_eq_mod_eq_0 flip: unat_eq_0)
  {
    assume "posix_lseek_cur (delta_file_fd ch) P < 0"
    then show "bs_dev_delta_write dev ch P w b lba n cb = Inr (ch, P, [Callback cb (- EIO)])"
      by (simp add: bs_dev_delta_write_def)
  next
    assume "0 \<le> posix_lseek_cur (delta_file_fd ch) P \<and> \<not> unat (d_cluster_size dev) dvd unat lba"
    then show "bs_dev_delta_write dev ch P w b lba n cb = Inr (ch, P, [Callback cb (- EINVAL)])"
      using assms al by (simp add: bs_dev_delta_write_def)
  next
    assume a: "0 \<le> posix_lseek_cur (delta_file_fd ch) P \<and> unat (d_cluster_size dev) dvd unat lba \<and>
      unat lba div unat (d_cluster_size dev) < MAX_CLUSTERS \<and> w < 0 \<and>
      unat (d_blocklen dev * n) < 2 ^ 31"
    then have "posix_write (delta_file_fd ch) b (unat (d_blocklen dev * n)) w P = (- 1, P)"
      by (auto simp: posix_write_def split: option.splits)
    moreover have "c_int (- 1) < 0"
      by (simp add: c_int_small)
    ultimately show "bs_dev_delta_write dev ch P w b lba n cb =
        Inr (ch\<lparr>d_cluster_map := (d_cluster_map ch)
               (unat lba div unat (d_cluster_size dev) :=
                  word_of_int (posix_lseek_cur (delta_file_fd ch) P))\<rparr>,
             P, [Callback cb (- EIO)])"
      using a assms al
      by (auto simp: bs_dev_delta_write_def Let_def delta_all_zero_overflows_def)
  }
qed

theorem delta_write_errors_witness:
  defines "dev \<equiv> \<lparr>d_blockcnt = 0, d_blocklen = 512, d_filename = ''d'', d_direction = BS_DEV_DELTA_WRITE,
                  d_directio = False, d_cluster_size = 8\<rparr>"
  defines "ch \<equiv> \<lparr>delta_file_fd = 3, d_poller = True, d_cluster_map = (\<lambda>_. 0), d_initialized = False\<rparr>"
  defines "P \<equiv> \<lparr>files = [''d'' \<mapsto> empty_file], fds = [3 \<mapsto> (''d'', 2 ^ 29)]\<rparr>"
  shows "bs_dev_delta_write dev ch P (- 1) (\<lambda>_. 1) 16 8 4 =
    Inr (ch\<lparr>d_cluster_map := (\<lambda>_. 0)(2 := 2 ^ 29)\<rparr>, P, [Callback 4 (- EIO)])"
proof -
  have "posix_lseek_cur 3 P = 2 ^ 29"
    by (simp add: P_def posix_lseek_cur_def fd_file_def empty_file_def)
  then show ?thesis
    using delta_write_errors [of dev ch P "- 1" "\<lambda>_. 1" 16 8 4]
    by (simp add: dev_def ch_def MAX_CLUSTERS_def)
qed

lemma delta_create_ok:
  assumes "blocklen \<noteq> 0" and "length path < 1024" and "NUL \<notin> set path"
  shows "\<exists>d. bs_dev_delta_create True path blockcnt blocklen cluster_size dir = Inr (Some d, True) \<and>
    c_str (d_filename d) = path \<and> d_direction d = dir \<and> d_blocklen d = blocklen \<and>
    unat (d_cluster_size d) = unat cluster_size div unat blocklen"
proof -
  obtain a where a: "c_strcpy path 1024 = Inr a"
    using assms(2) by (simp add: c_strcpy_def)
  then show ?thesis
    using assms c_strcpy_str [of path 1024 a] by (simp add: bs_dev_delta_create_def unat_div)
qed

text \<open>
  \<open>bs_dev_delta_create\<close> copies the path with \<open>strcpy\<close> into 1024 bytes: it overruns the buffer
  exactly for paths of 1024 characters or more. For shorter ones it builds the device, with the
  cluster size in blocks, and registers it.
\<close>

theorem delta_create_path:
  assumes "blocklen \<noteq> 0"
  shows "(bs_dev_delta_create True path blockcnt blocklen cluster_size dir = Inl Buffer_overflow
        \<longleftrightarrow> 1024 \<le> length path) \<and>
    (length path < 1024 \<and> NUL \<notin> set path \<longrightarrow>
      (\<exists>d. bs_dev_delta_create True path blockcnt blocklen cluster_size dir = Inr (Some d, True) \<and>
           c_str (d_filename d) = path \<and> d_direction d = dir \<and> d_blocklen d = blocklen \<and>
           unat (d_cluster_size d) = unat cluster_size div unat blocklen))"
proof (cases "length path < 1024")
  case True
  then have "bs_dev_delta_create True path blockcnt blocklen cluster_size dir \<noteq> Inl Buffer_overflow"
    using assms by (simp add: bs_dev_delta_create_def c_strcpy_def)
  then show ?thesis
    using True delta_create_ok [OF assms, of path] by simp
next
  case False
  then have "c_strcpy path 1024 = Inl Buffer_overflow"
    by (simp add: c_strcpy_def)
  with False assms show ?thesis
    by (simp add: bs_dev_delta_create_def)
qed

text \<open>
  The vectored writes of the delta device report success and store nothing: the device, its map
  and every file are as before, whatever was to be written.
\<close>

theorem delta_writev_drops_data:
  "delta_submit s w (Bs_writev iov lba n cb) = Inr (s, [Callback cb 0]) \<and>
   delta_submit s w (Bs_writev_ext iov lba n cb) = Inr (s, [Callback cb 0])"
  by (simp add: delta_op_defs)

end
