(* ===== verification/Bs_Uring.thy ===== *)
theory Bs_Uring
  imports Bs_Delta
begin

text \<open>
  The image device of \<open>src/lib/spdk_bs_dev_uring.c\<close>: the read-only back-end behind the blob of a
  ubi bdev. It serves a block from the snapshot (delta) file when the cluster map has an entry
  for the block's cluster, and from the image file otherwise.

  \<open>spdk_u64log2\<close> belongs to SPDK and is an argument of the constructor, \<open>u64log2\<close>; the named
  hypothesis \<open>log2_spec\<close> states its documented value on powers of two.

  Theorems: the address arithmetic of \<open>set_io_opts\<close> (shifts and a mask on 64-bit words) computes
  the byte offset it should; what every operation does on every branch; when ranges are valid.
\<close>

section \<open>Definitions\<close>

record bs_dev_uring =
  u_blockcnt :: u64
  u_blocklen :: u32
  u_filename :: "char list"
  u_snapshot_path :: "char list"
  u_cluster_map :: "nat \<Rightarrow> u64"
  u_directio :: bool
  lba_to_cluster_shift :: u64
  lba_offset_mask :: u64
  lba_to_addr_shift :: u64

record bs_dev_uring_io_channel =
  image_file_fd :: int
  snapshot_file_fd :: int
  u_poller :: bool

fun uring_poll_loop :: "(cb_args \<times> int) list \<Rightarrow> bs_eff list" where
  "uring_poll_loop [] = []"
| "uring_poll_loop ((cb, res) # cqes) =
     (if res < 0 then Callback cb (- EIO) else Callback cb 0) # Cqe_seen # uring_poll_loop cqes"

definition bs_dev_uring_poll :: "int \<Rightarrow> (cb_args \<times> int) list \<Rightarrow> poller_rc \<times> bs_eff list" where
  "bs_dev_uring_poll ret cqes =
     (if ret = - EAGAIN then (Poller_busy, [])
      else if ret < 0 then (Poller_busy, [])
      else (Poller_busy, uring_poll_loop (take (nat ret) cqes)))"

record uring_open_env =
  ue_open_image :: int
  ue_open_snapshot :: int
  ue_ring :: int

text \<open>As for the delta device, every error path frees the context buffer of the channel, which is undefined.\<close>

definition bs_dev_uring_create_channel_cb ::
  "bs_dev_uring \<Rightarrow> uring_open_env \<Rightarrow> posix \<Rightarrow> (int \<times> bs_dev_uring_io_channel \<times> posix) c_result" where
  "bs_dev_uring_create_channel_cb dev e P =
     (let (ifd, P1) = posix_open (c_str (u_filename dev)) False (ue_open_image e) P in
      if ifd < 0 then Inl Bad_free
      else let (sfd, failed, P2) =
          (if c_str (u_snapshot_path dev) \<noteq> []
           then let (sfd, P2) =
                  posix_open (c_str (u_snapshot_path dev)) False (ue_open_snapshot e) P1
                in (sfd, sfd < 0, P2)
           else (-1, False, P1)) in
        if failed then Inl Bad_free
        else if ue_ring e \<noteq> 0 then Inl Bad_free
        else Inr (0, \<lparr>image_file_fd = ifd, snapshot_file_fd = sfd, u_poller = True\<rparr>, P2))"

definition bs_dev_uring_destroy_channel_cb ::
  "bs_dev_uring_io_channel \<Rightarrow> posix \<Rightarrow> bs_dev_uring_io_channel \<times> posix" where
  "bs_dev_uring_destroy_channel_cb ch P =
     (ch\<lparr>u_poller := False\<rparr>, posix_close (image_file_fd ch) P)"

text \<open>The entries of the device table for channels and for the end of the device; the device is not freed.\<close>

definition bs_dev_uring_create_channel :: "nat \<Rightarrow> thread_call list" where
  "bs_dev_uring_create_channel dev = [Get_io_channel dev]"

definition bs_dev_uring_destroy_channel :: "nat \<Rightarrow> nat \<Rightarrow> thread_call list" where
  "bs_dev_uring_destroy_channel dev channel = [Put_io_channel channel]"

definition bs_dev_uring_destroy :: "nat \<Rightarrow> thread_call list" where
  "bs_dev_uring_destroy dev = [Io_device_unregister dev]"

text \<open>
  \<open>set_io_opts\<close>: the descriptor and the byte offset that hold block \<open>lba\<close>. The cluster number is
  truncated to 32 bits and not compared with the size of the map.
\<close>

definition c_shr :: "u64 \<Rightarrow> u64 \<Rightarrow> u64 c_result" where
  "c_shr x n = (if 64 \<le> unat n then Inl Bad_shift else Inr (drop_bit (unat n) x))"

definition c_shl :: "u64 \<Rightarrow> u64 \<Rightarrow> u64 c_result" where
  "c_shl x n = (if 64 \<le> unat n then Inl Bad_shift else Inr (push_bit (unat n) x))"

definition set_io_opts ::
  "bs_dev_uring \<Rightarrow> bs_dev_uring_io_channel \<Rightarrow> u64 \<Rightarrow> (int \<times> u64) c_result" where
  "set_io_opts dev ch lba =
     c_bind (c_shr lba (lba_to_cluster_shift dev)) (\<lambda>cl.
       let cluster_id = (ucast cl :: u32) in
       if MAX_CLUSTERS \<le> unat cluster_id then Inl Out_of_bounds
       else if u_cluster_map dev (unat cluster_id) = 0
       then c_bind (c_shl lba (lba_to_addr_shift dev)) (\<lambda>off. Inr (image_file_fd ch, off))
       else let cluster_start = u_cluster_map dev (unat cluster_id);
                lba_offset = lba AND lba_offset_mask dev in
         c_bind (c_shl lba_offset (lba_to_addr_shift dev)) (\<lambda>off.
           Inr (snapshot_file_fd ch, cluster_start + off)))"

text \<open>
  The answers of liburing to one request: whether \<open>io_uring_get_sqe\<close> returned an entry, and the
  value of \<open>io_uring_submit\<close>.
\<close>

record uring_env =
  sqe_available :: bool
  submit_ret :: int

definition uring_submit_sqe :: "uring_env \<Rightarrow> cb_args \<Rightarrow> sqe \<Rightarrow> bs_eff list c_result" where
  "uring_submit_sqe e cb q =
     (if \<not> sqe_available e then Inl Null_deref
      else Inr ([Queue_sqe cb q, Ring_submit] @
                (if submit_ret e < 0 then [Callback cb (- EIO)] else [])))"

definition bs_dev_uring_read ::
  "bs_dev_uring \<Rightarrow> bs_dev_uring_io_channel \<Rightarrow> uring_env \<Rightarrow> nat \<Rightarrow> u64 \<Rightarrow> u32 \<Rightarrow> cb_args \<Rightarrow>
   bs_eff list c_result" where
  "bs_dev_uring_read dev ch e payload lba lba_count cb =
     (if u_blockcnt dev \<le> lba then Inr [Callback cb 0]
      else c_bind (set_io_opts dev ch lba) (\<lambda>(fd, offset).
        uring_submit_sqe e cb (Prep_read fd payload (lba_count * u_blocklen dev) offset)))"

definition bs_dev_uring_readv ::
  "bs_dev_uring \<Rightarrow> bs_dev_uring_io_channel \<Rightarrow> uring_env \<Rightarrow> iovec list \<Rightarrow> u64 \<Rightarrow> u32 \<Rightarrow> cb_args \<Rightarrow>
   bs_eff list c_result" where
  "bs_dev_uring_readv dev ch e iov lba lba_count cb =
     (if u_blockcnt dev \<le> lba then Inr [Callback cb 0]
      else c_bind (set_io_opts dev ch lba) (\<lambda>(fd, offset).
        uring_submit_sqe e cb (Prep_readv fd iov offset)))"

definition bs_dev_uring_readv_ext ::
  "bs_dev_uring \<Rightarrow> bs_dev_uring_io_channel \<Rightarrow> uring_env \<Rightarrow> iovec list \<Rightarrow> u64 \<Rightarrow> u32 \<Rightarrow> cb_args \<Rightarrow>
   bs_eff list c_result" where
  "bs_dev_uring_readv_ext dev ch e iov lba lba_count cb =
     bs_dev_uring_readv dev ch e iov lba lba_count cb"

definition bs_dev_uring_write :: "buf \<Rightarrow> u64 \<Rightarrow> u32 \<Rightarrow> cb_args \<Rightarrow> bs_eff list" where
  "bs_dev_uring_write payload lba lba_count cb = [Callback cb (- ENOTSUP)]"

definition bs_dev_uring_writev :: "iovec list \<Rightarrow> u64 \<Rightarrow> u32 \<Rightarrow> cb_args \<Rightarrow> bs_eff list" where
  "bs_dev_uring_writev iov lba lba_count cb = [Callback cb (- ENOTSUP)]"

definition bs_dev_uring_writev_ext :: "iovec list \<Rightarrow> u64 \<Rightarrow> u32 \<Rightarrow> cb_args \<Rightarrow> bs_eff list" where
  "bs_dev_uring_writev_ext iov lba lba_count cb = [Callback cb (- ENOTSUP)]"

definition bs_dev_uring_flush :: "cb_args \<Rightarrow> bs_eff list" where
  "bs_dev_uring_flush cb = [Callback cb (- ENOTSUP)]"

definition bs_dev_uring_write_zeroes :: "u64 \<Rightarrow> u64 \<Rightarrow> cb_args \<Rightarrow> bs_eff list" where
  "bs_dev_uring_write_zeroes lba lba_count cb = [Callback cb (- ENOTSUP)]"

definition bs_dev_uring_unmap :: "u64 \<Rightarrow> u64 \<Rightarrow> cb_args \<Rightarrow> bs_eff list" where
  "bs_dev_uring_unmap lba lba_count cb = [Callback cb (- ENOTSUP)]"

definition bs_dev_uring_get_base_bdev :: "bs_dev_uring \<Rightarrow> nat option" where
  "bs_dev_uring_get_base_bdev dev = None"

definition bs_dev_uring_is_range_valid :: "bs_dev_uring \<Rightarrow> u64 \<Rightarrow> u64 \<Rightarrow> bool c_result" where
  "bs_dev_uring_is_range_valid dev lba lba_count =
     (if u_blockcnt dev \<le> lba
      then c_bind (c_shr lba (lba_to_cluster_shift dev)) (\<lambda>cluster.
        if MAX_CLUSTERS \<le> unat cluster then Inl Out_of_bounds
        else if u_cluster_map dev (unat cluster) \<noteq> 0 then Inr True
        else Inr False)
      else if u_blockcnt dev < lba + lba_count then Inr False
      else Inr True)"

definition bs_dev_uring_is_zeroes :: "bs_dev_uring \<Rightarrow> u64 \<Rightarrow> u64 \<Rightarrow> bool c_result" where
  "bs_dev_uring_is_zeroes dev lba lba_count =
     c_bind (bs_dev_uring_is_range_valid dev lba lba_count) (\<lambda>v. Inr (\<not> v))"

definition bs_dev_uring_translate_lba :: "bs_dev_uring \<Rightarrow> u64 \<Rightarrow> bool \<times> u64" where
  "bs_dev_uring_translate_lba dev lba = (True, lba)"

definition bs_dev_uring_copy :: "u64 \<Rightarrow> u64 \<Rightarrow> u64 \<Rightarrow> cb_args \<Rightarrow> bs_eff list" where
  "bs_dev_uring_copy dst_lba src_lba lba_count cb = [Callback cb (- ENOTSUP)]"

definition bs_dev_uring_is_degraded :: "bs_dev_uring \<Rightarrow> bool" where
  "bs_dev_uring_is_degraded dev = False"

text \<open>
  \<open>bs_dev_uring_create\<close>. The environment: whether \<open>calloc\<close> succeeds, the value of \<open>stat\<close>, and what
  reading the cluster map meets. A snapshot path is a pointer, null when absent. The mask is
  computed in \<open>int\<close>, so a shift of 31 or more is undefined.
\<close>

record uring_create_env =
  uc_calloc :: bool
  uc_stat :: int
  uc_open :: int
  uc_read :: int

definition offset_mask :: "u64 \<Rightarrow> u64 c_result" where
  "offset_mask sh = (if 31 \<le> unat sh then Inl Bad_shift else Inr (push_bit (unat sh) 1 - 1))"

definition bs_dev_uring_create ::
  "(u64 \<Rightarrow> u64) \<Rightarrow> uring_create_env \<Rightarrow> string \<Rightarrow> string option \<Rightarrow> u32 \<Rightarrow> u32 \<Rightarrow> bool \<Rightarrow> posix \<Rightarrow>
   (bs_dev_uring option \<times> bool \<times> posix) c_result" where
  "bs_dev_uring_create u64log2 e fname spath blen cluster_size dio P =
     (if \<not> uc_calloc e then Inr (None, False, P)
      else if uc_stat e \<noteq> 0 \<or> files P fname = None then Inr (None, False, P)
      else let st_size = fsize (the (files P fname));
               (ret, m, P1) = (if spath \<noteq> None \<and> spath \<noteq> Some []
                 then ubi_read_cluster_map (the spath) (uc_open e) (uc_read e) (\<lambda>_. 0) P
                 else (0, (\<lambda>_. 0), P)) in
        if ret \<noteq> 0 then Inr (None, False, P1)
        else if blen = 0 then Inl Div_by_zero
        else let sh = u64log2 (ucast (cluster_size div blen)); ash = u64log2 (ucast blen) in
          c_bind (offset_mask sh) (\<lambda>mask.
          c_bind (c_strcpy fname 1024) (\<lambda>fbuf.
          case spath of None \<Rightarrow> Inl Null_deref | Some sp \<Rightarrow>
          c_bind (c_strcpy sp 1024) (\<lambda>sbuf.
            Inr (Some \<lparr>u_blockcnt = of_nat (st_size div unat blen), u_blocklen = blen,
                       u_filename = fbuf, u_snapshot_path = sbuf, u_cluster_map = m,
                       u_directio = dio, lba_to_cluster_shift = sh, lba_offset_mask = mask,
                       lba_to_addr_shift = ash\<rparr>, True, P1)))))"

section \<open>The device table\<close>

text \<open>The dispatch through the function pointers that \<open>bs_dev_uring_create\<close> installs.\<close>

fun uring_submit ::
  "bs_dev_uring \<times> bs_dev_uring_io_channel \<Rightarrow> uring_env \<Rightarrow> bs_op \<Rightarrow>
   ((bs_dev_uring \<times> bs_dev_uring_io_channel) \<times> bs_eff list) c_result" where
  "uring_submit (d, ch) e (Bs_read p lba n cb) =
     c_bind (bs_dev_uring_read d ch e p lba n cb) (\<lambda>es. Inr ((d, ch), es))"
| "uring_submit (d, ch) e (Bs_readv iov lba n cb) =
     c_bind (bs_dev_uring_readv d ch e iov lba n cb) (\<lambda>es. Inr ((d, ch), es))"
| "uring_submit (d, ch) e (Bs_readv_ext iov lba n cb) =
     c_bind (bs_dev_uring_readv_ext d ch e iov lba n cb) (\<lambda>es. Inr ((d, ch), es))"
| "uring_submit s e (Bs_write b lba n cb) = Inr (s, bs_dev_uring_write b lba n cb)"
| "uring_submit s e (Bs_writev iov lba n cb) = Inr (s, bs_dev_uring_writev iov lba n cb)"
| "uring_submit s e (Bs_writev_ext iov lba n cb) = Inr (s, bs_dev_uring_writev_ext iov lba n cb)"
| "uring_submit s e (Bs_flush cb) = Inr (s, bs_dev_uring_flush cb)"
| "uring_submit s e (Bs_write_zeroes lba n cb) = Inr (s, bs_dev_uring_write_zeroes lba n cb)"
| "uring_submit s e (Bs_unmap lba n cb) = Inr (s, bs_dev_uring_unmap lba n cb)"
| "uring_submit s e (Bs_copy d sr n cb) = Inr (s, bs_dev_uring_copy d sr n cb)"

text \<open>The documented value of \<open>spdk_u64log2\<close> on powers of two.\<close>

definition log2_spec :: "(u64 \<Rightarrow> u64) \<Rightarrow> bool" where
  "log2_spec f \<longleftrightarrow> (\<forall>k < 64. f (2 ^ k) = of_nat k)"

section \<open>Completions\<close>

lemmas uring_op_defs =
  bs_dev_uring_write_def bs_dev_uring_writev_def bs_dev_uring_writev_ext_def bs_dev_uring_flush_def
  bs_dev_uring_write_zeroes_def bs_dev_uring_unmap_def bs_dev_uring_copy_def
  bs_dev_uring_readv_ext_def

lemma callbacks_uring_poll_loop:
  "callbacks (uring_poll_loop cqes) = map (\<lambda>(cb, res). (cb, if res < 0 then - EIO else 0)) cqes"
  "queued (uring_poll_loop cqes) = []"
  by (induction cqes rule: uring_poll_loop.induct) auto

lemma uring_submit_sqe_answers:
  "uring_submit_sqe e cb q = Inr es \<Longrightarrow> 0 \<le> submit_ret e \<Longrightarrow> es = [Queue_sqe cb q, Ring_submit]"
  by (auto simp: uring_submit_sqe_def split: if_splits)

interpretation uring_io: bs_dev_io uring_submit bs_dev_uring_poll "\<lambda>e. 0 \<le> submit_ret e"
proof unfold_locales
  fix e s op s' es
  assume "0 \<le> submit_ret e" and "uring_submit s e op = Inr (s', es)"
  then show "map fst (callbacks es) @ queued es = [op_cb op]"
    by (cases s; cases op)
      (auto simp: uring_op_defs bs_dev_uring_read_def bs_dev_uring_readv_def split: if_splits
        dest!: uring_submit_sqe_answers)
next
  fix cqes rc es
  assume "bs_dev_uring_poll (int (length cqes)) cqes = (rc, es)"
  then have es: "es = uring_poll_loop cqes"
    by (auto simp: bs_dev_uring_poll_def)
  show "map fst (callbacks es) = map fst cqes" and "queued es = []"
    by (auto simp: es callbacks_uring_poll_loop)
qed

text \<open>Whatever the submission returns, a request is queued, answered, or both.\<close>

interpretation uring_any: bs_dev_serve uring_submit bs_dev_uring_poll "\<lambda>_. True"
proof unfold_locales
  fix e s op s' es
  assume "uring_submit s e op = Inr (s', es)"
  then show "op_cb op \<in># mset (map fst (callbacks es)) + mset (queued es) \<and>
      mset (map fst (callbacks es)) + mset (queued es) \<subseteq># {#op_cb op, op_cb op#}"
    by (cases s; cases op)
      (auto simp: uring_op_defs bs_dev_uring_read_def bs_dev_uring_readv_def uring_submit_sqe_def split: if_splits)
qed (use uring_io.poll_answers uring_io.poll_queues_nothing in blast)+

section \<open>Address arithmetic\<close>

text \<open>
  Blocks of \<open>2 ^ a\<close> bytes, clusters of \<open>2 ^ s\<close> blocks: the shape of a device that the constructor
  builds.
\<close>

definition uring_geom :: "bs_dev_uring \<Rightarrow> nat \<Rightarrow> nat \<Rightarrow> bool" where
  "uring_geom dev a s \<longleftrightarrow>
     lba_to_addr_shift dev = of_nat a \<and> lba_to_cluster_shift dev = of_nat s \<and>
     lba_offset_mask dev = mask s \<and> a + s < 32 \<and> s < 31"

lemma unat_of_nat_shift [simp]: "k < 64 \<Longrightarrow> unat (of_nat k :: u64) = k"
  by (simp add: unat_of_nat take_bit_nat_eq_self)

lemma c_shr_nat: "k < 64 \<Longrightarrow> c_shr x (of_nat k) = Inr (drop_bit k x)"
  by (simp add: c_shr_def)

lemma c_shl_nat: "k < 64 \<Longrightarrow> c_shl x (of_nat k) = Inr (push_bit k x)"
  by (simp add: c_shl_def)

lemma unat_cluster_id [geom]:
  assumes "unat lba div 2 ^ s < MAX_CLUSTERS"
  shows "unat (ucast (drop_bit s (lba :: u64)) :: u32) = unat lba div 2 ^ s"
  using assms
  by (simp add: unsigned_ucast_eq unat_drop_bit_div take_bit_nat_eq_self MAX_CLUSTERS_eq)

lemma set_io_opts_geom:
  assumes "uring_geom dev a s" and "unat lba div 2 ^ s < MAX_CLUSTERS"
  shows "set_io_opts dev ch lba =
    (let m = u_cluster_map dev (unat lba div 2 ^ s) in
     if m = 0 then Inr (image_file_fd ch, push_bit a lba)
     else Inr (snapshot_file_fd ch, m + push_bit a (take_bit s lba)))"
  using assms
  by (simp add: set_io_opts_def uring_geom_def c_shr_nat c_shl_nat unat_cluster_id Let_def
      take_bit_eq_mask)

text \<open>No address inside the map's range overflows.\<close>

lemma unat_image_offset [geom]:
  assumes "unat (lba :: u64) div 2 ^ s < MAX_CLUSTERS" and "a + s < 32"
  shows "unat (push_bit a lba) = unat lba * 2 ^ a"
proof -
  have "unat lba < 2 ^ 26 * 2 ^ s"
    using assms(1) by (simp add: MAX_CLUSTERS_eq div_less_iff_less_mult)
  then have "unat lba * 2 ^ a < 2 ^ (26 + s + a)"
    by (simp add: power_add)
  also have "\<dots> \<le> (2 :: nat) ^ 64"
    using assms(2) by (intro power_increasing) auto
  finally show ?thesis
    by (intro unat_push_bit_exact) simp
qed

lemma unat_lba_offset [geom]:
  assumes "a + s < 32"
  shows "unat (push_bit a (take_bit s (lba :: u64))) = unat lba mod 2 ^ s * 2 ^ a"
    and "unat lba mod 2 ^ s * 2 ^ a < 2 ^ 32"
proof -
  have "unat lba mod 2 ^ s * 2 ^ a < 2 ^ s * 2 ^ a"
    by simp
  also have "\<dots> = 2 ^ (s + a)"
    by (simp add: power_add)
  also have "\<dots> \<le> (2 :: nat) ^ 32"
    using assms by (intro power_increasing) auto
  finally show small: "unat lba mod 2 ^ s * 2 ^ a < 2 ^ 32" .
  then show "unat (push_bit a (take_bit s lba)) = unat lba mod 2 ^ s * 2 ^ a"
    by (subst unat_push_bit_exact) (simp_all add: unat_take_bit_mod)
qed

section \<open>The constructor establishes the geometry\<close>

lemma log2_specD: "log2_spec f \<Longrightarrow> k < 64 \<Longrightarrow> f (2 ^ k) = of_nat k"
  by (simp add: log2_spec_def)

lemma uring_create_geom:
  assumes "log2_spec log2" and "a + s < 32" and "s < 31"
    and "bs_dev_uring_create log2 e fname spath (2 ^ a) (2 ^ (a + s)) dio P = Inr (Some dev, r, P')"
  shows "uring_geom dev a s"
proof -
  have "log2 (ucast ((2 ^ (a + s) :: u32) div 2 ^ a)) = of_nat s" and "log2 (ucast (2 ^ a :: u32)) = of_nat a"
    using assms(1-3) by (simp_all only: u32_two_power_div) (simp_all add: log2_spec_def)
  moreover have "offset_mask (of_nat s) = Inr (mask s)"
    using assms(3) by (simp add: offset_mask_def mask_eq_decr_exp)
  ultimately show ?thesis
    using assms(2-4)
    by (auto simp: bs_dev_uring_create_def Let_def uring_geom_def split: if_splits option.splits
        prod.splits)
qed

section \<open>Properties of the image device\<close>

lemma lba_in_map: "unat (lba :: u64) < MAX_CLUSTERS * 2 ^ s \<Longrightarrow> unat lba div 2 ^ s < MAX_CLUSTERS"
  by (simp add: div_less_iff_less_mult)

text \<open>
  C3. Address translation. On a device that the constructor built for blocks of \<open>2 ^ a\<close> bytes and
  clusters of \<open>2 ^ s\<close> blocks, \<open>set_io_opts\<close> sends a block whose cluster has no map entry to the image
  file at byte \<open>lba * 2 ^ a\<close>, and any other block to the snapshot file, at the cluster's recorded
  start plus the block's byte offset inside its cluster. No shift, mask, truncation or addition on the
  way loses a bit.
\<close>

theorem set_io_opts_translates:
  assumes "log2_spec log2" and "a + s < 32" and "s < 31"
    and "bs_dev_uring_create log2 e fname spath (2 ^ a) (2 ^ (a + s)) dio P = Inr (Some dev, r, P')"
    and "unat lba < MAX_CLUSTERS * 2 ^ s"
    and "unat (u_cluster_map dev (unat lba div 2 ^ s)) < 2 ^ 63"
  shows "\<exists>fd off. set_io_opts dev ch lba = Inr (fd, off) \<and>
    (if u_cluster_map dev (unat lba div 2 ^ s) = 0
     then fd = image_file_fd ch \<and> unat off = unat lba * 2 ^ a
     else fd = snapshot_file_fd ch \<and>
       unat off = unat (u_cluster_map dev (unat lba div 2 ^ s)) + unat lba mod 2 ^ s * 2 ^ a)"
proof -
  let ?m = "u_cluster_map dev (unat lba div 2 ^ s)"
  note lba = lba_in_map [OF assms(5)]
  have "unat (?m + push_bit a (take_bit s lba)) = unat ?m + unat lba mod 2 ^ s * 2 ^ a"
    using assms(6) unat_lba_offset [OF assms(2), of lba]
    by (subst unat_add_exact) simp_all
  then show ?thesis
    using set_io_opts_geom [OF uring_create_geom [OF assms(1-4)] lba, of ch]
      unat_image_offset [OF lba assms(2)]
    by (simp add: Let_def)
qed

text \<open>A logarithm with the documented values, for the witnesses.\<close>

definition ilog2 :: "u64 \<Rightarrow> u64" where
  "ilog2 x = of_nat (length (takeWhile (\<lambda>k. 2 ^ Suc k \<le> unat x) [0..<63]))"

lemma takeWhile_upt_less:
  assumes "k \<le> n"
  shows "takeWhile (\<lambda>i. i < k) [0..<n] = [0..<k]"
proof -
  have "[0..<n] = [0..<k] @ [k..<n]"
    using assms upt_add_eq_append [of 0 k "n - k"] by simp
  then show ?thesis
    using assms by (cases "k < n") (simp_all add: takeWhile_append upt_conv_Cons)
qed

lemma log2_spec_ilog2: "log2_spec ilog2"
proof -
  have "ilog2 (2 ^ k) = of_nat k" if "k < 64" for k
  proof -
    have "(\<lambda>i. (2 :: nat) ^ Suc i \<le> unat (2 ^ k :: u64)) = (\<lambda>i. i < k)"
      using that by (auto simp: fun_eq_iff Suc_le_eq simp del: power_Suc)
    then show ?thesis
      using that by (simp only: ilog2_def) (simp add: takeWhile_upt_less)
  qed
  then show ?thesis by (simp add: log2_spec_def)
qed

theorem set_io_opts_translates_witness:
  "\<exists>dev P'. bs_dev_uring_create ilog2 \<lparr>uc_calloc = True, uc_stat = 0, uc_open = 3, uc_read = 0\<rparr>
       ''img'' (Some []) (2 ^ 9) (2 ^ (9 + 3)) False \<lparr>files = [''img'' \<mapsto> empty_file], fds = Map.empty\<rparr>
      = Inr (Some dev, True, P') \<and>
     (\<exists>off. set_io_opts dev \<lparr>image_file_fd = 3, snapshot_file_fd = - 1, u_poller = True\<rparr> 13 =
        Inr (3, off) \<and> unat off = 13 * 2 ^ 9)"
proof -
  note lg = log2_specD [OF log2_spec_ilog2, of 3] log2_specD [OF log2_spec_ilog2, of 9]
  obtain dev where dev: "bs_dev_uring_create ilog2 \<lparr>uc_calloc = True, uc_stat = 0, uc_open = 3, uc_read = 0\<rparr>
       ''img'' (Some []) (2 ^ 9) (2 ^ (9 + 3)) False \<lparr>files = [''img'' \<mapsto> empty_file], fds = Map.empty\<rparr>
      = Inr (Some dev, True, \<lparr>files = [''img'' \<mapsto> empty_file], fds = Map.empty\<rparr>)"
    and m: "u_cluster_map dev = (\<lambda>_. 0)"
    using lg by (simp add: bs_dev_uring_create_def Let_def offset_mask_def c_strcpy_def)
  from set_io_opts_translates [OF log2_spec_ilog2 _ _ dev, of 13
      "\<lparr>image_file_fd = 3, snapshot_file_fd = - 1, u_poller = True\<rparr>"] dev m
  show ?thesis by (auto simp: MAX_CLUSTERS_def)
qed

text \<open>
  C14. No request of the image device is lost, and without a failed submission each is answered exactly
  once. Along every run, whatever \<open>io_uring_submit\<close> returns, each operation issued has been answered or is
  waiting in the ring, and is so at most twice (a failed submission answers a request that stays
  queued). Along a run in which no submission fails it is never both and never twice; once the ring is
  drained each has been answered exactly once.
\<close>

theorem uring_answers_each_request_once:
  "(bs_run uring_submit bs_dev_uring_poll (\<lambda>_. True) s0 (s, iss, fl, dn) \<longrightarrow>
      mset iss \<subseteq># fl + mset (map fst dn) \<and> fl + mset (map fst dn) \<subseteq># mset iss + mset iss) \<and>
   (bs_run uring_submit bs_dev_uring_poll (\<lambda>e. 0 \<le> submit_ret e) s0 (s, iss, fl, dn) \<longrightarrow>
      mset iss = fl + mset (map fst dn) \<and> (fl = {#} \<longrightarrow> mset (map fst dn) = mset iss))"
  using uring_any.served uring_io.conservation uring_io.drained by blast

text \<open>A run of each kind: a read that is answered once, and one that is answered twice.\<close>

definition demo_dev :: bs_dev_uring where
  "demo_dev = \<lparr>u_blockcnt = 100, u_blocklen = 512, u_filename = ''i'', u_snapshot_path = [],
     u_cluster_map = (\<lambda>_. 0), u_directio = False, lba_to_cluster_shift = 3, lba_offset_mask = 7,
     lba_to_addr_shift = 9\<rparr>"

definition demo_ch :: bs_dev_uring_io_channel where
  "demo_ch = \<lparr>image_file_fd = 3, snapshot_file_fd = - 1, u_poller = True\<rparr>"

lemma demo_read_run:
  assumes "env_ok \<lparr>sqe_available = True, submit_ret = r\<rparr>"
  shows "bs_run uring_submit bs_dev_uring_poll env_ok (demo_dev, demo_ch)
    ((demo_dev, demo_ch), [4], {#}, (if r < 0 then [(4, - EIO)] else []) @ [(4, 0)])"
proof -
  let ?run = "bs_run uring_submit bs_dev_uring_poll env_ok (demo_dev, demo_ch)"
  let ?op = "Bs_read 0 5 1 4" and ?a = "if r < 0 then [(4, - EIO)] else []"
  let ?e = "\<lparr>sqe_available = True, submit_ret = r\<rparr>"
  let ?es = "[Queue_sqe 4 (Prep_read 3 0 512 2560), Ring_submit] @ (if r < 0 then [Callback 4 (- EIO)] else [])"
  have "set_io_opts demo_dev demo_ch 5 = Inr (3, 2560)"
    by (simp add: set_io_opts_def demo_dev_def demo_ch_def c_shr_def c_shl_def MAX_CLUSTERS_def drop_bit_eq_div
        push_bit_eq_mult)
  then have sub: "uring_submit (demo_dev, demo_ch) ?e ?op = Inr ((demo_dev, demo_ch), ?es)"
    by (simp add: bs_dev_uring_read_def uring_submit_sqe_def) (simp add: demo_dev_def)
  have "?run ((demo_dev, demo_ch), [] @ [op_cb ?op], {#} + mset (queued ?es), [] @ callbacks ?es)"
    by (rule bs_run.issue [where e = ?e, OF bs_run.start]) (rule assms, rule sub)
  then have "?run ((demo_dev, demo_ch), [4], {#4#}, ?a)"
    by (auto split: if_splits)
  from bs_run.reap [OF this, of "[(4, 512)]" Poller_busy "[Callback 4 0, Cqe_seen]"]
  show ?thesis
    by (simp add: bs_dev_uring_poll_def)
qed

theorem uring_answers_each_request_once_witness:
  "bs_run uring_submit bs_dev_uring_poll (\<lambda>e. 0 \<le> submit_ret e) (demo_dev, demo_ch) ((demo_dev, demo_ch), [4], {#}, [(4, 0)]) \<and>
   mset (map fst [(4 :: nat, 0 :: int)]) = mset [4 :: nat] \<and>
   bs_run uring_submit bs_dev_uring_poll (\<lambda>_. True) (demo_dev, demo_ch) ((demo_dev, demo_ch), [4], {#}, [(4, - EIO), (4, 0)]) \<and>
   mset (map fst [(4 :: nat, - EIO), (4, 0)]) \<subseteq># mset [4] + mset [4]"
proof -
  have r: "bs_run uring_submit bs_dev_uring_poll (\<lambda>e. 0 \<le> submit_ret e) (demo_dev, demo_ch)
      ((demo_dev, demo_ch), [4], {#}, [(4, 0)])"
    "bs_run uring_submit bs_dev_uring_poll (\<lambda>_. True) (demo_dev, demo_ch)
      ((demo_dev, demo_ch), [4], {#}, [(4, - EIO), (4, 0)])"
    using demo_read_run [of "\<lambda>e. 0 \<le> submit_ret e" 1] demo_read_run [of "\<lambda>_. True" "- 16"] by simp_all
  from r(1) uring_answers_each_request_once [of "(demo_dev, demo_ch)" "(demo_dev, demo_ch)" "[4]" "{#}" "[(4, 0)]"]
    r(2) uring_answers_each_request_once [of "(demo_dev, demo_ch)" "(demo_dev, demo_ch)" "[4]" "{#}" "[(4, - EIO), (4, 0)]"]
  show ?thesis by simp
qed

text \<open>
  C33. Range checks, for a device of the given geometry and a range whose end does not wrap: a range
  that starts inside the image is valid exactly when it ends inside it; a range that starts behind
  the image (within the map's range) is valid exactly when the snapshot has its first cluster;
  \<open>is_zeroes\<close> is the negation. So a range that straddles the end of the image is reported to be all
  zeroes although its first block is one the device reads from a file.
\<close>

theorem is_range_valid_spec:
  assumes "uring_geom dev a s" and "unat lba + unat n < 2 ^ 64" and "unat lba < MAX_CLUSTERS * 2 ^ s"
  shows "bs_dev_uring_is_range_valid dev lba n =
      Inr (if lba < u_blockcnt dev then unat lba + unat n \<le> unat (u_blockcnt dev)
           else u_cluster_map dev (unat lba div 2 ^ s) \<noteq> 0) \<and>
    (lba < u_blockcnt dev \<and> unat (u_blockcnt dev) < unat lba + unat n \<longrightarrow>
      bs_dev_uring_is_zeroes dev lba n = Inr True \<and> (\<exists>p. set_io_opts dev ch lba = Inr p))"
proof -
  have sum: "u_blockcnt dev < lba + n \<longleftrightarrow> unat (u_blockcnt dev) < unat lba + unat n"
    using assms(2) by (simp add: word_less_nat_alt unat_add_exact)
  have sh: "c_shr lba (lba_to_cluster_shift dev) = Inr (drop_bit s lba)"
    using assms(1) by (auto simp: uring_geom_def c_shr_nat)
  have cl: "unat (drop_bit s lba) = unat lba div 2 ^ s"
    by (rule unat_drop_bit_div)
  have v: "bs_dev_uring_is_range_valid dev lba n =
      Inr (if lba < u_blockcnt dev then unat lba + unat n \<le> unat (u_blockcnt dev)
           else u_cluster_map dev (unat lba div 2 ^ s) \<noteq> 0)"
    using lba_in_map [OF assms(3)]
    by (auto simp: bs_dev_uring_is_range_valid_def sh cl sum)
  then show ?thesis
    using set_io_opts_geom [OF assms(1) lba_in_map [OF assms(3)], of ch]
    by (auto simp: bs_dev_uring_is_zeroes_def Let_def)
qed

theorem is_range_valid_spec_witness:
  defines "dev \<equiv> \<lparr>u_blockcnt = 100, u_blocklen = 512, u_filename = ''i'', u_snapshot_path = [],
     u_cluster_map = (\<lambda>_. 0)(14 := 2 ^ 29), u_directio = False, lba_to_cluster_shift = 3,
     lba_offset_mask = 7, lba_to_addr_shift = 9\<rparr>"
  shows "bs_dev_uring_is_range_valid dev 96 4 = Inr True \<and>
    bs_dev_uring_is_zeroes dev 96 8 = Inr True \<and> bs_dev_uring_is_range_valid dev 112 8 = Inr True"
proof -
  have g: "uring_geom dev 9 3"
    by (simp add: uring_geom_def dev_def mask_eq_decr_exp)
  show ?thesis
    using is_range_valid_spec [OF g, of 96 4] is_range_valid_spec [OF g, of 96 8]
      is_range_valid_spec [OF g, of 112 8]
    by (simp add: dev_def MAX_CLUSTERS_def)
qed

text \<open>
  C34. Blocks behind the end of the image that the snapshot holds are unreachable: for such a block
  the range is declared valid and non-zero, yet a read of it completes with success without queuing
  any request, so the reader's buffer keeps what it held.
\<close>

theorem snapshot_tail_not_read:
  assumes "uring_geom dev a s" and "u_blockcnt dev \<le> lba" and "unat lba < MAX_CLUSTERS * 2 ^ s"
    and "u_cluster_map dev (unat lba div 2 ^ s) \<noteq> 0"
  shows "bs_dev_uring_is_range_valid dev lba n = Inr True \<and>
    bs_dev_uring_is_zeroes dev lba n = Inr False \<and>
    bs_dev_uring_read dev ch e payload lba k cb = Inr [Callback cb 0]"
proof -
  have "c_shr lba (lba_to_cluster_shift dev) = Inr (drop_bit s lba)"
    using assms(1) by (auto simp: uring_geom_def c_shr_nat)
  with assms(2,4) lba_in_map [OF assms(3)] have "bs_dev_uring_is_range_valid dev lba n = Inr True"
    by (simp add: bs_dev_uring_is_range_valid_def unat_drop_bit_div)
  with assms(2) show ?thesis
    by (simp add: bs_dev_uring_is_zeroes_def bs_dev_uring_read_def)
qed

theorem snapshot_tail_not_read_witness:
  defines "dev \<equiv> \<lparr>u_blockcnt = 100, u_blocklen = 512, u_filename = ''i'', u_snapshot_path = ''s'',
     u_cluster_map = (\<lambda>_. 0)(14 := 2 ^ 29), u_directio = False, lba_to_cluster_shift = 3,
     lba_offset_mask = 7, lba_to_addr_shift = 9\<rparr>"
  shows "bs_dev_uring_is_zeroes dev 112 8 = Inr False \<and>
    bs_dev_uring_read dev \<lparr>image_file_fd = 3, snapshot_file_fd = 4, u_poller = True\<rparr>
      \<lparr>sqe_available = True, submit_ret = 1\<rparr> 0 112 8 5 = Inr [Callback 5 0]"
proof -
  have g: "uring_geom dev 9 3"
    by (simp add: uring_geom_def dev_def mask_eq_decr_exp)
  show ?thesis
    using snapshot_tail_not_read [OF g, of 112 8] by (simp add: dev_def MAX_CLUSTERS_def)
qed

text \<open>
  Channel life cycle. A channel that opens has its image descriptor open, and its snapshot
  descriptor too when a snapshot path is set. Destroying the channel closes the image descriptor and
  nothing else: the snapshot descriptor stays open.
\<close>

theorem uring_channel_lifecycle:
  assumes "bs_dev_uring_create_channel_cb dev e P = Inr (0, ch, P')"
  shows "fds P' (image_file_fd ch) \<noteq> None \<and>
    (c_str (u_snapshot_path dev) \<noteq> [] \<longrightarrow> fds P' (snapshot_file_fd ch) \<noteq> None) \<and>
    (snapshot_file_fd ch \<noteq> image_file_fd ch \<longrightarrow>
      fds (snd (bs_dev_uring_destroy_channel_cb ch P')) = (fds P')(image_file_fd ch := None) \<and>
      fds (snd (bs_dev_uring_destroy_channel_cb ch P')) (snapshot_file_fd ch) =
        fds P' (snapshot_file_fd ch))"
  using assms
  by (auto simp: bs_dev_uring_create_channel_cb_def bs_dev_uring_destroy_channel_cb_def posix_open_def
      posix_close_def Let_def split: if_splits prod.splits)

end
