(* ===== verification/Snapshot_File.thy ===== *)
theory Snapshot_File
  imports Bs_Uring
begin

text \<open>
  The snapshot file as the contract between the two devices: what the delta device writes
  (\<open>Bs_Delta\<close>), the image device finds (\<open>Bs_Uring\<close>). The lemmas here follow one file from the
  delta channel's creation over any sequence of cluster writes to the map that is loaded from it;
  the property that spans both devices is in the root theory.
\<close>

text \<open>The last data written to a cluster by a sequence of cluster writes.\<close>

definition last_write :: "(nat \<times> buf) list \<Rightarrow> nat \<Rightarrow> buf option" where
  "last_write ws c = map_of (rev ws) c"

lemma last_write_None: "last_write ws c = None \<longleftrightarrow> c \<notin> fst ` set ws"
  by (simp add: last_write_def map_of_eq_None_iff)

lemma last_write_split:
  assumes "last_write ws c = Some p"
  obtains xs ys where "ws = xs @ (c, p) # ys" and "c \<notin> fst ` set ys"
  using assms unfolding last_write_def
proof (induction ws arbitrary: thesis rule: rev_induct)
  case (snoc w ws)
  show ?case
  proof (cases "fst w = c")
    case True
    with snoc.prems(2) have "w = (c, p)"
      by (cases w) simp
    then show ?thesis
      using snoc.prems(1) [of ws "[]"] by simp
  next
    case False
    then have "map_of (rev ws) c = Some p"
      using snoc.prems(2) by (cases w) simp
    from snoc.IH [OF _ this] obtain xs ys where "ws = xs @ (c, p) # ys" "c \<notin> fst ` set ys"
      by blast
    with False show ?thesis
      using snoc.prems(1) [of xs "ys @ [w]"] by simp
  qed
qed simp

text \<open>
  The state of a snapshot file after the writes \<open>ws\<close>: the map \<open>m\<close> has no entry for a cluster that
  was not written, and for any other the offset at which its last data is found, behind the map.
\<close>

definition holds_snapshot :: "pfile \<Rightarrow> (nat \<Rightarrow> u64) \<Rightarrow> nat \<Rightarrow> (nat \<times> buf) list \<Rightarrow> bool" where
  "holds_snapshot f m n ws \<longleftrightarrow> (\<forall>c. case last_write ws c of
       None \<Rightarrow> m c = 0
     | Some p \<Rightarrow> MAP_BYTES \<le> unat (m c) \<and> unat (m c) < 2 ^ 63 \<and>
         (\<forall>j < n. fbytes f (unat (m c) + j) = p j))"

lemma layout_holds_snapshot:
  assumes "MAP_BYTES + n * length ws < 2 ^ 63"
  shows "holds_snapshot
    (snd (fold (\<lambda>(b, n). log_append b n) (map (\<lambda>w. (snd w, n)) ws) (MAP_BYTES, f)))
    (place MAP_BYTES n (\<lambda>_. 0) ws) n ws"
  unfolding holds_snapshot_def
proof
  fix c
  let ?g = "fold (\<lambda>(b, n). log_append b n) (map (\<lambda>w. (snd w, n)) ws) (MAP_BYTES, f)"
  let ?m = "place MAP_BYTES n (\<lambda>_. 0) ws c"
  show "case last_write ws c of None \<Rightarrow> ?m = 0
     | Some p \<Rightarrow> MAP_BYTES \<le> unat ?m \<and> unat ?m < 2 ^ 63 \<and>
         (\<forall>j < n. fbytes (snd ?g) (unat ?m + j) = p j)"
  proof (cases "last_write ws c")
    case None
    then have "c \<notin> fst ` set ws" by (rule last_write_None [THEN iffD1])
    with None show ?thesis by (simp add: place_other)
  next
    case (Some p)
    then obtain xs ys where ws: "ws = xs @ (c, p) # ys" and c: "c \<notin> fst ` set ys"
      by (rule last_write_split)
    have m: "?m = of_nat (MAP_BYTES + n * length xs)"
      unfolding ws using c by (rule place_last)
    have "n * length xs \<le> n * length ws"
      using ws by (intro mult_le_mono) simp_all
    then have small: "MAP_BYTES + n * length xs < 2 ^ 63"
      using assms by linarith
    then have um: "unat ?m = MAP_BYTES + n * length xs"
      unfolding m by (simp add: unat_of_nat take_bit_nat_eq_self del: of_nat_add of_nat_mult)
    have "sum_list (map snd (map (\<lambda>w. (snd w, n)) xs)) = n * length xs"
      by (simp add: o_def sum_list_triv)
    then have "fbytes (snd ?g) (MAP_BYTES + n * length xs + j) = p j" if "j < n" for j
      using flog.record_kept [OF that, of "map (\<lambda>w. (snd w, n)) xs" p
          "map (\<lambda>w. (snd w, n)) ys" "(MAP_BYTES, f)"]
      by (simp add: ws log_byte_def)
    with um small Some show ?thesis by simp
  qed
qed

lemma holds_snapshot_cong:
  assumes "holds_snapshot f m n ws" and "\<And>i. MAP_BYTES \<le> i \<Longrightarrow> fbytes f' i = fbytes f i"
  shows "holds_snapshot f' m n ws"
  unfolding holds_snapshot_def
proof
  fix c
  show "case last_write ws c of None \<Rightarrow> m c = 0
     | Some p \<Rightarrow> MAP_BYTES \<le> unat (m c) \<and> unat (m c) < 2 ^ 63 \<and>
         (\<forall>j < n. fbytes f' (unat (m c) + j) = p j)"
    using assms(1) [unfolded holds_snapshot_def, rule_format, of c] assms(2)
    by (cases "last_write ws c") simp_all
qed

text \<open>From channel creation to the file on disk.\<close>

lemma delta_session:
  assumes dev: "d_direction dev = BS_DEV_DELTA_WRITE" "0 < cluster_bytes dev" "cluster_bytes dev < 2 ^ 31"
    and env: "0 \<le> de_open e" "int MAP_BYTES \<le> de_write e" "de_ring e = 0" "int MAP_BYTES \<le> w"
    and old: "\<And>f. files P (c_str (d_filename dev)) = Some f \<Longrightarrow> fseekable f"
    and ws: "\<forall>x \<in> set ws. fst x < MAX_CLUSTERS" "MAP_BYTES + cluster_bytes dev * length ws < 2 ^ 63"
  shows "\<exists>ch P1 s ch' P2 f m. bs_dev_delta_create_channel_cb dev e P = Inr (0, ch, P1) \<and>
    delta_write_all \<lparr>dd = dev, dc = ch, dos = P1\<rparr> ws = Inr s \<and>
    bs_dev_delta_destroy_channel_cb dev (dc s) w (dos s) = (ch', P2) \<and>
    files P2 = (files P)(c_str (d_filename dev) \<mapsto> f) \<and> MAP_BYTES \<le> fsize f \<and>
    (\<forall>i < MAP_BYTES. fbytes f i = map_bytes m i) \<and> holds_snapshot f m (cluster_bytes dev) ws"
proof -
  let ?path = "c_str (d_filename dev)" and ?n = "cluster_bytes dev"
  obtain ch P1 f0 where ch: "bs_dev_delta_create_channel_cb dev e P = Inr (0, ch, P1)"
    and fd: "fd_file P1 (delta_file_fd ch) = Some (?path, MAP_BYTES, f0)" "fseekable f0"
    and m0: "d_cluster_map ch = (\<lambda>_. 0)" and o1: "\<forall>q. q \<noteq> ?path \<longrightarrow> files P1 q = files P q"
    using create_channel_write [OF dev(1) env(1-3) old] by blast
  let ?g = "fold (\<lambda>(b, n). log_append b n) (map (\<lambda>w. (snd w, ?n)) ws) (MAP_BYTES, f0)"
  let ?m = "place MAP_BYTES ?n (\<lambda>_. 0) ws"
  obtain s where s: "delta_write_all \<lparr>dd = dev, dc = ch, dos = P1\<rparr> ws = Inr s"
    and fd': "delta_file_fd (dc s) = delta_file_fd ch"
      "fd_file (dos s) (delta_file_fd ch) = Some (?path, ?g)"
    and m: "d_cluster_map (dc s) = ?m" and o2: "\<forall>q. q \<noteq> ?path \<longrightarrow> files (dos s) q = files P1 q"
    using delta_write_all_layout [of "\<lparr>dd = dev, dc = ch, dos = P1\<rparr>" ?path MAP_BYTES f0 ws]
      fd dev ws(1) m0 by auto
  have "fseekable (snd (fold (\<lambda>(b, n). log_append b n) rs x)) = fseekable (snd x)" for rs x
    by (induction rs arbitrary: x) auto
  with fd(2) have sk: "fseekable (snd ?g)" by simp
  have "fd_file (dos s) (delta_file_fd (dc s)) = Some (?path, fst ?g, snd ?g)"
    using fd' by simp
  from destroy_channel_writes_map [OF this sk dev(1) env(4)] obtain P2 f where
    P2: "bs_dev_delta_destroy_channel_cb dev (dc s) w (dos s) = ((dc s)\<lparr>d_poller := False\<rparr>, P2)"
      "files P2 = (files (dos s))(?path \<mapsto> f)" "MAP_BYTES \<le> fsize f"
      "\<forall>i. fbytes f i = (if i < MAP_BYTES then map_bytes ?m i else fbytes (snd ?g) i)"
    using m by auto
  have "files P2 = (files P)(?path \<mapsto> f)"
    using P2(2) o1 o2 by (auto simp: fun_eq_iff)
  moreover have "holds_snapshot f ?m ?n ws"
    using layout_holds_snapshot [OF ws(2)] by (rule holds_snapshot_cong) (simp add: P2(4))
  moreover have "\<forall>i < MAP_BYTES. fbytes f i = map_bytes ?m i"
    by (simp add: P2(4))
  ultimately show ?thesis
    using ch s P2(1,3) by blast
qed

lemma cluster_bytes_two_power:
  assumes "a + s < 31" and "d_blocklen dev = 2 ^ a" and "unat (d_cluster_size dev) = 2 ^ s"
  shows "cluster_bytes dev = 2 ^ (a + s)" and "cluster_bytes dev < 2 ^ 31"
proof -
  show eq: "cluster_bytes dev = 2 ^ (a + s)"
    using assms by (simp add: cluster_bytes_def power_add)
  show "cluster_bytes dev < 2 ^ 31"
    unfolding eq using assms(1) by (intro power_strict_increasing) simp_all
qed

text \<open>The image device that is built on a file with the map \<open>m\<close>.\<close>

lemma uring_create_loads:
  assumes lg: "log2_spec log2" and geo: "a + s < 31"
    and paths: "length img < 1024" "NUL \<notin> set img" "length path < 1024" "path \<noteq> []" "NUL \<notin> set path"
    and env: "uc_calloc ue" "uc_stat ue = 0" "0 \<le> uc_open ue" "int MAP_BYTES \<le> uc_read ue"
    and im: "files P img = Some g"
    and f: "files P path = Some f" "MAP_BYTES \<le> fsize f" "\<forall>i < MAP_BYTES. fbytes f i = map_bytes m i"
  shows "\<exists>dev P'. bs_dev_uring_create log2 ue img (Some path) (2 ^ a) (2 ^ (a + s)) dio P =
      Inr (Some dev, True, P') \<and> files P' = files P \<and>
      (\<forall>c < MAX_CLUSTERS. u_cluster_map dev c = m c) \<and> uring_geom dev a s \<and>
      c_str (u_filename dev) = img \<and> c_str (u_snapshot_path dev) = path \<and>
      u_blockcnt dev = of_nat (fsize g div 2 ^ a) \<and> u_blocklen dev = 2 ^ a"
proof -
  obtain m' P' where rd: "ubi_read_cluster_map path (uc_open ue) (uc_read ue) (\<lambda>_. 0) P = (0, m', P')"
    and P': "files P' = files P" "\<forall>c < MAX_CLUSTERS. m' c = m c"
    using read_cluster_map_loads [OF f env(3,4), of "\<lambda>_. 0"] by blast
  obtain ib sb where b: "c_strcpy img 1024 = Inr ib" "c_strcpy path 1024 = Inr sb"
    using paths(1,3) by (simp add: c_strcpy_def)
  have cs: "c_str ib = img" "c_str sb = path"
    using c_strcpy_str [OF paths(2) b(1)] c_strcpy_str [OF paths(5) b(2)] by simp_all
  have "log2 (ucast ((2 ^ (a + s) :: u32) div 2 ^ a)) = of_nat s"
    using lg geo by (simp add: u32_two_power_div log2_spec_def)
  moreover have nz: "(2 ^ a :: u32) \<noteq> 0"
    using geo unat_two_power [of a, where 'a = 32] by (intro notI) simp
  moreover have "unat (2 ^ a :: u32) = 2 ^ a"
    using geo by simp
  ultimately obtain dev where dev: "bs_dev_uring_create log2 ue img (Some path) (2 ^ a) (2 ^ (a + s)) dio P =
      Inr (Some dev, True, P')" "u_cluster_map dev = m'" "u_filename dev = ib" "u_snapshot_path dev = sb"
      "u_blockcnt dev = of_nat (fsize g div 2 ^ a)" "u_blocklen dev = 2 ^ a"
    using env(1,2) im paths(4) geo rd b
    by (auto simp: bs_dev_uring_create_def offset_mask_def)
  moreover have "uring_geom dev a s"
    by (rule uring_create_geom [OF lg _ _ dev(1)]) (use geo in simp_all)
  ultimately show ?thesis
    using P' cs by auto
qed

text \<open>A channel of the image device sees both files.\<close>

lemma image_channel_sees:
  assumes "files P (c_str (u_filename dev)) = Some g" and "files P (c_str (u_snapshot_path dev)) = Some f"
    and "c_str (u_snapshot_path dev) \<noteq> []"
    and "0 \<le> ue_open_image ce" "0 \<le> ue_open_snapshot ce" "ue_open_image ce \<noteq> ue_open_snapshot ce" "ue_ring ce = 0"
  shows "\<exists>uch P'. bs_dev_uring_create_channel_cb dev ce P = Inr (0, uch, P') \<and>
    (\<forall>i. fd_byte P' (image_file_fd uch) i = Some (fbytes g i)) \<and>
    (\<forall>i. fd_byte P' (snapshot_file_fd uch) i = Some (fbytes f i))"
  using assms
  by (simp add: bs_dev_uring_create_channel_cb_def posix_open_def Let_def fd_byte_def fd_file_def)

text \<open>Blocks of one cluster of a snapshot file, found through the image device.\<close>

lemma snapshot_blocks:
  assumes geom: "uring_geom dev a s" and m: "\<forall>c < MAX_CLUSTERS. u_cluster_map dev c = m c"
    and hs: "holds_snapshot f m (2 ^ (a + s)) ws" and lba: "unat lba < MAX_CLUSTERS * 2 ^ s"
    and k: "unat lba mod 2 ^ s + k \<le> 2 ^ s"
  shows "\<exists>off. case last_write ws (unat lba div 2 ^ s) of
        None \<Rightarrow> set_io_opts dev uch lba = Inr (image_file_fd uch, off) \<and> unat off = unat lba * 2 ^ a
      | Some p \<Rightarrow> set_io_opts dev uch lba = Inr (snapshot_file_fd uch, off) \<and>
          (\<forall>j < k * 2 ^ a. fbytes f (unat off + j) = p (unat lba mod 2 ^ s * 2 ^ a + j))"
proof -
  let ?c = "unat lba div 2 ^ s"
  have c: "?c < MAX_CLUSTERS" by (rule lba_in_map [OF lba])
  have as: "a + s < 32" using geom by (simp add: uring_geom_def)
  note io = set_io_opts_geom [OF geom c, of uch] and h = hs [unfolded holds_snapshot_def, rule_format, of ?c]
  show ?thesis
  proof (cases "last_write ws ?c")
    case None
    with io h m c show ?thesis
      by (simp add: Let_def unat_image_offset [OF c as])
  next
    case (Some p)
    have "unat (m ?c + push_bit a (take_bit s lba)) = unat (m ?c) + unat lba mod 2 ^ s * 2 ^ a"
      using Some h unat_lba_offset [OF as, of lba] by (subst unat_add_exact) simp_all
    moreover have "unat lba mod 2 ^ s * 2 ^ a + j < 2 ^ (a + s)" if "j < k * 2 ^ a" for j
    proof -
      have "(unat lba mod 2 ^ s + k) * 2 ^ a \<le> 2 ^ s * 2 ^ a"
        using k by (intro mult_le_mono1)
      then have "unat lba mod 2 ^ s * 2 ^ a + k * 2 ^ a \<le> 2 ^ (a + s)"
        by (simp only: add_mult_distrib power_add mult.commute [of "2 ^ a" "2 ^ s"])
      then show ?thesis
        using that by linarith
    qed
    moreover have "m ?c \<noteq> 0"
      using Some h by (auto simp: MAP_BYTES_eq)
    ultimately show ?thesis
      using Some io h m c by (simp add: Let_def add.assoc)
  qed
qed

text \<open>
  The read of \<open>n\<close> blocks inside one cluster and inside the image, through a channel that sees both files:
  the request that is queued reads the last data written to the cluster, or the image.
\<close>

lemma snapshot_read:
  assumes geom: "uring_geom dev a s" and m: "\<forall>c < MAX_CLUSTERS. u_cluster_map dev c = m c"
    and hs: "holds_snapshot f m (2 ^ (a + s)) ws" and blocks: "u_blockcnt dev = of_nat b" "b < 2 ^ 64" "u_blocklen dev = 2 ^ a"
    and sees: "\<forall>i. fd_byte P (image_file_fd uch) i = Some (fbytes g i)" "\<forall>i. fd_byte P (snapshot_file_fd uch) i = Some (fbytes f i)"
    and lba: "unat lba < MAX_CLUSTERS * 2 ^ s" "unat lba mod 2 ^ s + unat n \<le> 2 ^ s" "unat lba < b"
    and ring: "sqe_available re" "0 \<le> submit_ret re"
  shows "\<exists>fd len off. bs_dev_uring_read dev uch re payload lba n cb =
      Inr [Queue_sqe cb (Prep_read fd payload len off), Ring_submit] \<and> unat len = unat n * 2 ^ a \<and>
    (\<forall>j < unat n * 2 ^ a. fd_byte P fd (unat off + j) =
       Some (case last_write ws (unat lba div 2 ^ s) of
           None \<Rightarrow> fbytes g (unat lba * 2 ^ a + j) | Some p \<Rightarrow> p (unat lba mod 2 ^ s * 2 ^ a + j)))"
proof -
  have as: "a + s < 32"
    using geom by (simp add: uring_geom_def)
  have "unat n * 2 ^ a \<le> 2 ^ s * 2 ^ a"
    using lba(2) by (intro mult_le_mono1) linarith
  also have "\<dots> = 2 ^ (a + s)"
    by (simp add: power_add)
  also have "\<dots> < (2 :: nat) ^ 32"
    using as by (intro power_strict_increasing) simp_all
  finally have len: "unat (n * u_blocklen dev) = unat n * 2 ^ a"
    using as by (simp add: blocks(3) unat_mult_exact)
  have "\<not> u_blockcnt dev \<le> lba"
    using lba(3) blocks(1,2) by (simp add: word_le_nat_alt unat_of_nat take_bit_nat_eq_self)
  then have rd: "bs_dev_uring_read dev uch re payload lba n cb =
      Inr [Queue_sqe cb (Prep_read fd payload (n * u_blocklen dev) off), Ring_submit]"
    if "set_io_opts dev uch lba = Inr (fd, off)" for fd off
    using that ring by (simp add: bs_dev_uring_read_def uring_submit_sqe_def)
  from snapshot_blocks [OF geom m hs lba(1,2), of uch] show ?thesis
  proof (cases "last_write ws (unat lba div 2 ^ s)")
    case None
    with snapshot_blocks [OF geom m hs lba(1,2), of uch] obtain off where
      "set_io_opts dev uch lba = Inr (image_file_fd uch, off)" "unat off = unat lba * 2 ^ a"
      by auto
    with rd None len sees(1) show ?thesis by auto
  next
    case (Some p)
    with snapshot_blocks [OF geom m hs lba(1,2), of uch] obtain off where
      "set_io_opts dev uch lba = Inr (snapshot_file_fd uch, off)"
      "\<forall>j < unat n * 2 ^ a. fbytes f (unat off + j) = p (unat lba mod 2 ^ s * 2 ^ a + j)"
      by auto
    with rd Some len sees(2) show ?thesis by auto
  qed
qed

end
