(* ===== verification/Ubi_Bdev.thy ===== *)
theory Ubi_Bdev
  imports Once_Flow Snapshot_File
begin

text \<open>
  The creation of a ubi block device, \<open>src/lib/bdev_ubi.c\<close>: the state of a device, the asynchronous
  flow from \<open>bdev_ubi_create\<close> to \<open>ubi_finish_create\<close>, and the release of what a failed flow set up.
  What is done with a device that exists is in \<open>Ubi_Device\<close>.

  The \<open>struct ubi_bdev\<close> objects live in a heap indexed by pointers, \<open>g_ubi_bdev_head\<close> is a list of
  pointers, and every call into SPDK is an entry of a trace. SPDK is not part of the repository: the
  values its synchronous functions return are fields of the parameter \<open>spdk\<close>, and the results it
  delivers to callbacks are arguments of the callbacks. A flow that waits for SPDK records which
  callback it passed.
\<close>

section \<open>Data\<close>

definition UBI_PATH_LEN :: nat where
  "UBI_PATH_LEN = 1024"

definition UBI_URING_ESNAP_ID :: string where
  "UBI_URING_ESNAP_ID = ''ubi_uring_esnap_id''"

record snapshot_status =
  in_progress :: bool
  snap_result :: int
  copied_clusters :: u64
  total_clusters :: u64

record ubi_bdev =
  bdev_name :: string
  bdev_blocklen :: u32
  bdev_blockcnt :: u64
  write_cache :: bool
  product_name :: string
  required_alignment :: u32
  optimal_io_boundary :: u32
  split_on_optimal_io_boundary :: bool
  image_path :: "char list"
  snapshot_path :: "char list"
  alignment_bytes :: u32
  no_sync :: bool
  directio :: bool
  bs_dev :: "nat option"
  blobstore :: "nat option"
  blobid :: u64
  blob :: "nat option"
  snap_status :: snapshot_status
  thread :: nat

text \<open>What \<open>calloc\<close> returns.\<close>

definition zero_ubi_bdev :: ubi_bdev where
  "zero_ubi_bdev = \<lparr>bdev_name = [], bdev_blocklen = 0, bdev_blockcnt = 0, write_cache = False,
     product_name = [], required_alignment = 0, optimal_io_boundary = 0,
     split_on_optimal_io_boundary = False, image_path = replicate UBI_PATH_LEN NUL,
     snapshot_path = replicate UBI_PATH_LEN NUL, alignment_bytes = 0, no_sync = False,
     directio = False, bs_dev = None, blobstore = None, blobid = 0, blob = None,
     snap_status = \<lparr>in_progress = False, snap_result = 0, copied_clusters = 0, total_clusters = 0\<rparr>,
     thread = 0\<rparr>"

record spdk_ubi_bdev_opts =
  o_name :: string
  o_image_path :: string
  o_snapshot_path :: "string option"
  o_base_bdev_name :: string
  o_no_sync :: bool
  o_directio :: bool
  o_format_bdev :: bool

record bs_opts =
  esnap_bs_dev_create :: bool
  esnap_ctx :: "nat option"
  max_channel_ops :: u32

record blob_opts =
  thin_provision :: bool
  num_clusters :: u64
  esnap_id :: string
  esnap_id_len :: u64

record ubi_create_context =
  done_arg :: nat
  cx_ubi_bdev :: "nat option"
  registerd :: bool
  format_bdev :: bool
  cx_bs_opts :: bs_opts
  cx_blob_opts :: blob_opts

datatype ubi_call =
    Io_device_register nat string
  | Io_device_unregister nat bool
  | Bs_init nat bs_opts
  | Bs_load nat bs_opts
  | Bs_iter_first nat
  | Bs_create_blob nat blob_opts
  | Bs_create_snapshot nat u64
  | Bs_open_blob nat u64
  | Blob_close nat
  | Bs_unload nat
  | Bdev_register nat
  | Module_release_bdev nat
  | Create_done nat "nat option" int
  | Free_context
  | Unregister_by_name string
  | Delete_cb nat int

record ubi_world =
  heap :: "nat \<rightharpoonup> ubi_bdev"
  g_ubi_bdev_head :: "nat list"
  calls :: "ubi_call list"

text \<open>What the synchronous functions of SPDK and libc return.\<close>

record spdk =
  sp_calloc :: "nat option"
  sp_strdup :: bool
  sp_thread :: nat
  sp_create_bs_dev :: "string \<Rightarrow> int \<times> nat"
  sp_bs_dev_blocklen :: "nat \<Rightarrow> u32"
  sp_bs_dev_blockcnt :: "nat \<Rightarrow> u64"
  sp_u32log2 :: "u32 \<Rightarrow> u32"
  sp_bs_opts_init :: bs_opts
  sp_blob_opts_init :: blob_opts
  sp_total_data_clusters :: "nat \<Rightarrow> u64"
  sp_cluster_size :: "nat option \<Rightarrow> u64 c_result"
  sp_io_unit_size :: "nat option \<Rightarrow> u64 c_result"
  sp_num_io_units :: "nat option \<Rightarrow> u64 c_result"
  sp_blob_get_id :: "nat option \<Rightarrow> u64 c_result"
  sp_bdev_register :: "ubi_bdev \<Rightarrow> int"
  sp_unregister_by_name :: "string \<Rightarrow> int"

datatype create_cb =
    Cb_bs_init_complete
  | Cb_blob_open_complete
  | Cb_blob_create_complete
  | Cb_blob_snapshot_complete

record create_state =
  cs_ctx :: ubi_create_context
  cs_world :: ubi_world
  cs_pending :: "create_cb option"

section \<open>Operations\<close>

definition deref :: "ubi_world \<Rightarrow> nat \<Rightarrow> ubi_bdev c_result" where
  "deref W p = (case heap W p of None \<Rightarrow> Inl Use_after_free | Some b \<Rightarrow> Inr b)"

definition store :: "nat \<Rightarrow> ubi_bdev \<Rightarrow> ubi_world \<Rightarrow> ubi_world" where
  "store p b W = W\<lparr>heap := (heap W)(p \<mapsto> b)\<rparr>"

definition call :: "ubi_call list \<Rightarrow> ubi_world \<Rightarrow> ubi_world" where
  "call cs W = W\<lparr>calls := calls W @ cs\<rparr>"

text \<open>\<open>ubi_bdev\<close> of a context, dereferenced by the code as a pointer.\<close>

definition ctx_bdev :: "ubi_create_context \<Rightarrow> ubi_world \<Rightarrow> (nat \<times> ubi_bdev) c_result" where
  "ctx_bdev ctx W = (case cx_ubi_bdev ctx of None \<Rightarrow> Inl Null_deref
     | Some p \<Rightarrow> c_bind (deref W p) (\<lambda>b. Inr (p, b)))"

definition ubi_destruct_bs_unload_cb :: "nat \<Rightarrow> int \<Rightarrow> ubi_world \<Rightarrow> ubi_world c_result" where
  "ubi_destruct_bs_unload_cb p bserrno W =
     (if bserrno \<noteq> 0 then c_bind (deref W p) (\<lambda>_. Inr W) else Inr W)"

definition ubi_destruct_blob_close_cb :: "nat \<Rightarrow> int \<Rightarrow> ubi_world \<Rightarrow> ubi_world c_result" where
  "ubi_destruct_blob_close_cb p bserrno W =
     c_bind (deref W p) (\<lambda>b. case blobstore b of
         Some bs \<Rightarrow> Inr (call [Bs_unload bs] W)
       | None \<Rightarrow> ubi_destruct_bs_unload_cb p 0 W)"

text \<open>
  \<open>ubi_finish_create\<close>, in its two halves: with status 0 the block device is completed and registered,
  which gives the final status; with any other final status what was set up is released.
\<close>

definition finish_register ::
  "spdk \<Rightarrow> ubi_create_context \<Rightarrow> ubi_world \<Rightarrow> (int \<times> ubi_world) c_result" where
  "finish_register E ctx W =
     c_bind (ctx_bdev ctx W) (\<lambda>(p, b).
     c_bind (sp_num_io_units E (blob b)) (\<lambda>cnt.
     c_bind (sp_io_unit_size E (blobstore b)) (\<lambda>unit.
       let len = (ucast unit :: u32) in
       if len = 0 then Inl Div_by_zero
       else let b1 = b\<lparr>bdev_blockcnt := cnt, bdev_blocklen := len,
                       optimal_io_boundary := (4 * 1024) div len,
                       split_on_optimal_io_boundary := True\<rparr>;
                W1 = call [Bdev_register p] (store p b1 W);
                rc = sp_bdev_register E b1 in
         if rc \<noteq> 0 then Inr (rc, call [Module_release_bdev p] W1)
         else Inr (0, W1\<lparr>g_ubi_bdev_head := g_ubi_bdev_head W1 @ [p]\<rparr>))))"

definition finish_release :: "ubi_create_context \<Rightarrow> ubi_world \<Rightarrow> ubi_world c_result" where
  "finish_release ctx W =
     (case cx_ubi_bdev ctx of None \<Rightarrow> Inr W
      | Some p \<Rightarrow>
          let W1 = (if registerd ctx then call [Io_device_unregister p False] W else W) in
          c_bind (deref W1 p) (\<lambda>b. case blob b of
              Some bl \<Rightarrow> Inr (call [Blob_close bl] W1)
            | None \<Rightarrow> ubi_destruct_blob_close_cb p 0 W1))"

definition ubi_finish_create ::
  "spdk \<Rightarrow> int \<Rightarrow> ubi_create_context \<Rightarrow> ubi_world \<Rightarrow> create_state c_result" where
  "ubi_finish_create E st ctx W =
     c_bind (if st = 0 then finish_register E ctx W else Inr (st, W)) (\<lambda>(rc, W1).
     c_bind (if rc \<noteq> 0 then finish_release ctx W1 else Inr W1) (\<lambda>W2.
     Inr \<lparr>cs_ctx = ctx,
          cs_world = call [Create_done (done_arg ctx) (cx_ubi_bdev ctx) rc, Free_context] W2,
          cs_pending = None\<rparr>))"

definition ubi_blob_open_complete ::
  "spdk \<Rightarrow> ubi_create_context \<Rightarrow> ubi_world \<Rightarrow> nat option \<Rightarrow> int \<Rightarrow> create_state c_result" where
  "ubi_blob_open_complete E ctx W bl bserrno =
     c_bind (sp_blob_get_id E bl) (\<lambda>logged_id.
       if bserrno \<noteq> 0 then ubi_finish_create E bserrno ctx W
       else c_bind (ctx_bdev ctx W) (\<lambda>(p, b).
         c_bind (sp_blob_get_id E bl) (\<lambda>bid.
           ubi_finish_create E 0 ctx (store p (b\<lparr>blob := bl, blobid := bid\<rparr>) W))))"

definition ubi_blob_snapshot_complete ::
  "spdk \<Rightarrow> ubi_create_context \<Rightarrow> ubi_world \<Rightarrow> u64 \<Rightarrow> int \<Rightarrow> create_state c_result" where
  "ubi_blob_snapshot_complete E ctx W bid bserrno =
     (if bserrno \<noteq> 0 then ubi_finish_create E bserrno ctx W
      else c_bind (ctx_bdev ctx W) (\<lambda>(p, b).
        case blobstore b of None \<Rightarrow> Inl Null_deref
        | Some bs \<Rightarrow> Inr \<lparr>cs_ctx = ctx, cs_world = call [Bs_open_blob bs (blobid b)] W,
                         cs_pending = Some Cb_blob_open_complete\<rparr>))"

definition ubi_blob_create_complete ::
  "spdk \<Rightarrow> ubi_create_context \<Rightarrow> ubi_world \<Rightarrow> u64 \<Rightarrow> int \<Rightarrow> create_state c_result" where
  "ubi_blob_create_complete E ctx W bid bserrno =
     (if bserrno \<noteq> 0 then ubi_finish_create E bserrno ctx W
      else c_bind (ctx_bdev ctx W) (\<lambda>(p, b).
        case blobstore b of None \<Rightarrow> Inl Null_deref
        | Some bs \<Rightarrow> Inr \<lparr>cs_ctx = ctx,
            cs_world = call [Bs_create_snapshot bs bid] (store p (b\<lparr>blobid := bid\<rparr>) W),
            cs_pending = Some Cb_blob_snapshot_complete\<rparr>))"

definition ubi_bs_init_complete ::
  "spdk \<Rightarrow> ubi_create_context \<Rightarrow> ubi_world \<Rightarrow> nat \<Rightarrow> int \<Rightarrow> create_state c_result" where
  "ubi_bs_init_complete E ctx W bs bserrno =
     (if bserrno \<noteq> 0 then ubi_finish_create E bserrno ctx W
      else c_bind (ctx_bdev ctx W) (\<lambda>(p, b).
        let W1 = store p (b\<lparr>blobstore := Some bs\<rparr>) W in
        if \<not> format_bdev ctx
        then Inr \<lparr>cs_ctx = ctx, cs_world = call [Bs_iter_first bs] W1,
                  cs_pending = Some Cb_blob_open_complete\<rparr>
        else let bo = (sp_blob_opts_init E)\<lparr>thin_provision := True,
                        num_clusters := sp_total_data_clusters E bs,
                        esnap_id := UBI_URING_ESNAP_ID,
                        esnap_id_len := of_nat (Suc (length UBI_URING_ESNAP_ID))\<rparr> in
          Inr \<lparr>cs_ctx = ctx\<lparr>cx_blob_opts := bo\<rparr>, cs_world = call [Bs_create_blob bs bo] W1,
               cs_pending = Some Cb_blob_create_complete\<rparr>))"

text \<open>
  \<open>bdev_ubi_create\<close>. \<open>opts\<close> is a pointer; the log line of its null check reads through it. The
  context comes from the caller.
\<close>

definition path_array :: "string \<Rightarrow> char list" where
  "path_array src = (c_strncpy src UBI_PATH_LEN)[UBI_PATH_LEN - 1 := NUL]"

definition init_ubi_bdev :: "spdk \<Rightarrow> spdk_ubi_bdev_opts \<Rightarrow> ubi_bdev \<Rightarrow> ubi_bdev" where
  "init_ubi_bdev E opts b =
     b\<lparr>bdev_name := o_name opts, thread := sp_thread E, no_sync := o_no_sync opts,
       image_path := path_array (o_image_path opts),
       snapshot_path := (case o_snapshot_path opts of
           Some s \<Rightarrow> path_array s
         | None \<Rightarrow> (snapshot_path b)[0 := NUL])\<rparr>"

definition bdev_ubi_create ::
  "spdk \<Rightarrow> spdk_ubi_bdev_opts option \<Rightarrow> ubi_create_context \<Rightarrow> ubi_world \<Rightarrow> create_state c_result" where
  "bdev_ubi_create E opts_ptr ctx W =
     (case opts_ptr of None \<Rightarrow> Inl Null_deref | Some opts \<Rightarrow>
      case sp_calloc E of None \<Rightarrow> ubi_finish_create E (- ENOMEM) ctx W | Some p \<Rightarrow>
      let ctx1 = ctx\<lparr>cx_ubi_bdev := Some p\<rparr> in
      if \<not> sp_strdup E then ubi_finish_create E (- ENOMEM) ctx1 (store p zero_ubi_bdev W)
      else let b1 = init_ubi_bdev E opts zero_ubi_bdev;
               (rc, dev) = sp_create_bs_dev E (o_base_bdev_name opts) in
        if rc \<noteq> 0 then ubi_finish_create E rc ctx1 (store p b1 W)
        else let b2 = b1\<lparr>bs_dev := Some dev, bdev_blocklen := sp_bs_dev_blocklen E dev,
                         bdev_blockcnt := sp_bs_dev_blockcnt E dev, write_cache := False,
                         product_name := ''Ubi_disk'', alignment_bytes := 4096,
                         required_alignment := sp_u32log2 E 4096\<rparr>;
                 so = (sp_bs_opts_init E)\<lparr>esnap_bs_dev_create := True, esnap_ctx := Some p,
                         max_channel_ops := 20000\<rparr>;
                 ctx2 = ctx1\<lparr>registerd := True, format_bdev := o_format_bdev opts,
                              cx_bs_opts := so\<rparr>;
                 W1 = call [Io_device_register p (bdev_name b2)] (store p b2 W) in
          Inr \<lparr>cs_ctx = ctx2,
               cs_world = call [if o_format_bdev opts then Bs_init dev so else Bs_load dev so] W1,
               cs_pending = Some Cb_bs_init_complete\<rparr>)"

section \<open>The creation flow\<close>

text \<open>
  One step of the flow: SPDK completes the outstanding operation and calls the callback that the flow
  passed, with a result of its choice.
\<close>

inductive ubi_create_step :: "spdk \<Rightarrow> create_state \<Rightarrow> create_state \<Rightarrow> bool" for E where
  bs_init: "cs_pending s = Some Cb_bs_init_complete \<Longrightarrow>
    ubi_bs_init_complete E (cs_ctx s) (cs_world s) bs rc = Inr t \<Longrightarrow> ubi_create_step E s t"
| blob_create: "cs_pending s = Some Cb_blob_create_complete \<Longrightarrow>
    ubi_blob_create_complete E (cs_ctx s) (cs_world s) bid rc = Inr t \<Longrightarrow> ubi_create_step E s t"
| blob_snapshot: "cs_pending s = Some Cb_blob_snapshot_complete \<Longrightarrow>
    ubi_blob_snapshot_complete E (cs_ctx s) (cs_world s) bid rc = Inr t \<Longrightarrow> ubi_create_step E s t"
| blob_open: "cs_pending s = Some Cb_blob_open_complete \<Longrightarrow>
    ubi_blob_open_complete E (cs_ctx s) (cs_world s) bl rc = Inr t \<Longrightarrow> ubi_create_step E s t"

definition flow_waiting :: "create_state \<Rightarrow> bool" where
  "flow_waiting s \<longleftrightarrow> cs_pending s \<noteq> None"

definition flow_rank :: "create_state \<Rightarrow> nat" where
  "flow_rank s = (case cs_pending s of
       Some Cb_bs_init_complete \<Rightarrow> 4
     | Some Cb_blob_create_complete \<Rightarrow> 3
     | Some Cb_blob_snapshot_complete \<Rightarrow> 2
     | Some Cb_blob_open_complete \<Rightarrow> 1
     | None \<Rightarrow> 0)"

fun is_done :: "ubi_call \<Rightarrow> bool" where
  "is_done (Create_done _ _ _) = True"
| "is_done _ = False"

definition flow_answers :: "create_state \<Rightarrow> nat" where
  "flow_answers s = length (filter is_done (calls (cs_world s)))"

text \<open>
  The calls of a flow that has not failed, up to each callback it waits for: the order in which the
  device is registered, the blobstore initialised or loaded, and the blob created, snapshotted and
  opened (or found).
\<close>

definition esnap_blob_opts :: "spdk \<Rightarrow> nat \<Rightarrow> blob_opts" where
  "esnap_blob_opts E bs = (sp_blob_opts_init E)\<lparr>thin_provision := True,
     num_clusters := sp_total_data_clusters E bs, esnap_id := UBI_URING_ESNAP_ID,
     esnap_id_len := of_nat (Suc (length UBI_URING_ESNAP_ID))\<rparr>"

definition esnap_bs_opts :: "spdk \<Rightarrow> nat \<Rightarrow> bs_opts" where
  "esnap_bs_opts E p = (sp_bs_opts_init E)\<lparr>esnap_bs_dev_create := True, esnap_ctx := Some p,
     max_channel_ops := 20000\<rparr>"

definition start_calls :: "spdk \<Rightarrow> nat \<Rightarrow> spdk_ubi_bdev_opts \<Rightarrow> ubi_call list" where
  "start_calls E p opts =
     (let dev = snd (sp_create_bs_dev E (o_base_bdev_name opts)); so = esnap_bs_opts E p in
      [Io_device_register p (o_name opts),
       if o_format_bdev opts then Bs_init dev so else Bs_load dev so])"

fun create_trace :: "spdk \<Rightarrow> nat \<Rightarrow> spdk_ubi_bdev_opts \<Rightarrow> nat \<Rightarrow> u64 \<Rightarrow> create_cb \<Rightarrow> ubi_call list" where
  "create_trace E p opts bs bid Cb_bs_init_complete = start_calls E p opts"
| "create_trace E p opts bs bid Cb_blob_create_complete =
     start_calls E p opts @ [Bs_create_blob bs (esnap_blob_opts E bs)]"
| "create_trace E p opts bs bid Cb_blob_snapshot_complete =
     start_calls E p opts @ [Bs_create_blob bs (esnap_blob_opts E bs), Bs_create_snapshot bs bid]"
| "create_trace E p opts bs bid Cb_blob_open_complete =
     start_calls E p opts @
       (if o_format_bdev opts
        then [Bs_create_blob bs (esnap_blob_opts E bs), Bs_create_snapshot bs bid, Bs_open_blob bs bid]
        else [Bs_iter_first bs])"

section \<open>The heap and the trace\<close>

lemma world_simps [simp]:
  "heap (call cs W) = heap W" "g_ubi_bdev_head (call cs W) = g_ubi_bdev_head W"
  "calls (call cs W) = calls W @ cs"
  "heap (store p b W) = (heap W)(p \<mapsto> b)" "g_ubi_bdev_head (store p b W) = g_ubi_bdev_head W"
  "calls (store p b W) = calls W"
  by (simp_all add: call_def store_def)

lemma deref_simps [simp]:
  "deref (store p b W) p = Inr b" "deref (call cs W) p = deref W p"
  by (simp_all add: deref_def)

lemma deref_Inr_iff: "deref W p = Inr b \<longleftrightarrow> heap W p = Some b"
  by (auto simp: deref_def split: option.splits)

lemma ctx_bdev_Inr_iff:
  "ctx_bdev ctx W = Inr (p, b) \<longleftrightarrow> cx_ubi_bdev ctx = Some p \<and> heap W p = Some b"
  by (auto simp: ctx_bdev_def deref_Inr_iff split: option.splits)

lemma blob_close_cb_calls:
  "ubi_destruct_blob_close_cb p rc W = Inr W' \<Longrightarrow>
   g_ubi_bdev_head W' = g_ubi_bdev_head W \<and> (\<exists>cs. calls W' = calls W @ cs \<and> filter is_done cs = [] \<and>
     (\<forall>c \<in> set cs. \<exists>bs. c = Bs_unload bs))"
  by (auto simp: ubi_destruct_blob_close_cb_def ubi_destruct_bs_unload_cb_def split: option.splits)

section \<open>How the flow ends\<close>

text \<open>
  \<open>ubi_finish_create\<close> on a device that exists: it ends the flow with one answer; the device joins the
  list exactly when the status is 0; on a failure the I/O device is unregistered when it had been
  registered.
\<close>

lemma finish_release_calls:
  assumes "finish_release ctx W = Inr W'" and "cx_ubi_bdev ctx = Some p"
  shows "\<exists>cs. calls W' = calls W @ cs \<and> filter is_done cs = [] \<and>
    g_ubi_bdev_head W' = g_ubi_bdev_head W \<and>
    (Io_device_unregister p False \<in> set cs \<longleftrightarrow> registerd ctx) \<and>
    (\<forall>q n. Io_device_register q n \<notin> set cs)"
proof -
  let ?W = "if registerd ctx then call [Io_device_unregister p False] W else W"
  obtain cs where cs: "calls W' = calls ?W @ cs" "filter is_done cs = []"
    "g_ubi_bdev_head W' = g_ubi_bdev_head ?W" "Io_device_unregister p False \<notin> set cs"
    "\<forall>q n. Io_device_register q n \<notin> set cs"
    using assms
    by (auto simp: finish_release_def Let_def split: option.splits
        dest!: blob_close_cb_calls simp del: world_simps)
      (fastforce simp: call_def)+
  then show ?thesis
    by (intro exI [of _ "(if registerd ctx then [Io_device_unregister p False] else []) @ cs"]) auto
qed

lemma finish_register_calls:
  assumes "finish_register E ctx W = Inr (rc, W')" and "cx_ubi_bdev ctx = Some p"
  shows "\<exists>cs. calls W' = calls W @ Bdev_register p # cs \<and> filter is_done cs = [] \<and>
    Io_device_unregister p False \<notin> set cs \<and> (\<forall>q n. Io_device_register q n \<notin> set cs) \<and>
    (rc = 0 \<longrightarrow> cs = []) \<and>
    g_ubi_bdev_head W' = g_ubi_bdev_head W @ (if rc = 0 then [p] else [])"
  using assms
  by (auto simp: finish_register_def Let_def ctx_bdev_Inr_iff split: if_splits)

lemma finish_create_outcome:
  assumes "ubi_finish_create E st ctx W = Inr t" and "cx_ubi_bdev ctx = Some p"
  shows "\<exists>rc cs. cs_pending t = None \<and>
    calls (cs_world t) = calls W @ cs @ [Create_done (done_arg ctx) (Some p) rc, Free_context] \<and>
    filter is_done cs = [] \<and> (st \<noteq> 0 \<longrightarrow> rc = st) \<and>
    g_ubi_bdev_head (cs_world t) = g_ubi_bdev_head W @ (if rc = 0 then [p] else []) \<and>
    (rc = 0 \<longrightarrow> cs = [Bdev_register p]) \<and>
    (rc \<noteq> 0 \<longrightarrow> (Io_device_unregister p False \<in> set cs \<longleftrightarrow> registerd ctx)) \<and>
    (\<forall>q n. Io_device_register q n \<notin> set cs)"
proof -
  from assms obtain rc W1 W2 where
    r: "(if st = 0 then finish_register E ctx W else Inr (st, W)) = Inr (rc, W1)"
      "(if rc \<noteq> 0 then finish_release ctx W1 else Inr W1) = Inr W2"
    and t: "t = \<lparr>cs_ctx = ctx, cs_world = call [Create_done (done_arg ctx) (Some p) rc, Free_context] W2,
          cs_pending = None\<rparr>"
    by (auto simp: ubi_finish_create_def)
  obtain cs1 where c1: "calls W1 = calls W @ cs1" "filter is_done cs1 = []"
    "Io_device_unregister p False \<notin> set cs1" "\<forall>q n. Io_device_register q n \<notin> set cs1" "rc = 0 \<longrightarrow> cs1 = [Bdev_register p]"
    "g_ubi_bdev_head W1 = g_ubi_bdev_head W @ (if rc = 0 then [p] else [])" "st \<noteq> 0 \<longrightarrow> rc = st"
    using r(1) finish_register_calls [OF _ assms(2), of E W rc W1] by (cases "st = 0") fastforce+
  obtain cs2 where c2: "calls W2 = calls W1 @ cs2" "filter is_done cs2 = []"
    "g_ubi_bdev_head W2 = g_ubi_bdev_head W1" "rc = 0 \<longrightarrow> cs2 = []"
    "rc \<noteq> 0 \<longrightarrow> (Io_device_unregister p False \<in> set cs2 \<longleftrightarrow> registerd ctx)"
    "\<forall>q n. Io_device_register q n \<notin> set cs2"
    using r(2) finish_release_calls [OF _ assms(2), of W1 W2] by (cases "rc = 0") fastforce+
  show ?thesis
    using c1 c2 by (intro exI [of _ rc] exI [of _ "cs1 @ cs2"]) (simp add: t)
qed

section \<open>The flow answers once\<close>

lemma finish_create_answers:
  assumes "ubi_finish_create E st ctx W = Inr t"
  shows "\<not> flow_waiting t \<and> flow_answers t = Suc (length (filter is_done (calls W)))"
proof (cases "cx_ubi_bdev ctx")
  case None
  with assms show ?thesis
    by (auto simp: ubi_finish_create_def finish_register_def finish_release_def ctx_bdev_def
        flow_waiting_def flow_answers_def split: if_splits)
next
  case (Some p)
  from finish_create_outcome [OF assms Some] show ?thesis
    by (auto simp: flow_waiting_def flow_answers_def)
qed

lemmas create_handler_defs =
  ubi_bs_init_complete_def ubi_blob_create_complete_def ubi_blob_snapshot_complete_def
  ubi_blob_open_complete_def

text \<open>A handler either finishes the flow or passes the next callback, without answering.\<close>

lemma create_step_cases:
  assumes "ubi_create_step E s t"
  shows "flow_waiting s \<and>
    (\<not> flow_waiting t \<and> flow_answers t = Suc (flow_answers s) \<or>
     flow_waiting t \<and> flow_answers t = flow_answers s \<and> flow_rank t < flow_rank s)"
  using assms
proof (cases rule: ubi_create_step.cases)
  case (bs_init bs rc)
  then show ?thesis
    by (auto simp: create_handler_defs flow_waiting_def flow_answers_def flow_rank_def Let_def
        split: if_splits dest!: finish_create_answers)
next
  case (blob_create bid rc)
  then show ?thesis
    by (auto simp: create_handler_defs flow_waiting_def flow_answers_def flow_rank_def Let_def
        split: if_splits option.splits dest!: finish_create_answers)
next
  case (blob_snapshot bid rc)
  then show ?thesis
    by (auto simp: create_handler_defs flow_waiting_def flow_answers_def flow_rank_def Let_def
        split: if_splits option.splits dest!: finish_create_answers)
next
  case (blob_open bl rc)
  then show ?thesis
    by (auto simp: create_handler_defs flow_waiting_def flow_answers_def Let_def
        split: if_splits dest!: finish_create_answers)
qed

interpretation create_flow: once_flow "ubi_create_step E" flow_waiting flow_answers flow_rank for E
proof unfold_locales
  fix s t
  assume st: "ubi_create_step E s t"
  note c = create_step_cases [OF st]
  show "flow_answers t = flow_answers s + (if flow_waiting s \<and> \<not> flow_waiting t then 1 else 0)"
    using c by auto
  show "\<not> flow_waiting t" if "\<not> flow_waiting s"
    using c that by blast
  have "flow_rank t = 0" if "\<not> flow_waiting t"
    using that by (simp add: flow_rank_def flow_waiting_def)
  moreover have "0 < flow_rank s" if "flow_waiting s"
    using that by (auto simp: flow_rank_def flow_waiting_def split: create_cb.splits)
  ultimately show "flow_rank t < flow_rank s" if "flow_waiting s"
    using c that by fastforce
qed

lemma create_start:
  assumes "bdev_ubi_create E opts ctx W = Inr s" and "filter is_done (calls W) = []"
  shows "flow_answers s = (if flow_waiting s then 0 else 1) \<and> flow_rank s \<le> 4"
proof (cases "flow_waiting s")
  case True
  with assms show ?thesis
    by (auto simp: bdev_ubi_create_def Let_def flow_waiting_def flow_answers_def flow_rank_def
        split: option.splits if_splits prod.splits dest!: finish_create_answers)
next
  case False
  then have "flow_rank s = 0"
    by (simp add: flow_waiting_def flow_rank_def)
  with False assms show ?thesis
    by (auto simp: bdev_ubi_create_def Let_def flow_waiting_def flow_answers_def
        split: option.splits if_splits prod.splits dest!: finish_create_answers)
qed

lemma no_step_when_done: "\<not> flow_waiting s \<Longrightarrow> \<not> ubi_create_step E s t"
  using create_step_cases by blast

text \<open>A run that starts with \<open>bdev_ubi_create\<close> answers once, and has at most four steps.\<close>

lemma create_run_once:
  assumes "bdev_ubi_create E opts ctx W = Inr s" and "filter is_done (calls W) = []"
    and "(ubi_create_step E ^^ n) s t"
  shows "flow_answers t = (if flow_waiting t then 0 else 1) \<and> n \<le> 4"
proof (cases "flow_waiting s")
  case True
  have run: "(ubi_create_step E)\<^sup>*\<^sup>* s t"
    using assms(3) by (rule relpowp_imp_rtranclp)
  have "flow_answers s = 0" and "flow_rank s \<le> 4"
    using create_start [OF assms(1,2)] True by simp_all
  moreover have "n \<le> flow_rank s"
  proof (cases n)
    case (Suc m)
    then obtain u where u: "(ubi_create_step E ^^ m) s u" "ubi_create_step E u t"
      using assms(3) by auto
    then have "flow_waiting u"
      using create_step_cases by blast
    with u create_flow.run_rank [OF u(1) True] create_flow.step_rank [OF u(2)] Suc show ?thesis
      by linarith
  qed simp
  ultimately show ?thesis
    using create_flow.run_answers [OF run True] by auto
next
  case False
  then have "n = 0 \<and> t = s"
    using assms(3) no_step_when_done by (cases n) (auto elim: relpowp_E2)
  with False show ?thesis
    using create_start [OF assms(1,2)] by simp
qed

section \<open>The flow goes on\<close>

text \<open>
  What the synchronous functions of SPDK do, as far as the flow needs it: on a blob and on a blobstore
  they return a value, the size of an I/O unit is not zero, and the id of a null blob is a null
  dereference.
\<close>

definition spdk_defined :: "spdk \<Rightarrow> bool" where
  "spdk_defined E \<longleftrightarrow>
     (\<forall>bl. \<exists>i. sp_blob_get_id E (Some bl) = Inr i) \<and> sp_blob_get_id E None = Inl Null_deref \<and>
     (\<forall>bl. \<exists>n. sp_num_io_units E (Some bl) = Inr n) \<and>
     (\<forall>bs. \<exists>u. sp_io_unit_size E (Some bs) = Inr u \<and> (ucast u :: u32) \<noteq> 0)"

text \<open>The callback \<open>cb\<close> with what SPDK passes to a callback of its kind: a blobstore, a blob id or a blob, and a status.\<close>

fun create_deliver ::
  "spdk \<Rightarrow> create_state \<Rightarrow> create_cb \<Rightarrow> nat \<Rightarrow> u64 \<Rightarrow> nat option \<Rightarrow> int \<Rightarrow> create_state c_result" where
  "create_deliver E s Cb_bs_init_complete bs bid bl rc = ubi_bs_init_complete E (cs_ctx s) (cs_world s) bs rc"
| "create_deliver E s Cb_blob_create_complete bs bid bl rc = ubi_blob_create_complete E (cs_ctx s) (cs_world s) bid rc"
| "create_deliver E s Cb_blob_snapshot_complete bs bid bl rc = ubi_blob_snapshot_complete E (cs_ctx s) (cs_world s) bid rc"
| "create_deliver E s Cb_blob_open_complete bs bid bl rc = ubi_blob_open_complete E (cs_ctx s) (cs_world s) bl rc"

lemma create_step_deliver:
  "ubi_create_step E s t \<longleftrightarrow> (\<exists>cb bs bid bl rc. cs_pending s = Some cb \<and> create_deliver E s cb bs bid bl rc = Inr t)"
proof
  assume "ubi_create_step E s t"
  then show "\<exists>cb bs bid bl rc. cs_pending s = Some cb \<and> create_deliver E s cb bs bid bl rc = Inr t"
    by (cases rule: ubi_create_step.cases) (auto intro!: exI)
next
  assume "\<exists>cb bs bid bl rc. cs_pending s = Some cb \<and> create_deliver E s cb bs bid bl rc = Inr t"
  then obtain cb bs bid bl rc where "cs_pending s = Some cb" "create_deliver E s cb bs bid bl rc = Inr t"
    by blast
  then show "ubi_create_step E s t"
    by (cases cb) (auto intro: ubi_create_step.intros)
qed

text \<open>The device of a waiting flow exists, and it has a blobstore from the first callback on.\<close>

definition create_alive :: "create_state \<Rightarrow> bool" where
  "create_alive s \<longleftrightarrow> (\<forall>cb. cs_pending s = Some cb \<longrightarrow>
     (\<exists>p b. cx_ubi_bdev (cs_ctx s) = Some p \<and> heap (cs_world s) p = Some b \<and>
        (cb \<noteq> Cb_bs_init_complete \<longrightarrow> blobstore b \<noteq> None)))"

lemma finish_pending: "ubi_finish_create E st ctx W = Inr t \<Longrightarrow> cs_pending t = None"
  by (auto simp: ubi_finish_create_def)

lemma create_alive_step:
  assumes "ubi_create_step E s t" and "create_alive s"
  shows "create_alive t"
  using assms
  by (cases rule: ubi_create_step.cases)
    (auto simp: create_handler_defs create_alive_def ctx_bdev_Inr_iff Let_def split: if_splits option.splits
      dest!: finish_pending)

lemma create_alive_start: "bdev_ubi_create E opts ctx W = Inr s \<Longrightarrow> create_alive s"
  by (auto simp: bdev_ubi_create_def create_alive_def Let_def split: option.splits if_splits prod.splits
      dest!: finish_pending)

lemma finish_release_defined:
  assumes "\<And>p. cx_ubi_bdev ctx = Some p \<Longrightarrow> heap W p \<noteq> None"
  shows "\<exists>W'. finish_release ctx W = Inr W'"
proof (cases "cx_ubi_bdev ctx")
  case (Some p)
  with assms obtain b where "heap W p = Some b"
    by auto
  with Some show ?thesis
    by (auto simp: finish_release_def deref_def ubi_destruct_blob_close_cb_def ubi_destruct_bs_unload_cb_def Let_def
        split: option.splits)
qed (simp add: finish_release_def)

lemma finish_create_defined:
  assumes "\<And>p. cx_ubi_bdev ctx = Some p \<Longrightarrow> heap W p \<noteq> None"
    and "st = 0 \<Longrightarrow> spdk_defined E \<and> (\<exists>p b. cx_ubi_bdev ctx = Some p \<and> heap W p = Some b \<and> blob b \<noteq> None \<and> blobstore b \<noteq> None)"
  shows "\<exists>t. ubi_finish_create E st ctx W = Inr t"
proof -
  have "\<exists>rc W1. (if st = 0 then finish_register E ctx W else Inr (st, W)) = Inr (rc, W1) \<and>
      (\<forall>p. cx_ubi_bdev ctx = Some p \<longrightarrow> heap W1 p \<noteq> None)"
  proof (cases "st = 0")
    case True
    with assms(2) obtain p b bl bs where d: "spdk_defined E" "cx_ubi_bdev ctx = Some p" "heap W p = Some b"
      "blob b = Some bl" "blobstore b = Some bs"
      by auto
    moreover obtain n u where "sp_num_io_units E (Some bl) = Inr n" "sp_io_unit_size E (Some bs) = Inr u"
      "(ucast u :: u32) \<noteq> 0"
      using d(1) unfolding spdk_defined_def by metis
    ultimately show ?thesis
      using True by (auto simp: finish_register_def ctx_bdev_def deref_def Let_def)
  qed (use assms(1) in auto)
  then obtain rc W1 where r: "(if st = 0 then finish_register E ctx W else Inr (st, W)) = Inr (rc, W1)"
    "\<And>p. cx_ubi_bdev ctx = Some p \<Longrightarrow> heap W1 p \<noteq> None"
    by blast
  from finish_release_defined [OF r(2)] obtain W2 where "finish_release ctx W1 = Inr W2"
    by blast
  with r(1) show ?thesis
    by (auto simp: ubi_finish_create_def)
qed

lemma deliver_defined:
  assumes "create_alive s" and "cs_pending s = Some cb" and "spdk_defined E"
  shows "(\<exists>t. create_deliver E s cb bs bid bl rc = Inr t) \<longleftrightarrow> cb \<noteq> Cb_blob_open_complete \<or> bl \<noteq> None"
proof -
  obtain p b where pb: "cx_ubi_bdev (cs_ctx s) = Some p" "heap (cs_world s) p = Some b"
    "cb \<noteq> Cb_bs_init_complete \<Longrightarrow> \<exists>bs. blobstore b = Some bs"
    using assms(1,2) by (auto simp: create_alive_def)
  then have c: "ctx_bdev (cs_ctx s) (cs_world s) = Inr (p, b)"
    by (simp add: ctx_bdev_Inr_iff)
  have fail: "\<exists>t. ubi_finish_create E st (cs_ctx s) (cs_world s) = Inr t" if "st \<noteq> 0" for st
    using that pb by (intro finish_create_defined) auto
  show ?thesis
  proof (cases cb)
    case Cb_blob_open_complete
    show ?thesis
    proof (cases bl)
      case None
      with Cb_blob_open_complete assms(3) show ?thesis
        by (simp add: ubi_blob_open_complete_def spdk_defined_def)
    next
      case (Some x)
      obtain i where i: "sp_blob_get_id E (Some x) = Inr i"
        using assms(3) unfolding spdk_defined_def by blast
      have "\<exists>t. ubi_finish_create E 0 (cs_ctx s) (store p (b\<lparr>blob := Some x, blobid := i\<rparr>) (cs_world s)) = Inr t"
        using pb Cb_blob_open_complete assms(3) by (intro finish_create_defined) auto
      with fail i c Some Cb_blob_open_complete show ?thesis
        by (cases "rc = 0") (auto simp: ubi_blob_open_complete_def)
    qed
  qed (use fail c pb(3) in \<open>cases "rc = 0"; auto simp: create_handler_defs Let_def\<close>)+
qed

text \<open>
  C4. \<open>bdev_ubi_create\<close> answers its caller, unless SPDK hands it a null blob. A call with options returns.
  Along every run of the flow from there, the caller's \<open>done_fn\<close> has been called exactly once when the
  flow is over, and not at all before; no run has more than four steps. And while the flow waits, it
  goes on whatever SPDK passes to its callback, in success or failure, with one exception: when the
  callback of an opened blob gets a null blob, as from an open that failed, the code asks for the blob's
  id before it looks at the status, which is undefined, and such a failure is not answered.
\<close>

theorem create_answers_exactly_once:
  assumes "spdk_defined E" and "filter is_done (calls W) = []" and "cx_ubi_bdev ctx = None"
  shows "(\<exists>s. bdev_ubi_create E (Some opts) ctx W = Inr s) \<and>
    (\<forall>s n t. bdev_ubi_create E (Some opts) ctx W = Inr s \<and> (ubi_create_step E ^^ n) s t \<longrightarrow>
       flow_answers t = (if flow_waiting t then 0 else 1) \<and> n \<le> 4 \<and>
       (\<forall>cb bs bid bl rc. cs_pending t = Some cb \<longrightarrow>
          ((\<exists>u. create_deliver E t cb bs bid bl rc = Inr u) \<longleftrightarrow> cb \<noteq> Cb_blob_open_complete \<or> bl \<noteq> None)))"
proof (intro conjI allI impI)
  have fin: "\<exists>s. ubi_finish_create E rc (ctx\<lparr>cx_ubi_bdev := Some p\<rparr>) (store p b W) = Inr s" if "rc \<noteq> 0" for rc p b
    using that by (intro finish_create_defined) auto
  obtain rc dev where bsd: "sp_create_bs_dev E (o_base_bdev_name opts) = (rc, dev)"
    by fastforce
  show "\<exists>s. bdev_ubi_create E (Some opts) ctx W = Inr s"
  proof (cases "sp_calloc E")
    case None
    have "\<exists>s. ubi_finish_create E (- ENOMEM) ctx W = Inr s"
      using assms(3) by (intro finish_create_defined) auto
    with None show ?thesis
      by (simp add: bdev_ubi_create_def)
  next
    case (Some p)
    then show ?thesis
      using fin [of "- ENOMEM" p zero_ubi_bdev] fin [of rc p "init_ubi_bdev E opts zero_ubi_bdev"] bsd
      by (auto simp: bdev_ubi_create_def Let_def)
  qed
next
  fix s n t
  assume a: "bdev_ubi_create E (Some opts) ctx W = Inr s \<and> (ubi_create_step E ^^ n) s t"
  then show "flow_answers t = (if flow_waiting t then 0 else 1)" "n \<le> 4"
    using create_run_once [OF _ assms(2)] by blast+
  have "(ubi_create_step E)\<^sup>*\<^sup>* s t"
    using a by (auto dest: relpowp_imp_rtranclp)
  then have "create_alive t"
  proof (induction rule: rtranclp_induct)
    case base
    show ?case using a create_alive_start by blast
  next
    case (step u v)
    then show ?case using create_alive_step by blast
  qed
  then show "(\<exists>u. create_deliver E t cb bs bid bl rc = Inr u) \<longleftrightarrow> cb \<noteq> Cb_blob_open_complete \<or> bl \<noteq> None"
    if "cs_pending t = Some cb" for cb bs bid bl rc
    using deliver_defined [OF _ that assms(1)] by blast
qed

section \<open>The outcome of the flow\<close>

text \<open>What holds while the flow waits for callback \<open>cb\<close>.\<close>

definition create_inv ::
  "spdk \<Rightarrow> nat \<Rightarrow> spdk_ubi_bdev_opts \<Rightarrow> nat \<Rightarrow> nat list \<Rightarrow> create_state \<Rightarrow> create_cb \<Rightarrow> bool" where
  "create_inv E p opts arg hd0 s cb \<longleftrightarrow>
     cx_ubi_bdev (cs_ctx s) = Some p \<and> done_arg (cs_ctx s) = arg \<and> registerd (cs_ctx s) \<and>
     format_bdev (cs_ctx s) = o_format_bdev opts \<and> g_ubi_bdev_head (cs_world s) = hd0 \<and>
     (cb \<in> {Cb_blob_create_complete, Cb_blob_snapshot_complete} \<longrightarrow> o_format_bdev opts) \<and>
     (\<exists>b bs. heap (cs_world s) p = Some b \<and>
        (cb \<noteq> Cb_bs_init_complete \<longrightarrow> blobstore b = Some bs) \<and>
        calls (cs_world s) = create_trace E p opts bs (blobid b) cb)"

text \<open>What holds when the flow is over.\<close>

definition create_outcome ::
  "spdk \<Rightarrow> nat \<Rightarrow> spdk_ubi_bdev_opts \<Rightarrow> nat \<Rightarrow> nat list \<Rightarrow> create_state \<Rightarrow> bool" where
  "create_outcome E p opts arg hd0 s \<longleftrightarrow>
     (\<exists>rc. filter is_done (calls (cs_world s)) = [Create_done arg (Some p) rc] \<and>
        g_ubi_bdev_head (cs_world s) = hd0 @ (if rc = 0 then [p] else []) \<and>
        (rc = 0 \<longrightarrow> (\<exists>bs bid. calls (cs_world s) =
           create_trace E p opts bs bid Cb_blob_open_complete @
             [Bdev_register p, Create_done arg (Some p) 0, Free_context])) \<and>
        (rc \<noteq> 0 \<longrightarrow> (Io_device_unregister p False \<in> set (calls (cs_world s)) \<longleftrightarrow>
           Io_device_register p (o_name opts) \<in> set (calls (cs_world s)))))"

lemma create_trace_props:
  "filter is_done (create_trace E p opts bs bid cb) = []"
  "Io_device_register p (o_name opts) \<in> set (create_trace E p opts bs bid cb)"
  "Io_device_unregister p False \<notin> set (create_trace E p opts bs bid cb)"
  by (cases cb; simp add: start_calls_def Let_def)+

lemma create_inv_finish:
  assumes "create_inv E p opts arg hd0 s cb" and "ubi_finish_create E st (cs_ctx s) W = Inr t"
    and "calls W = calls (cs_world s)" and "g_ubi_bdev_head W = hd0"
    and "st = 0 \<Longrightarrow> cb = Cb_blob_open_complete"
  shows "create_outcome E p opts arg hd0 t"
proof -
  from assms(1) obtain bs bid where tr: "calls W = create_trace E p opts bs bid cb"
    and cx: "cx_ubi_bdev (cs_ctx s) = Some p" "done_arg (cs_ctx s) = arg" "registerd (cs_ctx s)"
    using assms(3) by (auto simp: create_inv_def)
  from finish_create_outcome [OF assms(2) cx(1)] obtain rc cs where
    o: "calls (cs_world t) = calls W @ cs @ [Create_done arg (Some p) rc, Free_context]"
      "filter is_done cs = []" "st \<noteq> 0 \<longrightarrow> rc = st"
      "g_ubi_bdev_head (cs_world t) = hd0 @ (if rc = 0 then [p] else [])"
      "rc = 0 \<longrightarrow> cs = [Bdev_register p]" "rc \<noteq> 0 \<longrightarrow> Io_device_unregister p False \<in> set cs"
    using cx assms(4) by auto
  have "rc = 0 \<Longrightarrow> cb = Cb_blob_open_complete"
    using o(3) assms(5) by auto
  with o tr show ?thesis
    unfolding create_outcome_def
    by (intro exI [of _ rc]) (auto simp: create_trace_props simp del: create_trace.simps)
qed

lemma create_inv_step:
  assumes inv: "create_inv E p opts arg hd0 s cb" and cb: "cs_pending s = Some cb"
    and st: "ubi_create_step E s t"
  shows "(case cs_pending t of Some cb' \<Rightarrow> create_inv E p opts arg hd0 t cb'
          | None \<Rightarrow> create_outcome E p opts arg hd0 t)"
proof -
  have fin: "create_outcome E p opts arg hd0 t \<and> cs_pending t = None"
    if "ubi_finish_create E rc (cs_ctx s) W = Inr t" "calls W = calls (cs_world s)"
      "g_ubi_bdev_head W = hd0" "rc = 0 \<Longrightarrow> cb = Cb_blob_open_complete" for rc W
    using create_inv_finish [OF inv that] finish_create_answers [OF that(1)]
    by (simp add: flow_waiting_def)
  have hd0: "g_ubi_bdev_head (cs_world s) = hd0"
    using inv by (simp add: create_inv_def)
  from st show ?thesis
  proof (cases rule: ubi_create_step.cases)
    case (bs_init bs rc)
    show ?thesis
    proof (cases "rc = 0")
      case True
      with bs_init inv cb show ?thesis
        by (auto simp: ubi_bs_init_complete_def create_inv_def ctx_bdev_Inr_iff Let_def
            esnap_blob_opts_def split: if_splits)
    next
      case False
      with bs_init fin [OF _ refl hd0] show ?thesis
        by (auto simp: ubi_bs_init_complete_def)
    qed
  next
    case (blob_create bid rc)
    show ?thesis
    proof (cases "rc = 0")
      case True
      with blob_create inv cb show ?thesis
        by (auto simp: ubi_blob_create_complete_def create_inv_def ctx_bdev_Inr_iff)
    next
      case False
      with blob_create fin [OF _ refl hd0] show ?thesis
        by (auto simp: ubi_blob_create_complete_def)
    qed
  next
    case (blob_snapshot bid rc)
    show ?thesis
    proof (cases "rc = 0")
      case True
      with blob_snapshot inv cb show ?thesis
        by (auto simp: ubi_blob_snapshot_complete_def create_inv_def ctx_bdev_Inr_iff)
    next
      case False
      with blob_snapshot fin [OF _ refl hd0] show ?thesis
        by (auto simp: ubi_blob_snapshot_complete_def)
    qed
  next
    case (blob_open bl rc)
    then have "cb = Cb_blob_open_complete"
      using cb by simp
    with blob_open fin hd0 show ?thesis
      by (auto simp: ubi_blob_open_complete_def split: if_splits)
  qed
qed

lemma create_fails_early:
  assumes "ubi_finish_create E st ctx W = Inr s" and "cx_ubi_bdev ctx = Some p" and "st \<noteq> 0"
    and "calls W = []" and "\<not> registerd ctx"
  shows "cs_pending s = None \<and> create_outcome E p opts (done_arg ctx) (g_ubi_bdev_head W) s"
proof -
  from finish_create_outcome [OF assms(1,2)] assms(3-5) obtain cs where
    o: "cs_pending s = None"
      "calls (cs_world s) = cs @ [Create_done (done_arg ctx) (Some p) st, Free_context]"
      "filter is_done cs = []" "g_ubi_bdev_head (cs_world s) = g_ubi_bdev_head W"
      "Io_device_unregister p False \<notin> set cs" "\<forall>q n. Io_device_register q n \<notin> set cs"
    by auto
  show ?thesis
    using o assms(3) unfolding create_outcome_def by (intro conjI exI [of _ st]) simp_all
qed

lemma create_start_inv:
  assumes "bdev_ubi_create E (Some opts) ctx W = Inr s" and "sp_calloc E = Some p"
    and "calls W = []" and "\<not> registerd ctx"
  shows "(case cs_pending s of
      Some cb \<Rightarrow> create_inv E p opts (done_arg ctx) (g_ubi_bdev_head W) s cb
    | None \<Rightarrow> create_outcome E p opts (done_arg ctx) (g_ubi_bdev_head W) s)"
proof -
  let ?ctx = "ctx\<lparr>cx_ubi_bdev := Some p\<rparr>"
  have early: ?thesis if "ubi_finish_create E st ?ctx W' = Inr s" "st \<noteq> 0" "calls W' = []"
      "g_ubi_bdev_head W' = g_ubi_bdev_head W" for st W'
    using create_fails_early [OF that(1) _ that(2,3), of p opts] that(4) assms(4) by simp
  obtain rc dev where bsd: "sp_create_bs_dev E (o_base_bdev_name opts) = (rc, dev)"
    by fastforce
  consider "\<not> sp_strdup E" | "sp_strdup E" "rc \<noteq> 0" | "sp_strdup E" "rc = 0" by blast
  then show ?thesis
  proof cases
    case 1
    with assms early [of "- ENOMEM"] show ?thesis
      by (simp add: bdev_ubi_create_def Let_def)
  next
    case 2
    with assms bsd early [of rc] show ?thesis
      by (simp add: bdev_ubi_create_def Let_def)
  next
    case 3
    with assms bsd show ?thesis
      by (auto simp: bdev_ubi_create_def Let_def create_inv_def start_calls_def esnap_bs_opts_def
          init_ubi_bdev_def)
  qed
qed

lemma create_run_inv:
  assumes "(ubi_create_step E)\<^sup>*\<^sup>* s t"
    and "case cs_pending s of Some cb \<Rightarrow> create_inv E p opts arg hd0 s cb
         | None \<Rightarrow> create_outcome E p opts arg hd0 s"
  shows "case cs_pending t of Some cb \<Rightarrow> create_inv E p opts arg hd0 t cb
         | None \<Rightarrow> create_outcome E p opts arg hd0 t"
  using assms
proof (induction rule: rtranclp_induct)
  case (step t u)
  then have "flow_waiting t"
    using create_step_cases by blast
  then obtain cb where cb: "cs_pending t = Some cb"
    by (auto simp: flow_waiting_def)
  with step create_inv_step [OF _ cb step.hyps(2)] show ?case by simp
qed simp

text \<open>
  C10. What the caller can rely on when the flow is over, for every run. The status reported is 0 exactly
  when the device has been appended to the module's list. On success the calls were made in the right
  order: the I/O device is registered, the blobstore is initialised and a thin blob with the external
  snapshot id is created, snapshotted and reopened by its own id (when formatting), or the blobstore is
  loaded and its first blob opened, and then the block device is registered. On failure the
  I/O device has been unregistered exactly when it had been registered.
\<close>

theorem create_flow_outcome:
  assumes "bdev_ubi_create E (Some opts) ctx W = Inr s" and "sp_calloc E = Some p"
    and "calls W = []" and "\<not> registerd ctx"
    and "(ubi_create_step E)\<^sup>*\<^sup>* s t" and "\<not> flow_waiting t"
  shows "\<exists>rc. filter is_done (calls (cs_world t)) = [Create_done (done_arg ctx) (Some p) rc] \<and>
    g_ubi_bdev_head (cs_world t) = g_ubi_bdev_head W @ (if rc = 0 then [p] else []) \<and>
    (rc = 0 \<longrightarrow> (\<exists>bs bid. calls (cs_world t) =
       create_trace E p opts bs bid Cb_blob_open_complete @
         [Bdev_register p, Create_done (done_arg ctx) (Some p) 0, Free_context])) \<and>
    (rc \<noteq> 0 \<longrightarrow> (Io_device_unregister p False \<in> set (calls (cs_world t)) \<longleftrightarrow>
       Io_device_register p (o_name opts) \<in> set (calls (cs_world t))))"
  using create_run_inv [OF assms(5) create_start_inv [OF assms(1-4)]] assms(6)
  by (auto simp: flow_waiting_def create_outcome_def)

section \<open>A concrete run\<close>

text \<open>An SPDK that grants every request, used by the witnesses.\<close>

definition demo_spdk :: spdk where
  "demo_spdk = \<lparr>sp_calloc = Some 10, sp_strdup = True, sp_thread = 1, sp_create_bs_dev = (\<lambda>_. (0, 20)),
     sp_bs_dev_blocklen = (\<lambda>_. 512), sp_bs_dev_blockcnt = (\<lambda>_. 4096), sp_u32log2 = (\<lambda>_. 12),
     sp_bs_opts_init = \<lparr>esnap_bs_dev_create = False, esnap_ctx = None, max_channel_ops = 512\<rparr>,
     sp_blob_opts_init = \<lparr>thin_provision = False, num_clusters = 0, esnap_id = [], esnap_id_len = 0\<rparr>,
     sp_total_data_clusters = (\<lambda>_. 8), sp_cluster_size = (\<lambda>_. Inr 4096),
     sp_io_unit_size = (\<lambda>_. Inr 512), sp_num_io_units = (\<lambda>_. Inr 64),
     sp_blob_get_id = (\<lambda>bl. case bl of None \<Rightarrow> Inl Null_deref | Some _ \<Rightarrow> Inr 99),
     sp_bdev_register = (\<lambda>_. 0), sp_unregister_by_name = (\<lambda>_. 0)\<rparr>"

definition demo_opts :: "bool \<Rightarrow> spdk_ubi_bdev_opts" where
  "demo_opts fmt = \<lparr>o_name = ''ubi0'', o_image_path = ''img'', o_snapshot_path = None,
     o_base_bdev_name = ''aio0'', o_no_sync = False, o_directio = True, o_format_bdev = fmt\<rparr>"

definition demo_ctx :: ubi_create_context where
  "demo_ctx = \<lparr>done_arg = 5, cx_ubi_bdev = None, registerd = False, format_bdev = False,
     cx_bs_opts = sp_bs_opts_init demo_spdk, cx_blob_opts = sp_blob_opts_init demo_spdk\<rparr>"

definition demo_world :: ubi_world where
  "demo_world = \<lparr>heap = Map.empty, g_ubi_bdev_head = [], calls = []\<rparr>"

lemmas demo_defs = demo_spdk_def demo_opts_def demo_ctx_def demo_world_def

text \<open>The run that loads a blobstore and finds a blob.\<close>

lemma demo_load_run:
  "\<exists>s u t. bdev_ubi_create demo_spdk (Some (demo_opts False)) demo_ctx demo_world = Inr s \<and>
     ubi_create_step demo_spdk s u \<and> ubi_create_step demo_spdk u t \<and> \<not> flow_waiting t"
proof -
  obtain s where s: "bdev_ubi_create demo_spdk (Some (demo_opts False)) demo_ctx demo_world = Inr s"
    by (simp add: bdev_ubi_create_def Let_def demo_defs)
  then have ps: "cs_pending s = Some Cb_bs_init_complete"
    by (auto simp: bdev_ubi_create_def Let_def demo_defs)
  obtain u where u: "ubi_bs_init_complete demo_spdk (cs_ctx s) (cs_world s) 30 0 = Inr u"
    using s by (auto simp: bdev_ubi_create_def ubi_bs_init_complete_def ctx_bdev_def Let_def demo_defs)
  then have pu: "cs_pending u = Some Cb_blob_open_complete"
    using s by (auto simp: bdev_ubi_create_def ubi_bs_init_complete_def ctx_bdev_def Let_def demo_defs)
  obtain t where t: "ubi_blob_open_complete demo_spdk (cs_ctx u) (cs_world u) (Some 40) 0 = Inr t"
    using s u
    by (auto simp: bdev_ubi_create_def ubi_bs_init_complete_def ubi_blob_open_complete_def ctx_bdev_def
        ubi_finish_create_def finish_register_def Let_def demo_defs)
  then have "\<not> flow_waiting t"
    by (auto simp: ubi_blob_open_complete_def split: if_splits dest!: finish_create_answers)
  with s ubi_create_step.bs_init [OF ps u] ubi_create_step.blob_open [OF pu t] show ?thesis
    by blast
qed

theorem create_answers_exactly_once_witness:
  "\<exists>s u t. bdev_ubi_create demo_spdk (Some (demo_opts False)) demo_ctx demo_world = Inr s \<and>
     (ubi_create_step demo_spdk ^^ 2) s t \<and> flow_answers t = 1 \<and>
     create_deliver demo_spdk s Cb_bs_init_complete 0 0 None (- EIO) = Inr u \<and> flow_answers u = 1"
proof -
  obtain s u t where r: "bdev_ubi_create demo_spdk (Some (demo_opts False)) demo_ctx demo_world = Inr s"
    "ubi_create_step demo_spdk s u" "ubi_create_step demo_spdk u t" "\<not> flow_waiting t"
    using demo_load_run by blast
  then have n: "(ubi_create_step demo_spdk ^^ 2) s t" "(ubi_create_step demo_spdk ^^ 0) s s"
    by (auto simp: numeral_2_eq_2)
  have d: "spdk_defined demo_spdk" "filter is_done (calls demo_world) = []" "cx_ubi_bdev demo_ctx = None"
    by (simp_all add: spdk_defined_def demo_defs)
  have ps: "cs_pending s = Some Cb_bs_init_complete"
    using r(1) by (auto simp: bdev_ubi_create_def Let_def demo_defs)
  note c = create_answers_exactly_once [OF d, THEN conjunct2, rule_format, OF conjI, OF r(1)]
  from c [OF n(2)] ps obtain v where v: "create_deliver demo_spdk s Cb_bs_init_complete 0 0 None (- EIO) = Inr v"
    by blast
  then have nv: "\<not> flow_waiting v"
    by (auto simp: ubi_bs_init_complete_def dest: finish_create_answers)
  have "ubi_create_step demo_spdk s v"
    using ps v create_step_deliver by blast
  then have "(ubi_create_step demo_spdk ^^ 1) s v"
    by (simp add: eq_OO)
  from c [OF this] nv have "flow_answers v = 1"
    by simp
  with r n c [OF n(1)] v show ?thesis
    by auto
qed

theorem create_flow_outcome_witness:
  "\<exists>s t rc. bdev_ubi_create demo_spdk (Some (demo_opts False)) demo_ctx demo_world = Inr s \<and>
     (ubi_create_step demo_spdk)\<^sup>*\<^sup>* s t \<and>
     filter is_done (calls (cs_world t)) = [Create_done 5 (Some 10) rc] \<and>
     g_ubi_bdev_head (cs_world t) = (if rc = 0 then [10] else [])"
proof -
  obtain s u t where r: "bdev_ubi_create demo_spdk (Some (demo_opts False)) demo_ctx demo_world = Inr s"
    "ubi_create_step demo_spdk s u" "ubi_create_step demo_spdk u t" "\<not> flow_waiting t"
    using demo_load_run by blast
  then have n: "(ubi_create_step demo_spdk)\<^sup>*\<^sup>* s t"
    by (meson converse_rtranclp_into_rtranclp r_into_rtranclp)
  have c: "sp_calloc demo_spdk = Some 10" "calls demo_world = []" "\<not> registerd demo_ctx"
    "done_arg demo_ctx = 5" "g_ubi_bdev_head demo_world = []"
    by (simp_all add: demo_defs)
  obtain rc where "filter is_done (calls (cs_world t)) = [Create_done 5 (Some 10) rc]"
    "g_ubi_bdev_head (cs_world t) = (if rc = 0 then [10] else [])"
    using create_flow_outcome [OF r(1) c(1-3) n r(4)] unfolding c(4,5) by auto
  with r(1) n show ?thesis by blast
qed

end
