(* ===== verification/Ubi_Device.thy ===== *)
theory Ubi_Device
  imports Ubi_Bdev
begin

text \<open>
  A ubi block device in use: deletion and destruction (\<open>bdev_ubi_delete\<close>, \<open>ubi_destruct\<close> and the
  callbacks that follow it), the external snapshot device that the blobstore asks for
  (\<open>ubi_esnap_dev_create\<close>), its I/O channels (\<open>src/lib/bdev_ubi_io_channel.c\<close>) and its requests
  (\<open>ubi_submit_request\<close>, \<open>ubi_blob_io_complete\<close>).
\<close>

section \<open>Deletion and destruction\<close>

text \<open>
  \<open>bdev_ubi_delete\<close>: \<open>arg\<close> identifies the caller's callback. On success SPDK calls it later.
\<close>

definition bdev_ubi_delete :: "spdk \<Rightarrow> string \<Rightarrow> nat \<Rightarrow> ubi_world \<Rightarrow> ubi_world" where
  "bdev_ubi_delete E name arg W =
     (let W1 = call [Unregister_by_name name] W; rc = sp_unregister_by_name E name in
      if rc \<noteq> 0 then call [Delete_cb arg rc] W1 else W1)"

definition device_unregister_cb :: "nat \<Rightarrow> ubi_world \<Rightarrow> ubi_world c_result" where
  "device_unregister_cb p W = c_bind (deref W p) (\<lambda>_. Inr (W\<lparr>heap := (heap W)(p := None)\<rparr>))"

text \<open>
  \<open>ubi_destruct\<close>. \<open>TAILQ_REMOVE\<close> writes through the links of the element, which are null in a device that was
  never put on the list.
\<close>

definition ubi_destruct :: "nat \<Rightarrow> ubi_world \<Rightarrow> (int \<times> ubi_world) c_result" where
  "ubi_destruct p W =
     c_bind (deref W p) (\<lambda>b.
       if p \<notin> set (g_ubi_bdev_head W) then Inl Null_deref
       else let W1 = W\<lparr>g_ubi_bdev_head := remove1 p (g_ubi_bdev_head W)\<rparr> in
       c_bind (case blob b of
           Some bl \<Rightarrow> Inr (call [Blob_close bl] W1)
         | None \<Rightarrow> ubi_destruct_blob_close_cb p 0 W1) (\<lambda>W2.
       Inr (0, call [Io_device_unregister p True] W2)))"

text \<open>The events that follow a destruction.\<close>

datatype teardown_event = Ev_blob_closed int | Ev_bs_unloaded int | Ev_unregistered

fun teardown_step :: "nat \<Rightarrow> teardown_event \<Rightarrow> ubi_world \<Rightarrow> ubi_world c_result" where
  "teardown_step p (Ev_blob_closed rc) W = ubi_destruct_blob_close_cb p rc W"
| "teardown_step p (Ev_bs_unloaded rc) W = ubi_destruct_bs_unload_cb p rc W"
| "teardown_step p Ev_unregistered W = device_unregister_cb p W"

fun teardown :: "nat \<Rightarrow> teardown_event list \<Rightarrow> ubi_world \<Rightarrow> ubi_world c_result" where
  "teardown p [] W = Inr W"
| "teardown p (ev # evs) W = c_bind (teardown_step p ev W) (teardown p evs)"

section \<open>The external snapshot device\<close>

text \<open>
  \<open>ubi_esnap_dev_create\<close>: the blobstore asks for the device behind a blob. The result is the return
  code and the device, null when the constructor failed.
\<close>

definition ubi_esnap_dev_create ::
  "spdk \<Rightarrow> (u64 \<Rightarrow> u64) \<Rightarrow> uring_create_env \<Rightarrow> ubi_bdev \<Rightarrow> posix \<Rightarrow>
   (int \<times> bs_dev_uring option \<times> posix) c_result" where
  "ubi_esnap_dev_create E u64log2 ue b P =
     c_bind (sp_cluster_size E (blobstore b)) (\<lambda>csz.
     c_bind (bs_dev_uring_create u64log2 ue (c_str (image_path b)) (Some (c_str (snapshot_path b)))
               (bdev_blocklen b) (ucast csz) (directio b) P) (\<lambda>(dev, reg, P1).
       Inr (0, dev, P1)))"

section \<open>I/O channels\<close>

record ubi_io_channel =
  ch_ubi_bdev :: nat
  ch_poller :: bool
  ch_bs_channel :: "nat option"

text \<open>\<open>bs_ch\<close> is what \<open>spdk_bs_alloc_io_channel\<close> returns.\<close>

definition ubi_create_channel_cb :: "nat \<Rightarrow> nat option \<Rightarrow> int \<times> ubi_io_channel" where
  "ubi_create_channel_cb p bs_ch =
     (let ch = \<lparr>ch_ubi_bdev = p, ch_poller = True, ch_bs_channel = bs_ch\<rparr> in
      if bs_ch = None then (- ENOMEM, ch) else (0, ch))"

definition ubi_destroy_channel_cb :: "ubi_io_channel \<Rightarrow> ubi_io_channel" where
  "ubi_destroy_channel_cb ch = ch\<lparr>ch_poller := False, ch_bs_channel := None\<rparr>"

definition ubi_io_poll :: "ubi_io_channel \<Rightarrow> poller_rc" where
  "ubi_io_poll ch = Poller_idle"

section \<open>Requests\<close>

datatype io_type =
    IO_READ | IO_WRITE | IO_FLUSH | IO_UNMAP | IO_RESET | IO_WRITE_ZEROES | IO_OTHER nat

datatype io_status = IO_SUCCESS | IO_FAILED

record bdev_io =
  io_id :: nat
  io_kind :: io_type
  io_iovs :: "iovec list"
  offset_blocks :: u64
  num_blocks :: u64

datatype io_call =
    Blob_io_readv "nat option" "nat option" "iovec list" u64 u64 nat
  | Blob_io_writev "nat option" "nat option" "iovec list" u64 u64 nat
  | Bdev_io_complete nat io_status

fun ubi_io_type_supported :: "io_type \<Rightarrow> bool" where
  "ubi_io_type_supported IO_READ = True"
| "ubi_io_type_supported IO_WRITE = True"
| "ubi_io_type_supported IO_FLUSH = True"
| "ubi_io_type_supported _ = False"

definition ubi_get_io_channel :: "nat \<Rightarrow> thread_call list" where
  "ubi_get_io_channel ctx = [Get_io_channel ctx]"

text \<open>An event of the base bdev is logged and nothing else; the module hooks do nothing.\<close>

definition ubi_handle_base_bdev_event :: "nat \<Rightarrow> ubi_world \<Rightarrow> ubi_world" where
  "ubi_handle_base_bdev_event event W = W"

definition ubi_initialize :: "ubi_world \<Rightarrow> int \<times> ubi_world" where
  "ubi_initialize W = (0, W)"

definition ubi_finish :: "ubi_world \<Rightarrow> ubi_world" where
  "ubi_finish W = W"

definition ubi_blob_io_complete :: "nat \<Rightarrow> int \<Rightarrow> io_call list" where
  "ubi_blob_io_complete io bserrno =
     [Bdev_io_complete io (if bserrno \<noteq> 0 then IO_FAILED else IO_SUCCESS)]"

definition ubi_submit_request :: "ubi_bdev \<Rightarrow> ubi_io_channel \<Rightarrow> bdev_io \<Rightarrow> io_call list" where
  "ubi_submit_request b ch io =
     (let bl = blob b; blob_ch = ch_bs_channel ch; off = offset_blocks io; len = num_blocks io in
      case io_kind io of
        IO_READ \<Rightarrow> [Blob_io_readv bl blob_ch (io_iovs io) off len (io_id io)]
      | IO_WRITE \<Rightarrow> [Blob_io_writev bl blob_ch (io_iovs io) off len (io_id io)]
      | IO_FLUSH \<Rightarrow> [Bdev_io_complete (io_id io) IO_SUCCESS]
      | _ \<Rightarrow> [Bdev_io_complete (io_id io) IO_FAILED])"

text \<open>
  A run of a device's request path: the bdev layer submits requests, the blobstore completes the blob
  operations it was given, each once, in any order. A state is the requests submitted, the blob
  operations in flight, and the completions reported to the bdev layer.
\<close>

fun blob_ops :: "io_call list \<Rightarrow> nat list" where
  "blob_ops [] = []"
| "blob_ops (Blob_io_readv _ _ _ _ _ i # cs) = i # blob_ops cs"
| "blob_ops (Blob_io_writev _ _ _ _ _ i # cs) = i # blob_ops cs"
| "blob_ops (Bdev_io_complete _ _ # cs) = blob_ops cs"

fun completions :: "io_call list \<Rightarrow> (nat \<times> io_status) list" where
  "completions [] = []"
| "completions (Bdev_io_complete i s # cs) = (i, s) # completions cs"
| "completions (_ # cs) = completions cs"

inductive ubi_io_run ::
  "ubi_bdev \<Rightarrow> ubi_io_channel \<Rightarrow>
   bdev_io list \<Rightarrow> nat multiset \<Rightarrow> (nat \<times> io_status) list \<Rightarrow> bool" for b ch where
  idle: "ubi_io_run b ch [] {#} []"
| request: "ubi_io_run b ch ios fl dn \<Longrightarrow> cs = ubi_submit_request b ch io \<Longrightarrow>
    ubi_io_run b ch (ios @ [io]) (fl + mset (blob_ops cs)) (dn @ completions cs)"
| blob_done: "ubi_io_run b ch ios fl dn \<Longrightarrow> i \<in># fl \<Longrightarrow> cs = ubi_blob_io_complete i rc \<Longrightarrow>
    ubi_io_run b ch ios (fl - {#i#} + mset (blob_ops cs)) (dn @ completions cs)"

section \<open>Teardown\<close>

lemma teardown_freed:
  assumes "heap W p = None"
  shows "(\<exists>W'. teardown p evs W = Inr W') \<longleftrightarrow> (\<forall>ev \<in> set evs. ev = Ev_bs_unloaded 0)"
  using assms
proof (induction evs arbitrary: W)
  case (Cons ev evs)
  then show ?case
    by (cases ev) (auto simp: ubi_destruct_blob_close_cb_def ubi_destruct_bs_unload_cb_def
        device_unregister_cb_def deref_def split: if_splits)
qed simp

lemma teardown_live:
  assumes "heap W p = Some b" and "Ev_unregistered \<notin> set evs"
  shows "\<exists>W'. teardown p evs W = Inr W' \<and> heap W' = heap W \<and>
    g_ubi_bdev_head W' = g_ubi_bdev_head W"
  using assms
proof (induction evs arbitrary: W)
  case (Cons ev evs)
  have "\<exists>W1. teardown_step p ev W = Inr W1 \<and> heap W1 = heap W \<and> g_ubi_bdev_head W1 = g_ubi_bdev_head W"
    using Cons.prems
    by (cases ev) (auto simp: ubi_destruct_blob_close_cb_def ubi_destruct_bs_unload_cb_def deref_def
        split: option.splits)
  then obtain W1 where W1: "teardown_step p ev W = Inr W1" "heap W1 = heap W"
    "g_ubi_bdev_head W1 = g_ubi_bdev_head W" by blast
  with Cons.IH [of W1] Cons.prems show ?case by simp
qed simp

lemma teardown_append: "teardown p (xs @ ys) W = c_bind (teardown p xs W) (teardown p ys)"
proof (induction xs arbitrary: W)
  case (Cons x xs)
  then show ?case by (cases "teardown_step p x W") simp_all
qed simp

text \<open>
  C20. Which orders of the events after \<open>ubi_destruct\<close> are safe. The destruction closes the blob and asks
  SPDK to unregister the I/O device at once, without waiting for the close; the device is freed when
  SPDK calls back. A sequence of callbacks in which the device is freed once is free of undefined
  behaviour exactly when nothing but a successful unload of the blobstore is reported after it: a
  close of the blob that completes later reads freed memory.
\<close>

theorem teardown_order:
  assumes "heap W p = Some b" and "Ev_unregistered \<notin> set xs"
  shows "(\<exists>W'. teardown p (xs @ Ev_unregistered # ys) W = Inr W') \<longleftrightarrow>
         (\<forall>ev \<in> set ys. ev = Ev_bs_unloaded 0)"
proof -
  obtain W1 where W1: "teardown p xs W = Inr W1" "heap W1 = heap W"
    using teardown_live [OF assms] by blast
  have "teardown p (xs @ Ev_unregistered # ys) W = teardown p ys (W1\<lparr>heap := (heap W1)(p := None)\<rparr>)"
    using W1 assms(1) by (simp add: teardown_append device_unregister_cb_def deref_def)
  then show ?thesis
    using teardown_freed [of "W1\<lparr>heap := (heap W1)(p := None)\<rparr>" p ys] by simp
qed

definition demo_bdev :: ubi_bdev where
  "demo_bdev = zero_ubi_bdev\<lparr>bdev_name := ''ubi0'', blobstore := Some 30, blob := Some 40\<rparr>"

theorem teardown_order_witness:
  defines "W \<equiv> demo_world\<lparr>heap := [10 \<mapsto> demo_bdev]\<rparr>"
  shows "(\<exists>W'. teardown 10 [Ev_blob_closed 0, Ev_bs_unloaded 0, Ev_unregistered] W = Inr W') \<and>
    \<not> (\<exists>W'. teardown 10 [Ev_unregistered, Ev_blob_closed 0] W = Inr W')"
proof -
  have h: "heap W 10 = Some demo_bdev"
    by (simp add: W_def)
  show ?thesis
    using teardown_order [OF h, of "[Ev_blob_closed 0, Ev_bs_unloaded 0]" "[]"]
      teardown_order [OF h, of "[]" "[Ev_blob_closed 0]"] by simp
qed

text \<open>
  C32. The orderly teardown of an open device: \<open>ubi_destruct\<close> takes it off the module's list, closes the
  blob and unregisters the I/O device; when the close completes, the blobstore is unloaded, whatever
  the status of the close; and when the I/O device is gone, this device's memory is released and no
  other device is touched. For a device that is not on the list the removal is undefined.
\<close>

theorem teardown_in_order:
  assumes "heap W p = Some b" and "blob b = Some bl" and "blobstore b = Some bs"
  shows "if p \<in> set (g_ubi_bdev_head W)
    then \<exists>W1 W2. ubi_destruct p W = Inr (0, W1) \<and>
      g_ubi_bdev_head W1 = remove1 p (g_ubi_bdev_head W) \<and>
      calls W1 = calls W @ [Blob_close bl, Io_device_unregister p True] \<and>
      teardown p [Ev_blob_closed rc, Ev_bs_unloaded rc', Ev_unregistered] W1 = Inr W2 \<and>
      g_ubi_bdev_head W2 = remove1 p (g_ubi_bdev_head W) \<and>
      calls W2 = calls W1 @ [Bs_unload bs] \<and> heap W2 = (heap W)(p := None)
    else ubi_destruct p W = Inl Null_deref"
  using assms
  by (auto simp: ubi_destruct_def device_unregister_cb_def ubi_destruct_blob_close_cb_def
      ubi_destruct_bs_unload_cb_def deref_def)

theorem teardown_in_order_witness:
  defines "W \<equiv> demo_world\<lparr>heap := [10 \<mapsto> demo_bdev], g_ubi_bdev_head := [9, 10]\<rparr>"
  shows "\<exists>W1 W2. ubi_destruct 10 W = Inr (0, W1) \<and>
    teardown 10 [Ev_blob_closed (- EIO), Ev_bs_unloaded 0, Ev_unregistered] W1 = Inr W2 \<and>
    g_ubi_bdev_head W2 = [9] \<and> heap W2 10 = None"
  using teardown_in_order [of W 10 demo_bdev 40 30 "- EIO" 0]
  by (auto simp: W_def demo_bdev_def)

section \<open>Requests: theorems\<close>

lemma submit_request_answers:
  "map fst (completions (ubi_submit_request b ch io)) @ blob_ops (ubi_submit_request b ch io) = [io_id io]"
  by (cases "io_kind io") (simp_all add: ubi_submit_request_def)

text \<open>
  C18. Every request submitted to a ubi device is answered exactly once: along every run the requests
  submitted are, with multiplicity, those completed and those whose blob operation is in flight.
\<close>

theorem ubi_io_answered_once:
  assumes "ubi_io_run b ch ios fl dn"
  shows "mset (map io_id ios) = fl + mset (map fst dn)"
  using assms
proof (induction rule: ubi_io_run.induct)
  case (request ios fl dn cs io)
  have "mset (map fst (completions cs)) + mset (blob_ops cs) = {#io_id io#}"
    using arg_cong [OF submit_request_answers [of b ch io], of mset] request.hyps(2) by simp
  with request.IH show ?case by (simp add: ac_simps)
next
  case (blob_done ios fl dn i cs rc)
  then show ?case
    by (simp add: ubi_blob_io_complete_def)
qed simp

definition demo_channel :: ubi_io_channel where
  "demo_channel = \<lparr>ch_ubi_bdev = 10, ch_poller = True, ch_bs_channel = Some 50\<rparr>"

definition demo_io :: "nat \<Rightarrow> io_type \<Rightarrow> bdev_io" where
  "demo_io i k = \<lparr>io_id = i, io_kind = k, io_iovs = [], offset_blocks = 8, num_blocks = 1\<rparr>"

theorem ubi_io_answered_once_witness:
  "\<exists>fl dn. ubi_io_run demo_bdev demo_channel [demo_io 1 IO_READ, demo_io 2 IO_FLUSH] fl dn \<and>
     mset [1, 2] = fl + mset (map fst dn)"
proof -
  have "ubi_io_run demo_bdev demo_channel ([] @ [demo_io 1 IO_READ]) ({#} + {#1#}) ([] @ [])"
    using ubi_io_run.request [OF ubi_io_run.idle refl, of demo_bdev demo_channel "demo_io 1 IO_READ"]
    by (simp add: ubi_submit_request_def demo_io_def)
  from ubi_io_run.request [OF this refl, of "demo_io 2 IO_FLUSH"] show ?thesis
    using ubi_io_answered_once by (fastforce simp: demo_io_def)
qed

section \<open>The external snapshot device: theorems\<close>

text \<open>The part of a device's state that the creation flow never changes once it is set.\<close>

definition config_kept :: "ubi_world \<Rightarrow> ubi_world \<Rightarrow> bool" where
  "config_kept W W' \<longleftrightarrow> (\<forall>p b. heap W p = Some b \<longrightarrow> (\<exists>b'. heap W' p = Some b' \<and>
     bdev_name b' = bdev_name b \<and> image_path b' = image_path b \<and> snapshot_path b' = snapshot_path b \<and> directio b' = directio b))"

lemma config_kept_refl [simp]: "config_kept W W"
  by (simp add: config_kept_def)

lemma config_kept_trans: "config_kept W1 W2 \<Longrightarrow> config_kept W2 W3 \<Longrightarrow> config_kept W1 W3"
  unfolding config_kept_def by metis

lemma config_kept_call [simp]: "config_kept W (call cs W') = config_kept W W'"
  by (simp add: config_kept_def)

lemma config_kept_store:
  assumes "heap W p = Some b" and "bdev_name b' = bdev_name b" and "image_path b' = image_path b" and "snapshot_path b' = snapshot_path b"
    and "directio b' = directio b"
  shows "config_kept W (store p b' W)"
  using assms by (auto simp: config_kept_def)

lemma config_kept_updates:
  shows config_kept_blobstore: "heap W p = Some b \<Longrightarrow> config_kept W (store p (b\<lparr>blobstore := x\<rparr>) W)"
    and config_kept_blobid: "heap W p = Some b \<Longrightarrow> config_kept W (store p (b\<lparr>blobid := i\<rparr>) W)"
    and config_kept_blob: "heap W p = Some b \<Longrightarrow> config_kept W (store p (b\<lparr>blob := bl, blobid := i\<rparr>) W)"
  by (rule config_kept_store; simp)+

lemma finish_create_config:
  assumes "ubi_finish_create E st ctx W = Inr t"
  shows "config_kept W (cs_world t)"
proof -
  from assms obtain rc W1 W2 where
    r: "(if st = 0 then finish_register E ctx W else Inr (st, W)) = Inr (rc, W1)"
      "(if rc \<noteq> 0 then finish_release ctx W1 else Inr W1) = Inr W2" and t: "heap (cs_world t) = heap W2"
    by (auto simp: ubi_finish_create_def)
  have "config_kept W W1"
    using r(1) by (auto simp: finish_register_def ctx_bdev_Inr_iff Let_def config_kept_def split: if_splits)
  moreover have "heap W2 = heap W1"
    using r(2) by (auto simp: finish_release_def ubi_destruct_blob_close_cb_def
        ubi_destruct_bs_unload_cb_def Let_def split: if_splits option.splits)
  ultimately show ?thesis
    by (simp add: config_kept_def t)
qed

lemma create_step_config:
  assumes "ubi_create_step E s t"
  shows "config_kept (cs_world s) (cs_world t)"
  using assms
proof (cases rule: ubi_create_step.cases)
  case (bs_init bs rc)
  then show ?thesis
    by (auto simp: ubi_bs_init_complete_def ctx_bdev_Inr_iff Let_def split: if_splits
        intro!: config_kept_blobstore dest: finish_create_config)
next
  case (blob_create bid rc)
  then show ?thesis
    by (auto simp: ubi_blob_create_complete_def ctx_bdev_Inr_iff split: if_splits option.splits
        intro!: config_kept_blobid dest: finish_create_config)
next
  case (blob_snapshot bid rc)
  then show ?thesis
    by (auto simp: ubi_blob_snapshot_complete_def ctx_bdev_Inr_iff split: if_splits option.splits
        intro: finish_create_config)
next
  case (blob_open bl rc)
  then show ?thesis
    by (auto simp: ubi_blob_open_complete_def ctx_bdev_Inr_iff split: if_splits
        intro: finish_create_config config_kept_trans [OF config_kept_blob])
qed

lemma create_run_config:
  "(ubi_create_step E)\<^sup>*\<^sup>* s t \<Longrightarrow> config_kept (cs_world s) (cs_world t)"
  by (induction rule: rtranclp_induct) (auto intro: config_kept_trans create_step_config)

lemma c_str_path_array: "NUL \<notin> set s \<Longrightarrow> c_str (path_array s) = take 1023 s"
  using c_str_strncpy_terminated [of s 1023] by (simp add: path_array_def UBI_PATH_LEN_def)

lemma c_str_zeroed: "c_str ((replicate (Suc n) NUL)[0 := NUL]) = []"
  by (simp add: c_str_def)

lemma create_start_config:
  assumes "bdev_ubi_create E (Some opts) ctx W = Inr s" and "sp_calloc E = Some p" and "flow_waiting s"
  shows "\<exists>b. heap (cs_world s) p = Some b \<and> bdev_name b = o_name opts \<and> image_path b = path_array (o_image_path opts) \<and>
    snapshot_path b = (case o_snapshot_path opts of Some sp \<Rightarrow> path_array sp
                       | None \<Rightarrow> (replicate UBI_PATH_LEN NUL)[0 := NUL]) \<and> \<not> directio b"
  using assms
  by (auto simp: bdev_ubi_create_def init_ubi_bdev_def zero_ubi_bdev_def Let_def
      split: if_splits prod.splits option.splits dest!: finish_create_answers)

lemma create_early_status:
  assumes "bdev_ubi_create E (Some opts) ctx W = Inr s" and "sp_calloc E = Some p" and "calls W = []"
    and "\<not> flow_waiting s"
  shows "\<exists>rc. rc \<noteq> 0 \<and> filter is_done (calls (cs_world s)) = [Create_done (done_arg ctx) (Some p) rc]"
proof -
  obtain st W' where "ubi_finish_create E st (ctx\<lparr>cx_ubi_bdev := Some p\<rparr>) W' = Inr s" "st \<noteq> 0"
    "calls W' = []"
    using assms by (auto simp: bdev_ubi_create_def Let_def flow_waiting_def split: if_splits prod.splits)
  then show ?thesis
    using finish_create_outcome [of E st "ctx\<lparr>cx_ubi_bdev := Some p\<rparr>" W' s p] by auto
qed

text \<open>A device whose flow reports success has the name that the options gave it.\<close>

lemma created_name:
  assumes "bdev_ubi_create E (Some opts) ctx W = Inr s" and "sp_calloc E = Some p" and "calls W = []"
    and "(ubi_create_step E)\<^sup>*\<^sup>* s t"
    and "filter is_done (calls (cs_world t)) = [Create_done a (Some p) 0]"
  shows "\<exists>b. heap (cs_world t) p = Some b \<and> bdev_name b = o_name opts"
proof (cases "flow_waiting s")
  case True
  then show ?thesis
    using create_start_config [OF assms(1,2)] create_run_config [OF assms(4)]
    by (fastforce simp: config_kept_def)
next
  case False
  then have "t = s"
    using assms(4) no_step_when_done by (auto elim: converse_rtranclpE)
  then show ?thesis
    using create_early_status [OF assms(1-3) False] assms(5) by auto
qed

lemma uring_create_fits:
  assumes "length fname < 1024" and "length sp < 1024"
  shows "bs_dev_uring_create lg ue fname (Some sp) blen csz dio P \<noteq> Inl Buffer_overflow"
  using assms
  by (auto simp: bs_dev_uring_create_def offset_mask_def c_strcpy_def c_bind_Inl_iff Let_def
      split: prod.splits)

lemma uring_create_fields:
  assumes "bs_dev_uring_create lg ue fname (Some sp) blen csz dio P = Inr (Some d, reg, P')"
    and "NUL \<notin> set fname" and "NUL \<notin> set sp"
  shows "c_str (u_filename d) = fname \<and> c_str (u_snapshot_path d) = sp \<and> u_directio d = dio"
  using assms
  by (auto simp: bs_dev_uring_create_def Let_def split: if_splits prod.splits dest!: c_strcpy_str [rotated])

text \<open>
  C16. The image device that the blobstore gets for a ubi device, at any point of the creation flow. The
  paths in the device are the options' paths cut to 1023 characters, so the unchecked \<open>strcpy\<close> calls of
  \<open>bs_dev_uring_create\<close> cannot overrun their buffers; the image device names the cut image path and the
  cut snapshot path (none when the options had none); and it never uses direct I/O, whatever the
  options asked for. The blobstore's cluster size, an SPDK call, is assumed not to overrun a buffer.
\<close>

theorem esnap_device_config:
  assumes "bdev_ubi_create E (Some opts) ctx W = Inr s" and "sp_calloc E = Some p" and "flow_waiting s"
    and "(ubi_create_step E)\<^sup>*\<^sup>* s t" and "heap (cs_world t) p = Some b"
    and "NUL \<notin> set (o_image_path opts)" and "\<And>sp. o_snapshot_path opts = Some sp \<Longrightarrow> NUL \<notin> set sp"
    and "sp_cluster_size E (blobstore b) \<noteq> Inl Buffer_overflow"
  shows "ubi_esnap_dev_create E lg ue b P \<noteq> Inl Buffer_overflow \<and>
    (\<forall>rc d P'. ubi_esnap_dev_create E lg ue b P = Inr (rc, Some d, P') \<longrightarrow>
       c_str (u_filename d) = take 1023 (o_image_path opts) \<and>
       c_str (u_snapshot_path d) =
         (case o_snapshot_path opts of Some sp \<Rightarrow> take 1023 sp | None \<Rightarrow> []) \<and>
       \<not> u_directio d)"
proof -
  have b: "image_path b = path_array (o_image_path opts)" "\<not> directio b"
    "snapshot_path b = (case o_snapshot_path opts of Some sp \<Rightarrow> path_array sp
                       | None \<Rightarrow> (replicate UBI_PATH_LEN NUL)[0 := NUL])"
    using create_start_config [OF assms(1-3)] create_run_config [OF assms(4)] assms(5)
    by (fastforce simp: config_kept_def)+
  have img: "c_str (image_path b) = take 1023 (o_image_path opts)"
    using assms(6) by (simp add: b(1) c_str_path_array)
  have snp: "c_str (snapshot_path b) =
      (case o_snapshot_path opts of Some sp \<Rightarrow> take 1023 sp | None \<Rightarrow> [])"
    using assms(7) c_str_zeroed [of 1023]
    by (auto simp: b(3) c_str_path_array UBI_PATH_LEN_def split: option.splits)
  have fits: "length (c_str (image_path b)) < 1024" "length (c_str (snapshot_path b)) < 1024"
    unfolding img snp by (auto simp: min_def split: option.splits)
  show ?thesis
    using assms(8) b(2) uring_create_fits [OF fits] uring_create_fields [of lg ue "c_str (image_path b)"]
    by (auto simp: ubi_esnap_dev_create_def c_bind_Inl_iff img [symmetric] snp [symmetric])
qed

text \<open>
  A missing image file is not reported to the blobstore: \<open>ubi_esnap_dev_create\<close> returns 0 and hands out
  a null device. The creation of a device succeeds or fails independently of whether its image exists.
\<close>

theorem esnap_missing_image:
  assumes "sp_cluster_size E (blobstore b) = Inr csz" and "files P (c_str (image_path b)) = None"
  shows "ubi_esnap_dev_create E lg ue b P = Inr (0, None, P)"
  using assms by (auto simp: ubi_esnap_dev_create_def bs_dev_uring_create_def)

theorem esnap_device_config_witness:
  defines "P \<equiv> \<lparr>files = [''img'' \<mapsto> empty_file], fds = Map.empty\<rparr>"
  defines "ue \<equiv> \<lparr>uc_calloc = True, uc_stat = 0, uc_open = 3, uc_read = 0\<rparr>"
  shows "\<exists>s b. bdev_ubi_create demo_spdk (Some (demo_opts False)) demo_ctx demo_world = Inr s \<and>
     heap (cs_world s) 10 = Some b \<and>
     ubi_esnap_dev_create demo_spdk ilog2 ue b P \<noteq> Inl Buffer_overflow \<and>
     (\<forall>rc d P'. ubi_esnap_dev_create demo_spdk ilog2 ue b P = Inr (rc, Some d, P') \<longrightarrow>
        c_str (u_filename d) = ''img'' \<and> \<not> u_directio d)"
proof -
  obtain s where s: "bdev_ubi_create demo_spdk (Some (demo_opts False)) demo_ctx demo_world = Inr s"
    using demo_load_run by blast
  have c: "sp_calloc demo_spdk = Some 10" "o_image_path (demo_opts False) = ''img''"
    "o_snapshot_path (demo_opts False) = None"
    by (simp_all add: demo_defs)
  have w: "flow_waiting s"
    using s by (auto simp: bdev_ubi_create_def Let_def flow_waiting_def demo_defs)
  obtain b where b: "heap (cs_world s) 10 = Some b"
    using create_start_config [OF s c(1) w] by blast
  have k: "sp_cluster_size demo_spdk (blobstore b) \<noteq> Inl Buffer_overflow"
    by (simp add: demo_defs)
  note h = esnap_device_config [OF s c(1) w rtranclp.rtrancl_refl b _ _ k, of ilog2 ue P]
  show ?thesis
    using s b h by (intro exI [of _ s] exI [of _ b]) (simp add: c)
qed

end
