(* ===== verification/Ubi_Snapshot.thy ===== *)
theory Ubi_Snapshot
  imports Ubi_Bdev
begin

text \<open>
  The snapshot flow of \<open>src/lib/bdev_ubi_snapshot.c\<close>: a blobstore snapshot of the device's blob, and
  when a path is given a read-only clone of it that is decoupled from its parent and copied,
  cluster by cluster, into a delta device for that path.

  The flow is a chain of callbacks that carries a heap-allocated context. SPDK's synchronous results
  are fields of \<open>snap_env\<close>, what it delivers to a callback an argument of the callback, and every call
  into it an entry of the trace. The client is answered as soon as the copy has been started; the
  copy then reports its progress and its end through two more callbacks.
\<close>

section \<open>Data\<close>

record snapshot_context =
  sc_cb_arg :: nat
  sc_ubi_bdev :: nat
  snapshot_blobid :: u64
  clone_blobid :: u64
  sc_ch :: "nat option"
  shallow_copy_bs_dev :: "bs_dev_delta option"
  sc_path :: "string option"

datatype snap_call =
    Sn_create_snapshot "nat option" u64
  | Sn_alloc_channel "nat option"
  | Sn_create_clone "nat option" u64
  | Sn_open_blob "nat option" u64
  | Sn_set_read_only nat
  | Sn_close nat
  | Sn_decouple_parent "nat option" "nat option" u64
  | Sn_shallow_copy "nat option" "nat option" u64 "bs_dev_delta option"
  | Sn_cb nat int
  | Sn_dev_destroy bs_dev_delta
  | Sn_free_channel nat
  | Sn_free_ctx

record snap_world =
  sw_heap :: "nat \<rightharpoonup> ubi_bdev"
  sw_calls :: "snap_call list"

text \<open>
  What the synchronous functions of SPDK and libc return: the address of the block device with a
  name, whether an allocation succeeds, the blobstore's geometry, the status of two requests.
\<close>

record snap_env =
  se_get_by_name :: "string \<Rightarrow> nat option"
  se_calloc :: bool
  se_strdup :: bool
  se_alloc_channel :: "nat option"
  se_set_read_only :: "nat \<Rightarrow> int"
  se_total_clusters :: "nat option \<Rightarrow> u64 c_result"
  se_cluster_size :: "nat option \<Rightarrow> u64 c_result"
  se_delta_calloc :: bool
  se_shallow_copy :: "bs_dev_delta option \<Rightarrow> int c_result"

datatype snap_cb =
    Sc_snapshot_create
  | Sc_clone_create
  | Sc_open_clone
  | Sc_close_clone
  | Sc_decouple_parent
  | Sc_copying

text \<open>A state of the flow: its context while allocated, and the callback SPDK holds.\<close>

record snap_state =
  ss_ctx :: "snapshot_context option"
  ss_world :: snap_world
  ss_pending :: "snap_cb option"

section \<open>Operations\<close>

text \<open>An access to the \<open>struct ubi_bdev\<close> at an address; there may be none.\<close>

definition sderef :: "snap_world \<Rightarrow> nat \<Rightarrow> ubi_bdev c_result" where
  "sderef W p = (case sw_heap W p of None \<Rightarrow> Inl Out_of_bounds | Some b \<Rightarrow> Inr b)"

definition sstore :: "nat \<Rightarrow> ubi_bdev \<Rightarrow> snap_world \<Rightarrow> snap_world" where
  "sstore p b W = W\<lparr>sw_heap := (sw_heap W)(p \<mapsto> b)\<rparr>"

definition scall :: "snap_call list \<Rightarrow> snap_world \<Rightarrow> snap_world" where
  "scall cs W = W\<lparr>sw_calls := sw_calls W @ cs\<rparr>"

definition set_status :: "(snapshot_status \<Rightarrow> snapshot_status) \<Rightarrow> ubi_bdev \<Rightarrow> ubi_bdev" where
  "set_status f b = b\<lparr>snap_status := f (snap_status b)\<rparr>"

definition cleanup_snapshot_context :: "snapshot_context \<Rightarrow> snap_world \<Rightarrow> snap_world" where
  "cleanup_snapshot_context ctx W =
     scall ((case shallow_copy_bs_dev ctx of Some d \<Rightarrow> [Sn_dev_destroy d] | None \<Rightarrow> []) @
            (case sc_ch ctx of Some c \<Rightarrow> [Sn_free_channel c] | None \<Rightarrow> []) @ [Sn_free_ctx]) W"

text \<open>The error branch that the callbacks share: record the status, answer, clean up.\<close>

definition snapshot_fail :: "int \<Rightarrow> snapshot_context \<Rightarrow> ubi_bdev \<Rightarrow> snap_world \<Rightarrow> snap_state" where
  "snapshot_fail rc ctx b W =
     \<lparr>ss_ctx = None,
      ss_world = cleanup_snapshot_context ctx (scall [Sn_cb (sc_cb_arg ctx) rc]
        (sstore (sc_ubi_bdev ctx) (set_status (\<lambda>st. st\<lparr>snap_result := rc\<rparr>) b) W)),
      ss_pending = None\<rparr>"

definition ubi_shallow_copy_complete_cb ::
  "snapshot_context \<Rightarrow> snap_world \<Rightarrow> int \<Rightarrow> snap_state c_result" where
  "ubi_shallow_copy_complete_cb ctx W rc =
     c_bind (sderef W (sc_ubi_bdev ctx)) (\<lambda>b.
       let b1 = (if rc \<noteq> 0 then set_status (\<lambda>st. st\<lparr>snap_result := rc\<rparr>) b else b);
           W1 = cleanup_snapshot_context ctx W;
           b2 = set_status (\<lambda>st. st\<lparr>in_progress := False\<rparr>) b1 in
       Inr \<lparr>ss_ctx = None, ss_world = sstore (sc_ubi_bdev ctx) b2 W1, ss_pending = None\<rparr>)"

definition ubi_shallow_copy_status_cb ::
  "snapshot_context \<Rightarrow> snap_world \<Rightarrow> u64 \<Rightarrow> snap_state c_result" where
  "ubi_shallow_copy_status_cb ctx W copied =
     c_bind (sderef W (sc_ubi_bdev ctx)) (\<lambda>b.
       Inr \<lparr>ss_ctx = Some ctx,
            ss_world = sstore (sc_ubi_bdev ctx) (set_status (\<lambda>st. st\<lparr>copied_clusters := copied\<rparr>) b) W,
            ss_pending = Some Sc_copying\<rparr>)"

definition ubi_start_snapshot ::
  "snap_env \<Rightarrow> snapshot_context \<Rightarrow> snap_world \<Rightarrow> int \<Rightarrow> snap_state c_result" where
  "ubi_start_snapshot E ctx W bserrno =
     c_bind (sderef W (sc_ubi_bdev ctx)) (\<lambda>b.
     if bserrno \<noteq> 0 then Inr (snapshot_fail bserrno ctx b W)
     else
       c_bind (se_total_clusters E (blobstore b)) (\<lambda>total.
       c_bind (se_cluster_size E (blobstore b)) (\<lambda>csz.
       case sc_path ctx of None \<Rightarrow> Inl Null_deref | Some path \<Rightarrow>
       c_bind (bs_dev_delta_create (se_delta_calloc E) path (bdev_blockcnt b) (bdev_blocklen b)
                 (ucast csz) BS_DEV_DELTA_WRITE) (\<lambda>(dev, reg).
       c_bind (se_shallow_copy E dev) (\<lambda>ret.
         let b1 = set_status (\<lambda>st. st\<lparr>in_progress := True, total_clusters := total\<rparr>) b in
         Inr \<lparr>ss_ctx = Some (ctx\<lparr>shallow_copy_bs_dev := dev\<rparr>),
              ss_world = scall [Sn_shallow_copy (blobstore b) (sc_ch ctx) (clone_blobid ctx) dev,
                                Sn_cb (sc_cb_arg ctx) ret] (sstore (sc_ubi_bdev ctx) b1 W),
              ss_pending = (if ret = 0 then Some Sc_copying else None)\<rparr>)))))"

definition ubi_decouple_parent_cb ::
  "snap_env \<Rightarrow> snapshot_context \<Rightarrow> snap_world \<Rightarrow> int \<Rightarrow> snap_state c_result" where
  "ubi_decouple_parent_cb E ctx W bserrno =
     c_bind (sderef W (sc_ubi_bdev ctx)) (\<lambda>b.
       if bserrno \<noteq> 0 then Inr (snapshot_fail bserrno ctx b W)
       else ubi_start_snapshot E ctx W 0)"

definition ubi_close_clone_cb :: "snapshot_context \<Rightarrow> snap_world \<Rightarrow> int \<Rightarrow> snap_state c_result" where
  "ubi_close_clone_cb ctx W bserrno =
     c_bind (sderef W (sc_ubi_bdev ctx)) (\<lambda>b.
       if bserrno \<noteq> 0 then Inr (snapshot_fail bserrno ctx b W)
       else Inr \<lparr>ss_ctx = Some ctx,
                 ss_world = scall [Sn_decouple_parent (blobstore b) (sc_ch ctx) (clone_blobid ctx)] W,
                 ss_pending = Some Sc_decouple_parent\<rparr>)"

definition ubi_open_clone_cb ::
  "snap_env \<Rightarrow> snapshot_context \<Rightarrow> snap_world \<Rightarrow> nat \<Rightarrow> int \<Rightarrow> snap_state c_result" where
  "ubi_open_clone_cb E ctx W bl bserrno =
     c_bind (sderef W (sc_ubi_bdev ctx)) (\<lambda>b.
       if bserrno \<noteq> 0 then Inr (snapshot_fail bserrno ctx b W)
       else let W1 = scall [Sn_set_read_only bl] W; ret = se_set_read_only E bl in
         if ret \<noteq> 0 then Inr (snapshot_fail ret ctx b W1)
         else Inr \<lparr>ss_ctx = Some ctx, ss_world = scall [Sn_close bl] W1,
                   ss_pending = Some Sc_close_clone\<rparr>)"

definition ubi_clone_create_cb ::
  "snapshot_context \<Rightarrow> snap_world \<Rightarrow> u64 \<Rightarrow> int \<Rightarrow> snap_state c_result" where
  "ubi_clone_create_cb ctx W bid bserrno =
     c_bind (sderef W (sc_ubi_bdev ctx)) (\<lambda>b.
       if bserrno \<noteq> 0 then Inr (snapshot_fail bserrno ctx b W)
       else Inr \<lparr>ss_ctx = Some (ctx\<lparr>clone_blobid := bid\<rparr>),
                 ss_world = scall [Sn_open_blob (blobstore b) bid] W,
                 ss_pending = Some Sc_open_clone\<rparr>)"

definition ubi_snapshot_create_cb ::
  "snap_env \<Rightarrow> snapshot_context \<Rightarrow> snap_world \<Rightarrow> u64 \<Rightarrow> int \<Rightarrow> snap_state c_result" where
  "ubi_snapshot_create_cb E ctx W bid bserrno =
     c_bind (sderef W (sc_ubi_bdev ctx)) (\<lambda>b.
       if bserrno \<noteq> 0 then Inr (snapshot_fail bserrno ctx b W)
       else case sc_path ctx of None \<Rightarrow> Inl Null_deref | Some path \<Rightarrow>
         if path = []
         then Inr \<lparr>ss_ctx = None,
                   ss_world = cleanup_snapshot_context ctx (scall [Sn_cb (sc_cb_arg ctx) 0] W),
                   ss_pending = None\<rparr>
         else Inr \<lparr>ss_ctx = Some (ctx\<lparr>snapshot_blobid := bid, sc_ch := se_alloc_channel E\<rparr>),
                   ss_world = scall [Sn_alloc_channel (blobstore b), Sn_create_clone (blobstore b) bid] W,
                   ss_pending = Some Sc_clone_create\<rparr>)"

text \<open>
  \<open>bdev_ubi_snapshot\<close>. The block device found by name is taken for the first member of a
  \<open>struct ubi_bdev\<close>, whatever module it belongs to; the new context is used without a check.
\<close>

definition bdev_ubi_snapshot ::
  "snap_env \<Rightarrow> string \<Rightarrow> string \<Rightarrow> nat \<Rightarrow> snap_world \<Rightarrow> snap_state c_result" where
  "bdev_ubi_snapshot E name path arg W =
     (case se_get_by_name E name of
        None \<Rightarrow> Inr \<lparr>ss_ctx = None, ss_world = scall [Sn_cb arg (- ENOENT)] W, ss_pending = None\<rparr>
      | Some p \<Rightarrow>
          c_bind (sderef W p) (\<lambda>b.
            if \<not> se_calloc E then Inl Null_deref
            else Inr \<lparr>ss_ctx = Some \<lparr>sc_cb_arg = arg, sc_ubi_bdev = p, snapshot_blobid = 0,
                        clone_blobid = 0, sc_ch = None, shallow_copy_bs_dev = None,
                        sc_path = (if se_strdup E then Some path else None)\<rparr>,
                      ss_world = scall [Sn_create_snapshot (blobstore b) (blobid b)] W,
                      ss_pending = Some Sc_snapshot_create\<rparr>))"

section \<open>The flow\<close>

text \<open>One step: SPDK calls the callback it holds, with a result of its choice.\<close>

inductive snap_step :: "snap_env \<Rightarrow> snap_state \<Rightarrow> snap_state \<Rightarrow> bool" for E where
  snapshot_created: "ss_pending s = Some Sc_snapshot_create \<Longrightarrow> ss_ctx s = Some ctx \<Longrightarrow>
    ubi_snapshot_create_cb E ctx (ss_world s) bid rc = Inr t \<Longrightarrow> snap_step E s t"
| clone_created: "ss_pending s = Some Sc_clone_create \<Longrightarrow> ss_ctx s = Some ctx \<Longrightarrow>
    ubi_clone_create_cb ctx (ss_world s) bid rc = Inr t \<Longrightarrow> snap_step E s t"
| clone_opened: "ss_pending s = Some Sc_open_clone \<Longrightarrow> ss_ctx s = Some ctx \<Longrightarrow>
    ubi_open_clone_cb E ctx (ss_world s) bl rc = Inr t \<Longrightarrow> snap_step E s t"
| clone_closed: "ss_pending s = Some Sc_close_clone \<Longrightarrow> ss_ctx s = Some ctx \<Longrightarrow>
    ubi_close_clone_cb ctx (ss_world s) rc = Inr t \<Longrightarrow> snap_step E s t"
| decoupled: "ss_pending s = Some Sc_decouple_parent \<Longrightarrow> ss_ctx s = Some ctx \<Longrightarrow>
    ubi_decouple_parent_cb E ctx (ss_world s) rc = Inr t \<Longrightarrow> snap_step E s t"
| copy_status: "ss_pending s = Some Sc_copying \<Longrightarrow> ss_ctx s = Some ctx \<Longrightarrow>
    ubi_shallow_copy_status_cb ctx (ss_world s) n = Inr t \<Longrightarrow> snap_step E s t"
| copy_complete: "ss_pending s = Some Sc_copying \<Longrightarrow> ss_ctx s = Some ctx \<Longrightarrow>
    ubi_shallow_copy_complete_cb ctx (ss_world s) rc = Inr t \<Longrightarrow> snap_step E s t"

text \<open>What SPDK delivers: the id of the snapshot or of the clone, the open clone, a number of clusters; and a status.\<close>

datatype snap_event =
    R_created u64 int
  | R_cloned u64 int
  | R_opened nat int
  | R_closed int
  | R_decoupled int
  | R_status u64
  | R_copied int

text \<open>The same step, with what is delivered, and runs with the events in their order.\<close>

inductive snap_deliver :: "snap_env \<Rightarrow> snap_state \<Rightarrow> snap_event \<Rightarrow> snap_state \<Rightarrow> bool" for E where
  created: "ss_pending s = Some Sc_snapshot_create \<Longrightarrow> ss_ctx s = Some ctx \<Longrightarrow>
    ubi_snapshot_create_cb E ctx (ss_world s) sid rc = Inr t \<Longrightarrow> snap_deliver E s (R_created sid rc) t"
| cloned: "ss_pending s = Some Sc_clone_create \<Longrightarrow> ss_ctx s = Some ctx \<Longrightarrow>
    ubi_clone_create_cb ctx (ss_world s) cid rc = Inr t \<Longrightarrow> snap_deliver E s (R_cloned cid rc) t"
| opened: "ss_pending s = Some Sc_open_clone \<Longrightarrow> ss_ctx s = Some ctx \<Longrightarrow>
    ubi_open_clone_cb E ctx (ss_world s) bl rc = Inr t \<Longrightarrow> snap_deliver E s (R_opened bl rc) t"
| closed: "ss_pending s = Some Sc_close_clone \<Longrightarrow> ss_ctx s = Some ctx \<Longrightarrow>
    ubi_close_clone_cb ctx (ss_world s) rc = Inr t \<Longrightarrow> snap_deliver E s (R_closed rc) t"
| decoupled: "ss_pending s = Some Sc_decouple_parent \<Longrightarrow> ss_ctx s = Some ctx \<Longrightarrow>
    ubi_decouple_parent_cb E ctx (ss_world s) rc = Inr t \<Longrightarrow> snap_deliver E s (R_decoupled rc) t"
| status: "ss_pending s = Some Sc_copying \<Longrightarrow> ss_ctx s = Some ctx \<Longrightarrow>
    ubi_shallow_copy_status_cb ctx (ss_world s) k = Inr t \<Longrightarrow> snap_deliver E s (R_status k) t"
| copied: "ss_pending s = Some Sc_copying \<Longrightarrow> ss_ctx s = Some ctx \<Longrightarrow>
    ubi_shallow_copy_complete_cb ctx (ss_world s) rc = Inr t \<Longrightarrow> snap_deliver E s (R_copied rc) t"

lemma snap_step_deliver: "snap_step E s t \<longleftrightarrow> (\<exists>ev. snap_deliver E s ev t)"
  by (auto elim!: snap_step.cases snap_deliver.cases intro: snap_step.intros snap_deliver.intros)

inductive snap_run :: "snap_env \<Rightarrow> snap_state \<Rightarrow> snap_event list \<Rightarrow> snap_state \<Rightarrow> bool" for E s where
  start: "snap_run E s [] s"
| event: "snap_run E s evs t \<Longrightarrow> snap_deliver E t ev u \<Longrightarrow> snap_run E s (evs @ [ev]) u"

lemma snap_run_length: "(snap_step E ^^ n) s t \<Longrightarrow> \<exists>evs. snap_run E s evs t \<and> length evs = n"
proof (induction n arbitrary: t)
  case (Suc n)
  then obtain u where "(snap_step E ^^ n) s u" "snap_step E u t"
    by auto
  with Suc.IH snap_step_deliver [of E u t] show ?case
    by (force intro: snap_run.event)
qed (auto intro: snap_run.start)

lemma snap_run_steps: "(snap_step E)\<^sup>*\<^sup>* s t \<longleftrightarrow> (\<exists>evs. snap_run E s evs t)"
proof
  show "(snap_step E)\<^sup>*\<^sup>* s t \<Longrightarrow> \<exists>evs. snap_run E s evs t"
    by (induction rule: rtranclp_induct) (auto simp: snap_step_deliver intro: snap_run.intros)
  have "snap_run E s evs t \<Longrightarrow> (snap_step E)\<^sup>*\<^sup>* s t" for evs
    by (induction rule: snap_run.induct) (auto simp: snap_step_deliver intro: rtranclp.rtrancl_into_rtrancl)
  then show "\<exists>evs. snap_run E s evs t \<Longrightarrow> (snap_step E)\<^sup>*\<^sup>* s t"
    by blast
qed

text \<open>The client waits for its answer until the copy is started or the flow fails.\<close>

definition snap_waiting :: "snap_state \<Rightarrow> bool" where
  "snap_waiting s \<longleftrightarrow> ss_pending s \<noteq> None \<and> ss_pending s \<noteq> Some Sc_copying"

definition snap_rank :: "snap_state \<Rightarrow> nat" where
  "snap_rank s = (case ss_pending s of
       Some Sc_snapshot_create \<Rightarrow> 5
     | Some Sc_clone_create \<Rightarrow> 4
     | Some Sc_open_clone \<Rightarrow> 3
     | Some Sc_close_clone \<Rightarrow> 2
     | Some Sc_decouple_parent \<Rightarrow> 1
     | _ \<Rightarrow> 0)"

fun is_snap_cb :: "snap_call \<Rightarrow> bool" where
  "is_snap_cb (Sn_cb _ _) = True"
| "is_snap_cb _ = False"

definition snap_answers :: "snap_state \<Rightarrow> nat" where
  "snap_answers s = length (filter is_snap_cb (sw_calls (ss_world s)))"

text \<open>
  The calls of a flow that has not failed, up to each callback it waits for. \<open>bs\<close> is the blobstore,
  \<open>bid\<close>, \<open>sid\<close> and \<open>cid\<close> the ids of the device's blob, of its snapshot and of the clone, \<open>bl\<close> the
  open clone, \<open>ch\<close> the channel, \<open>dev\<close> the delta device.
\<close>

record snap_names =
  n_bs :: "nat option"
  n_bid :: u64
  n_sid :: u64
  n_cid :: u64
  n_bl :: nat
  n_ch :: "nat option"
  n_dev :: "bs_dev_delta option"
  n_arg :: nat

definition snap_full :: "snap_names \<Rightarrow> snap_call list" where
  "snap_full n =
     [Sn_create_snapshot (n_bs n) (n_bid n),
      Sn_alloc_channel (n_bs n), Sn_create_clone (n_bs n) (n_sid n),
      Sn_open_blob (n_bs n) (n_cid n),
      Sn_set_read_only (n_bl n), Sn_close (n_bl n),
      Sn_decouple_parent (n_bs n) (n_ch n) (n_cid n),
      Sn_shallow_copy (n_bs n) (n_ch n) (n_cid n) (n_dev n), Sn_cb (n_arg n) 0]"

primrec snap_len :: "snap_cb \<Rightarrow> nat" where
  "snap_len Sc_snapshot_create = 1"
| "snap_len Sc_clone_create = 3"
| "snap_len Sc_open_clone = 4"
| "snap_len Sc_close_clone = 6"
| "snap_len Sc_decouple_parent = 7"
| "snap_len Sc_copying = 9"

definition snap_trace :: "snap_names \<Rightarrow> snap_cb \<Rightarrow> snap_call list" where
  "snap_trace n cb = take (snap_len cb) (snap_full n)"

section \<open>The client is answered once\<close>

lemma snap_world_simps [simp]:
  "sw_heap (scall cs W) = sw_heap W" "sw_calls (scall cs W) = sw_calls W @ cs"
  "sw_heap (sstore p b W) = (sw_heap W)(p \<mapsto> b)" "sw_calls (sstore p b W) = sw_calls W"
  "sderef (scall cs W) p = sderef W p"
  by (simp_all add: scall_def sstore_def sderef_def)

lemma sderef_Inr_iff: "sderef W p = Inr b \<longleftrightarrow> sw_heap W p = Some b"
  by (auto simp: sderef_def split: option.splits)

lemma cleanup_simps [simp]:
  "sw_heap (cleanup_snapshot_context ctx W) = sw_heap W"
  "filter is_snap_cb (sw_calls (cleanup_snapshot_context ctx W)) = filter is_snap_cb (sw_calls W)"
  by (simp_all add: cleanup_snapshot_context_def split: option.splits)

lemmas snap_handler_defs =
  ubi_snapshot_create_cb_def ubi_clone_create_cb_def ubi_open_clone_cb_def ubi_close_clone_cb_def
  ubi_decouple_parent_cb_def ubi_start_snapshot_def ubi_shallow_copy_status_cb_def
  ubi_shallow_copy_complete_cb_def snapshot_fail_def

lemmas snap_flow_defs = snap_waiting_def snap_rank_def snap_answers_def

text \<open>A callback either answers and stops the wait, or passes the next one without answering.\<close>

lemma snap_step_cases:
  assumes "snap_step E s t"
  shows "ss_pending s \<noteq> None \<and>
    (if snap_waiting s
     then \<not> snap_waiting t \<and> snap_answers t = Suc (snap_answers s) \<or>
          snap_waiting t \<and> snap_answers t = snap_answers s \<and> snap_rank t < snap_rank s
     else \<not> snap_waiting t \<and> snap_answers t = snap_answers s)"
  using assms
  by (cases rule: snap_step.cases)
    (auto simp: snap_handler_defs snap_flow_defs Let_def split: if_splits option.splits)

interpretation snap_flow: once_flow "snap_step E" snap_waiting snap_answers snap_rank for E
proof unfold_locales
  fix s t
  assume st: "snap_step E s t"
  note c = snap_step_cases [OF st]
  show "snap_answers t = snap_answers s + (if snap_waiting s \<and> \<not> snap_waiting t then 1 else 0)"
    using c by (auto split: if_splits)
  show "\<not> snap_waiting t" if "\<not> snap_waiting s"
    using c that by simp
  have "snap_rank t = 0" if "\<not> snap_waiting t"
    using that by (auto simp: snap_flow_defs)
  moreover have "0 < snap_rank s" if "snap_waiting s"
    using that by (auto simp: snap_flow_defs split: snap_cb.splits)
  ultimately show "snap_rank t < snap_rank s" if "snap_waiting s"
    using c that by fastforce
qed

lemma snap_no_step: "ss_pending s = None \<Longrightarrow> \<not> snap_step E s t"
  using snap_step_cases by blast

lemma snap_start:
  assumes "bdev_ubi_snapshot E name path arg W = Inr s" and "filter is_snap_cb (sw_calls W) = []"
  shows "snap_answers s = (if snap_waiting s then 0 else 1) \<and> snap_rank s \<le> 5"
  using assms by (auto simp: bdev_ubi_snapshot_def snap_flow_defs split: option.splits if_splits)

text \<open>
  C12. \<open>bdev_ubi_snapshot\<close> answers its client exactly once. Along every run from a call with an empty
  trace, whatever SPDK returns, the client's \<open>cb_fn\<close> has been called once when the flow no longer waits
  (the copy has been started, or the flow is over) and not at all before; and the wait is over after
  at most five callbacks.
\<close>

theorem snapshot_answers_once:
  assumes "bdev_ubi_snapshot E name path arg W = Inr s" and "filter is_snap_cb (sw_calls W) = []"
    and "(snap_step E ^^ n) s t"
  shows "snap_answers t = (if snap_waiting t then 0 else 1) \<and> (5 \<le> n \<longrightarrow> \<not> snap_waiting t)"
proof (cases "snap_waiting s")
  case True
  have run: "(snap_step E)\<^sup>*\<^sup>* s t"
    using assms(3) by (rule relpowp_imp_rtranclp)
  have "0 < snap_rank t" if "snap_waiting t"
    using that by (auto simp: snap_flow_defs split: snap_cb.splits)
  moreover have "snap_rank s \<le> 5" "snap_answers s = 0"
    using snap_start [OF assms(1,2)] True by simp_all
  ultimately show ?thesis
    using snap_flow.run_rank [OF assms(3) True] snap_flow.run_answers [OF run True] by fastforce
next
  case False
  then have "ss_pending s = None"
    using assms(1) by (auto simp: bdev_ubi_snapshot_def snap_waiting_def split: option.splits if_splits)
  then have "t = s"
    using assms(3) snap_no_step by (cases n) (auto elim: relpowp_E2)
  with False show ?thesis
    using snap_start [OF assms(1,2)] by simp
qed

section \<open>What a run does\<close>

fun is_copy :: "snap_call \<Rightarrow> bool" where
  "is_copy (Sn_shallow_copy _ _ _ _) = True"
| "is_copy _ = False"

text \<open>What holds while SPDK holds callback \<open>cb\<close>.\<close>

definition snap_inv ::
  "snap_env \<Rightarrow> nat \<Rightarrow> string \<Rightarrow> ubi_bdev \<Rightarrow> snap_names \<Rightarrow> snap_state \<Rightarrow> snap_cb \<Rightarrow> bool" where
  "snap_inv E p path b0 n s cb \<longleftrightarrow>
     (\<exists>ctx st. ss_ctx s = Some ctx \<and> sw_heap (ss_world s) p = Some (b0\<lparr>snap_status := st\<rparr>) \<and>
        sw_calls (ss_world s) = snap_trace n cb \<and> n_bs n = blobstore b0 \<and> n_bid n = blobid b0 \<and>
        (cb \<noteq> Sc_copying \<longrightarrow> st = snap_status b0) \<and>
        (cb = Sc_copying \<longrightarrow> in_progress st \<and> snap_result st = snap_result (snap_status b0)) \<and>
        sc_cb_arg ctx = n_arg n \<and> sc_ubi_bdev ctx = p \<and>
        (cb \<noteq> Sc_snapshot_create \<longrightarrow> n_ch n = se_alloc_channel E \<and> sc_path ctx = Some path) \<and>
        (sc_path ctx = Some path \<or> sc_path ctx = None) \<and>
        (cb \<notin> {Sc_snapshot_create, Sc_clone_create} \<longrightarrow> clone_blobid ctx = n_cid n) \<and>
        sc_ch ctx = (if cb = Sc_snapshot_create then None else n_ch n) \<and>
        shallow_copy_bs_dev ctx = (if cb = Sc_copying then n_dev n else None) \<and>
        (cb = Sc_copying \<longrightarrow> (\<exists>csz reg. se_cluster_size E (blobstore b0) = Inr csz \<and>
           bs_dev_delta_create (se_delta_calloc E) path (bdev_blockcnt b0) (bdev_blocklen b0) (ucast csz)
             BS_DEV_DELTA_WRITE = Inr (n_dev n, reg))))"

text \<open>
  The events of a flow that has not failed, up to each callback it waits for, carry the names that its
  calls use.
\<close>

definition snap_events :: "snap_names \<Rightarrow> snap_event list" where
  "snap_events n = [R_created (n_sid n) 0, R_cloned (n_cid n) 0, R_opened (n_bl n) 0, R_closed 0, R_decoupled 0]"

primrec ev_len :: "snap_cb \<Rightarrow> nat" where
  "ev_len Sc_snapshot_create = 0"
| "ev_len Sc_clone_create = 1"
| "ev_len Sc_open_clone = 2"
| "ev_len Sc_close_clone = 3"
| "ev_len Sc_decouple_parent = 4"
| "ev_len Sc_copying = 5"

text \<open>The status of the request to start the copy, into the delta device for the path.\<close>

definition copy_status :: "snap_env \<Rightarrow> string \<Rightarrow> ubi_bdev \<Rightarrow> int c_result" where
  "copy_status E path b =
     c_bind (se_cluster_size E (blobstore b)) (\<lambda>csz.
     c_bind (bs_dev_delta_create (se_delta_calloc E) path (bdev_blockcnt b) (bdev_blocklen b) (ucast csz) BS_DEV_DELTA_WRITE)
       (\<lambda>(dev, reg). se_shallow_copy E dev))"

text \<open>
  The status the client should get for the events of a run: that of the first event that failed, with
  an open clone that cannot be made read-only counting as failed; else that of the start of the copy, if
  it got that far; else 0.
\<close>

fun ev_status :: "snap_env \<Rightarrow> snap_event \<Rightarrow> int" where
  "ev_status E (R_created sid rc) = rc"
| "ev_status E (R_cloned cid rc) = rc"
| "ev_status E (R_opened bl rc) = (if rc \<noteq> 0 then rc else se_set_read_only E bl)"
| "ev_status E (R_closed rc) = rc"
| "ev_status E (R_decoupled rc) = rc"
| "ev_status E (R_status k) = 0"
| "ev_status E (R_copied rc) = 0"

definition answer_status :: "snap_env \<Rightarrow> string \<Rightarrow> ubi_bdev \<Rightarrow> snap_event list \<Rightarrow> int" where
  "answer_status E path b evs =
     (case filter (\<lambda>r. r \<noteq> 0) (map (ev_status E) evs) of
        r # _ \<Rightarrow> r
      | [] \<Rightarrow> if R_decoupled 0 \<in> set evs then projr (copy_status E path b) else 0)"

definition snap_seen ::
  "snap_env \<Rightarrow> string \<Rightarrow> ubi_bdev \<Rightarrow> snap_names \<Rightarrow> snap_event list \<Rightarrow> snap_cb \<Rightarrow> bool" where
  "snap_seen E path b0 n evs cb \<longleftrightarrow>
     (\<exists>ks. evs = take (ev_len cb) (snap_events n) @ map R_status ks \<and> (cb \<noteq> Sc_copying \<longrightarrow> ks = [])) \<and>
     (3 \<le> ev_len cb \<longrightarrow> se_set_read_only E (n_bl n) = 0) \<and>
     (cb = Sc_copying \<longrightarrow> copy_status E path b0 = Inr 0)"

lemma seen_no_failure: "snap_seen E path b0 n evs cb \<Longrightarrow> filter (\<lambda>r. r \<noteq> 0) (map (ev_status E) evs) = []"
  by (cases cb) (auto simp: snap_seen_def snap_events_def filter_empty_conv)

lemma seen_fails:
  assumes "snap_seen E path b0 n evs cb" and "ev_status E ev \<noteq> 0"
  shows "answer_status E path b0 (evs @ [ev]) = ev_status E ev"
  using seen_no_failure [OF assms(1)] assms(2) by (simp add: answer_status_def)

lemma seen_copying:
  assumes "snap_seen E path b0 n evs Sc_copying"
  shows "answer_status E path b0 evs = 0" and "answer_status E path b0 (evs @ [R_copied rc]) = 0"
  using seen_no_failure [OF assms] assms by (auto simp: answer_status_def snap_seen_def snap_events_def)

text \<open>
  What a flow that is over has released: its context, its channel, its delta device, and the mark that
  a copy is in progress.
\<close>

definition snap_released :: "snap_env \<Rightarrow> ubi_bdev \<Rightarrow> snapshot_status \<Rightarrow> snap_call list \<Rightarrow> bool" where
  "snap_released E b0 st cs \<longleftrightarrow>
     count_list cs Sn_free_ctx = 1 \<and>
     (\<forall>bs c. Sn_alloc_channel bs \<in> set cs \<and> se_alloc_channel E = Some c \<longrightarrow>
        count_list cs (Sn_free_channel c) = 1) \<and>
     (\<forall>bs ch cid d. Sn_shallow_copy bs ch cid (Some d) \<in> set cs \<longrightarrow>
        count_list cs (Sn_dev_destroy d) = 1) \<and>
     (in_progress st \<longleftrightarrow> in_progress (snap_status b0) \<and> \<not> (\<exists>c \<in> set cs. is_copy c))"

definition snap_over ::
  "snap_env \<Rightarrow> nat \<Rightarrow> string \<Rightarrow> ubi_bdev \<Rightarrow> nat \<Rightarrow> snap_event list \<Rightarrow> snap_state \<Rightarrow> bool" where
  "snap_over E p path b0 arg evs s \<longleftrightarrow>
     (\<exists>st. filter is_snap_cb (sw_calls (ss_world s)) = [Sn_cb arg (answer_status E path b0 evs)] \<and>
        sw_heap (ss_world s) p = Some (b0\<lparr>snap_status := st\<rparr>) \<and>
        (if ss_ctx s = None then snap_released E b0 st (sw_calls (ss_world s))
         else answer_status E path b0 evs \<noteq> 0 \<and> Sn_free_ctx \<notin> set (sw_calls (ss_world s)) \<and> in_progress st))"

lemma set_snap_status_eq [simp]:
  "b\<lparr>snap_status := x\<rparr> = b\<lparr>snap_status := y\<rparr> \<longleftrightarrow> x = y"
  "b = b\<lparr>snap_status := y\<rparr> \<longleftrightarrow> snap_status b = y"
proof -
  show "b\<lparr>snap_status := x\<rparr> = b\<lparr>snap_status := y\<rparr> \<longleftrightarrow> x = y" for x
    by (rule iffI, drule arg_cong [where f = snap_status], simp_all)
  from this [of "snap_status b"] show "b = b\<lparr>snap_status := y\<rparr> \<longleftrightarrow> snap_status b = y" by simp
qed

lemmas snap_trace_defs = snap_trace_def snap_full_def

lemma cleanup_calls:
  "sw_calls (cleanup_snapshot_context ctx W) = sw_calls W @
     (case shallow_copy_bs_dev ctx of Some d \<Rightarrow> [Sn_dev_destroy d] | None \<Rightarrow> []) @
     (case sc_ch ctx of Some c \<Rightarrow> [Sn_free_channel c] | None \<Rightarrow> []) @ [Sn_free_ctx]"
  by (simp add: cleanup_snapshot_context_def)

text \<open>A failing callback ends the flow with everything released.\<close>

lemma snapshot_fail_over:
  assumes "snap_inv E p path b0 n s cb" and "cb \<noteq> Sc_copying" and "ss_ctx s = Some ctx"
    and "sw_heap (ss_world s) p = Some b" and "sw_heap W = sw_heap (ss_world s)"
    and "sw_calls W = sw_calls (ss_world s) @ xs" and "xs = [] \<or> (\<exists>bl. xs = [Sn_set_read_only bl])"
    and "answer_status E path b0 evs = rc"
  shows "snap_over E p path b0 (n_arg n) evs (snapshot_fail rc ctx b W)"
  using assms
  by (cases cb)
    (auto simp: snap_inv_def snap_over_def snapshot_fail_def snap_released_def cleanup_calls
      snap_trace_defs set_status_def split: option.splits)

definition snap_ok ::
  "snap_env \<Rightarrow> nat \<Rightarrow> string \<Rightarrow> ubi_bdev \<Rightarrow> nat \<Rightarrow> snap_event list \<Rightarrow> snap_state \<Rightarrow> bool" where
  "snap_ok E p path b0 arg evs t \<longleftrightarrow>
     (case ss_pending t of
        Some cb \<Rightarrow> (\<exists>n. n_arg n = arg \<and> snap_inv E p path b0 n t cb \<and> snap_seen E path b0 n evs cb)
      | None \<Rightarrow> snap_over E p path b0 arg evs t)"

lemma snap_ok_next:
  assumes "snap_inv E p path b0 n t cb" and "ss_pending t = Some cb" and "snap_seen E path b0 n evs cb"
  shows "snap_ok E p path b0 (n_arg n) evs t"
  using assms by (auto simp: snap_ok_def)

lemma snap_ok_fail:
  assumes "snap_inv E p path b0 n s cb" and "cb \<noteq> Sc_copying" and "ss_ctx s = Some ctx"
    and "snap_seen E path b0 n evs cb" and "ev_status E ev = rc" and "rc \<noteq> 0"
    and "sderef (ss_world s) (sc_ubi_bdev ctx) = Inr b"
  shows "snap_ok E p path b0 (n_arg n) (evs @ [ev]) (snapshot_fail rc ctx b (ss_world s))"
    and "snap_ok E p path b0 (n_arg n) (evs @ [ev]) (snapshot_fail rc ctx b (scall [Sn_set_read_only bl] (ss_world s)))"
proof -
  have "sw_heap (ss_world s) p = Some b"
    using assms(1,3,7) by (auto simp: snap_inv_def sderef_Inr_iff)
  moreover have "answer_status E path b0 (evs @ [ev]) = rc"
    using seen_fails [OF assms(4)] assms(5,6) by simp
  ultimately have over: "snap_over E p path b0 (n_arg n) (evs @ [ev]) (snapshot_fail rc ctx b W)"
    if "sw_heap W = sw_heap (ss_world s)" "sw_calls W = sw_calls (ss_world s) @ xs"
      "xs = [] \<or> (\<exists>bl. xs = [Sn_set_read_only bl])" for W xs
    using snapshot_fail_over [OF assms(1-3) _ that] by blast
  show "snap_ok E p path b0 (n_arg n) (evs @ [ev]) (snapshot_fail rc ctx b (ss_world s))"
    using over [of "ss_world s" "[]"] by (simp add: snap_ok_def snapshot_fail_def)
  show "snap_ok E p path b0 (n_arg n) (evs @ [ev]) (snapshot_fail rc ctx b (scall [Sn_set_read_only bl] (ss_world s)))"
    using over [of "scall [Sn_set_read_only bl] (ss_world s)" "[Sn_set_read_only bl]"]
    by (simp add: snap_ok_def snapshot_fail_def)
qed

lemma snap_ok_created:
  assumes inv: "snap_inv E p path b0 n s Sc_snapshot_create" and seen: "snap_seen E path b0 n evs Sc_snapshot_create"
    and ctx: "ss_ctx s = Some ctx" and st: "ubi_snapshot_create_cb E ctx (ss_world s) sid rc = Inr t"
  shows "snap_ok E p path b0 (n_arg n) (evs @ [R_created sid rc]) t"
proof (cases "rc = 0")
  case True
  have evs: "evs = []"
    using seen by (simp add: snap_seen_def)
  show ?thesis
  proof (cases "sc_path ctx = Some []")
    case True
    with \<open>rc = 0\<close> inv ctx st evs show ?thesis
      by (auto simp: ubi_snapshot_create_cb_def snap_inv_def snap_ok_def snap_over_def snap_released_def
          cleanup_calls snap_trace_defs sderef_Inr_iff answer_status_def)
  next
    case False
    let ?n = "n\<lparr>n_sid := sid, n_ch := se_alloc_channel E\<rparr>"
    from False \<open>rc = 0\<close> inv ctx st
    have "snap_inv E p path b0 ?n t Sc_clone_create" and "ss_pending t = Some Sc_clone_create"
      by (auto simp: ubi_snapshot_create_cb_def snap_inv_def snap_trace_defs sderef_Inr_iff
          split: option.splits if_splits)
    then show ?thesis
      using snap_ok_next [of E p path b0 ?n t Sc_clone_create "evs @ [R_created sid rc]"] evs \<open>rc = 0\<close>
      by (simp add: snap_seen_def snap_events_def)
  qed
next
  case False
  with st snap_ok_fail(1) [OF inv _ ctx seen, of "R_created sid rc" rc] show ?thesis
    by (auto simp: ubi_snapshot_create_cb_def)
qed

lemma snap_ok_cloned:
  assumes inv: "snap_inv E p path b0 n s Sc_clone_create" and seen: "snap_seen E path b0 n evs Sc_clone_create"
    and ctx: "ss_ctx s = Some ctx" and st: "ubi_clone_create_cb ctx (ss_world s) cid rc = Inr t"
  shows "snap_ok E p path b0 (n_arg n) (evs @ [R_cloned cid rc]) t"
proof (cases "rc = 0")
  case True
  let ?n = "n\<lparr>n_cid := cid\<rparr>"
  from True inv ctx st have "snap_inv E p path b0 ?n t Sc_open_clone" "ss_pending t = Some Sc_open_clone"
    by (auto simp: ubi_clone_create_cb_def snap_inv_def snap_trace_defs sderef_Inr_iff)
  then show ?thesis
    using snap_ok_next [of E p path b0 ?n t Sc_open_clone "evs @ [R_cloned cid rc]"] seen True
    by (simp add: snap_seen_def snap_events_def)
next
  case False
  with st snap_ok_fail(1) [OF inv _ ctx seen, of "R_cloned cid rc" rc] show ?thesis
    by (auto simp: ubi_clone_create_cb_def)
qed

lemma snap_ok_opened:
  assumes inv: "snap_inv E p path b0 n s Sc_open_clone" and seen: "snap_seen E path b0 n evs Sc_open_clone"
    and ctx: "ss_ctx s = Some ctx" and st: "ubi_open_clone_cb E ctx (ss_world s) bl rc = Inr t"
  shows "snap_ok E p path b0 (n_arg n) (evs @ [R_opened bl rc]) t"
proof (cases "ev_status E (R_opened bl rc) = 0")
  case True
  then have ok: "rc = 0" "se_set_read_only E bl = 0"
    by (simp_all split: if_splits)
  let ?n = "n\<lparr>n_bl := bl\<rparr>"
  from ok inv ctx st have "snap_inv E p path b0 ?n t Sc_close_clone" "ss_pending t = Some Sc_close_clone"
    by (auto simp: ubi_open_clone_cb_def snap_inv_def snap_trace_defs sderef_Inr_iff Let_def)
  then show ?thesis
    using snap_ok_next [of E p path b0 ?n t Sc_close_clone "evs @ [R_opened bl rc]"] seen ok
    by (simp add: snap_seen_def snap_events_def)
next
  case False
  with st snap_ok_fail [OF inv _ ctx seen refl, of "R_opened bl rc"] show ?thesis
    by (auto simp: ubi_open_clone_cb_def Let_def split: if_splits)
qed

lemma snap_ok_closed:
  assumes inv: "snap_inv E p path b0 n s Sc_close_clone" and seen: "snap_seen E path b0 n evs Sc_close_clone"
    and ctx: "ss_ctx s = Some ctx" and st: "ubi_close_clone_cb ctx (ss_world s) rc = Inr t"
  shows "snap_ok E p path b0 (n_arg n) (evs @ [R_closed rc]) t"
proof (cases "rc = 0")
  case True
  with inv ctx st have "snap_inv E p path b0 n t Sc_decouple_parent" "ss_pending t = Some Sc_decouple_parent"
    by (auto simp: ubi_close_clone_cb_def snap_inv_def snap_trace_defs sderef_Inr_iff)
  then show ?thesis
    using snap_ok_next [of E p path b0 n t Sc_decouple_parent "evs @ [R_closed rc]"] seen True
    by (simp add: snap_seen_def snap_events_def)
next
  case False
  with st snap_ok_fail(1) [OF inv _ ctx seen, of "R_closed rc" rc] show ?thesis
    by (auto simp: ubi_close_clone_cb_def)
qed

lemma snap_ok_decoupled:
  assumes inv: "snap_inv E p path b0 n s Sc_decouple_parent" and seen: "snap_seen E path b0 n evs Sc_decouple_parent"
    and ctx: "ss_ctx s = Some ctx" and st: "ubi_decouple_parent_cb E ctx (ss_world s) rc = Inr t"
  shows "snap_ok E p path b0 (n_arg n) (evs @ [R_decoupled rc]) t"
proof (cases "rc = 0")
  case True
  from inv ctx have h: "sw_heap (ss_world s) p = Some b0" "sc_ubi_bdev ctx = p" "sc_path ctx = Some path"
    by (auto simp: snap_inv_def)
  from st True h obtain total csz dev reg ret where
    c: "se_total_clusters E (blobstore b0) = Inr total" "se_cluster_size E (blobstore b0) = Inr csz"
      "bs_dev_delta_create (se_delta_calloc E) path (bdev_blockcnt b0) (bdev_blocklen b0) (ucast csz)
         BS_DEV_DELTA_WRITE = Inr (dev, reg)" "se_shallow_copy E dev = Inr ret"
    by (auto simp: ubi_decouple_parent_cb_def ubi_start_snapshot_def sderef_Inr_iff)
  with st True h have t: "t = \<lparr>ss_ctx = Some (ctx\<lparr>shallow_copy_bs_dev := dev\<rparr>),
      ss_world = scall [Sn_shallow_copy (blobstore b0) (sc_ch ctx) (clone_blobid ctx) dev,
                        Sn_cb (sc_cb_arg ctx) ret]
        (sstore p (set_status (\<lambda>st. st\<lparr>in_progress := True, total_clusters := total\<rparr>) b0) (ss_world s)),
      ss_pending = (if ret = 0 then Some Sc_copying else None)\<rparr>"
    by (simp add: ubi_decouple_parent_cb_def ubi_start_snapshot_def sderef_def)
  have cs: "copy_status E path b0 = Inr ret"
    using c by (simp add: copy_status_def)
  show ?thesis
  proof (cases "ret = 0")
    case True
    let ?n = "n\<lparr>n_dev := dev\<rparr>"
    from True inv ctx c(2,3) have "snap_inv E p path b0 ?n t Sc_copying" "ss_pending t = Some Sc_copying"
      by (auto simp: t snap_inv_def snap_trace_defs set_status_def)
    then show ?thesis
      using snap_ok_next [of E p path b0 ?n t Sc_copying "evs @ [R_decoupled rc]"] seen \<open>rc = 0\<close> True cs
      by (simp add: snap_seen_def snap_events_def)
  next
    case False
    have "answer_status E path b0 (evs @ [R_decoupled rc]) = ret"
      using seen_no_failure [OF seen] \<open>rc = 0\<close> cs by (simp add: answer_status_def)
    with False inv ctx show ?thesis
      by (auto simp: t snap_ok_def snap_over_def snap_inv_def snap_trace_defs set_status_def)
  qed
next
  case False
  with st snap_ok_fail(1) [OF inv _ ctx seen, of "R_decoupled rc" rc] show ?thesis
    by (auto simp: ubi_decouple_parent_cb_def)
qed

lemma snap_ok_status:
  assumes inv: "snap_inv E p path b0 n s Sc_copying" and seen: "snap_seen E path b0 n evs Sc_copying"
    and ctx: "ss_ctx s = Some ctx" and st: "ubi_shallow_copy_status_cb ctx (ss_world s) k = Inr t"
  shows "snap_ok E p path b0 (n_arg n) (evs @ [R_status k]) t"
proof (rule snap_ok_next)
  show "snap_inv E p path b0 n t Sc_copying" "ss_pending t = Some Sc_copying"
    using inv ctx st by (auto simp: ubi_shallow_copy_status_cb_def snap_inv_def set_status_def sderef_Inr_iff)
  from seen obtain ks where "evs = take 5 (snap_events n) @ map R_status ks"
    by (auto simp: snap_seen_def)
  then have "evs @ [R_status k] = take 5 (snap_events n) @ map R_status (ks @ [k])"
    by simp
  then have "\<exists>ks. evs @ [R_status k] = take 5 (snap_events n) @ map R_status ks"
    by blast
  then show "snap_seen E path b0 n (evs @ [R_status k]) Sc_copying"
    using seen by (simp add: snap_seen_def)
qed

lemma snap_ok_complete:
  assumes inv: "snap_inv E p path b0 n s Sc_copying" and seen: "snap_seen E path b0 n evs Sc_copying"
    and ctx: "ss_ctx s = Some ctx" and st: "ubi_shallow_copy_complete_cb ctx (ss_world s) rc = Inr t"
  shows "snap_ok E p path b0 (n_arg n) (evs @ [R_copied rc]) t"
proof -
  from inv ctx obtain st0 where i: "sw_heap (ss_world s) p = Some (b0\<lparr>snap_status := st0\<rparr>)"
    "sw_calls (ss_world s) = snap_trace n Sc_copying" "sc_ubi_bdev ctx = p" "n_ch n = se_alloc_channel E"
    "sc_ch ctx = n_ch n" "shallow_copy_bs_dev ctx = n_dev n"
    by (auto simp: snap_inv_def)
  let ?st = "(if rc \<noteq> 0 then st0\<lparr>snap_result := rc\<rparr> else st0)\<lparr>in_progress := False\<rparr>"
  have t: "ss_pending t = None" "ss_ctx t = None"
    "sw_heap (ss_world t) p = Some (b0\<lparr>snap_status := ?st\<rparr>)"
    "sw_calls (ss_world t) = sw_calls (cleanup_snapshot_context ctx (ss_world s))"
    using st i(1,3) by (auto simp: ubi_shallow_copy_complete_cb_def sderef_Inr_iff set_status_def Let_def)
  have "snap_released E b0 ?st (sw_calls (ss_world t))"
    by (auto simp: snap_released_def t(4) cleanup_calls i(2,4-6) snap_trace_defs split: option.splits)
  moreover have "filter is_snap_cb (sw_calls (ss_world t)) = [Sn_cb (n_arg n) 0]"
    by (simp add: t(4) i(2) snap_trace_defs)
  ultimately show ?thesis
    using t(1-3) seen_copying(2) [OF seen] unfolding snap_ok_def snap_over_def by auto
qed

lemma snap_ok_deliver:
  assumes ok: "snap_ok E p path b0 arg evs s" and st: "snap_deliver E s ev t"
  shows "snap_ok E p path b0 arg (evs @ [ev]) t"
proof -
  have "snap_step E s t"
    using st snap_step_deliver by blast
  then obtain cb where cb: "ss_pending s = Some cb"
    using snap_no_step by (cases "ss_pending s") auto
  with ok obtain n where n: "n_arg n = arg" and inv: "snap_inv E p path b0 n s cb" "snap_seen E path b0 n evs cb"
    by (auto simp: snap_ok_def)
  have "snap_ok E p path b0 (n_arg n) (evs @ [ev]) t"
    using st
  proof (cases rule: snap_deliver.cases)
    case (created ctx sid rc)
    with cb inv snap_ok_created show ?thesis by auto
  next
    case (cloned ctx cid rc)
    with cb inv snap_ok_cloned show ?thesis by auto
  next
    case (opened ctx bl rc)
    with cb inv snap_ok_opened show ?thesis by auto
  next
    case (closed ctx rc)
    with cb inv snap_ok_closed show ?thesis by auto
  next
    case (decoupled ctx rc)
    with cb inv snap_ok_decoupled show ?thesis by auto
  next
    case (status ctx k)
    with cb inv snap_ok_status show ?thesis by auto
  next
    case (copied ctx rc)
    with cb inv snap_ok_complete show ?thesis by auto
  qed
  with n show ?thesis by simp
qed

lemma snap_ok_run:
  assumes "snap_run E s evs t" and "snap_ok E p path b0 arg [] s"
  shows "snap_ok E p path b0 arg evs t"
  using assms by (induction rule: snap_run.induct) (auto intro: snap_ok_deliver)

lemma snap_ok_steps:
  assumes "(snap_step E)\<^sup>*\<^sup>* s t" and "snap_ok E p path b0 arg [] s"
  shows "\<exists>evs. snap_ok E p path b0 arg evs t"
  using assms(1) snap_ok_run [OF _ assms(2)] by (auto simp: snap_run_steps)

lemma snap_ok_start:
  assumes "bdev_ubi_snapshot E name path arg W = Inr s" and "se_get_by_name E name = Some p"
    and "sw_heap W p = Some b0" and "sw_calls W = []"
  shows "snap_ok E p path b0 arg [] s"
proof -
  let ?n = "\<lparr>n_bs = blobstore b0, n_bid = blobid b0, n_sid = 0, n_cid = 0, n_bl = 0, n_ch = None,
    n_dev = None, n_arg = arg\<rparr>"
  have "snap_inv E p path b0 ?n s Sc_snapshot_create" "ss_pending s = Some Sc_snapshot_create"
    using assms by (auto simp: bdev_ubi_snapshot_def snap_inv_def snap_trace_defs sderef_Inr_iff split: if_splits)
  then show ?thesis
    using snap_ok_next [of E p path b0 ?n s Sc_snapshot_create "[]"] by (simp add: snap_seen_def)
qed

text \<open>
  C11. What a snapshot copies, and when. Whenever the copy is running, SPDK has delivered, in this order and
  each with status 0: the id \<open>sid\<close> of a snapshot, the id \<open>cid\<close> of a clone, the open blob \<open>bl\<close>, the end of a close
  and of a decoupling, and progress reports. And the calls made are exactly these: the blob of this device
  was snapshotted, a clone of the snapshot \<open>sid\<close> was created; the blob \<open>cid\<close> was opened, the blob
  \<open>bl\<close> that this gave was made read-only and closed, \<open>cid\<close> was decoupled from its parent, and it is
  \<open>cid\<close> that is copied, into a delta device in write direction for the client's path, with the device's
  geometry (when its allocation succeeded); the client has been told 0, and the status says that a copy is
  in progress.
\<close>

theorem snapshot_copies_clone:
  assumes "bdev_ubi_snapshot E name path arg W = Inr s" and "se_get_by_name E name = Some p"
    and "sw_heap W p = Some b0" and "sw_calls W = []"
    and "snap_run E s evs t" and "ss_pending t = Some Sc_copying"
  shows "\<exists>sid cid bl ks dev st csz reg.
    evs = [R_created sid 0, R_cloned cid 0, R_opened bl 0, R_closed 0, R_decoupled 0] @ map R_status ks \<and>
    sw_calls (ss_world t) =
      [Sn_create_snapshot (blobstore b0) (blobid b0),
       Sn_alloc_channel (blobstore b0), Sn_create_clone (blobstore b0) sid,
       Sn_open_blob (blobstore b0) cid, Sn_set_read_only bl, Sn_close bl,
       Sn_decouple_parent (blobstore b0) (se_alloc_channel E) cid,
       Sn_shallow_copy (blobstore b0) (se_alloc_channel E) cid dev, Sn_cb arg 0] \<and>
    se_cluster_size E (blobstore b0) = Inr csz \<and>
    bs_dev_delta_create (se_delta_calloc E) path (bdev_blockcnt b0) (bdev_blocklen b0) (ucast csz)
      BS_DEV_DELTA_WRITE = Inr (dev, reg) \<and>
    sw_heap (ss_world t) p = Some (b0\<lparr>snap_status := st\<rparr>) \<and> in_progress st"
proof -
  have "snap_ok E p path b0 arg evs t"
    using snap_ok_run [OF assms(5) snap_ok_start [OF assms(1-4)]] .
  with assms(6) obtain n where n: "n_arg n = arg" "snap_inv E p path b0 n t Sc_copying" "snap_seen E path b0 n evs Sc_copying"
    by (auto simp: snap_ok_def)
  then obtain ks where "evs = snap_events n @ map R_status ks"
    by (auto simp: snap_seen_def snap_events_def)
  with n(1,2) show ?thesis
    by (auto simp: snap_inv_def snap_trace_defs snap_events_def)
qed

text \<open>
  C5. What a finished snapshot leaves behind, on every path. The client has been answered once. Either
  the flow has released what it took: its context, the blobstore channel, the delta device, each
  exactly once, and the device is marked as copying only if it was before and this flow started no
  copy. Or the blobstore refused to start the copy: then the client got that error, the context is
  never freed and the device stays marked as copying.
\<close>

theorem snapshot_releases:
  assumes "bdev_ubi_snapshot E name path arg W = Inr s" and "se_get_by_name E name = Some p"
    and "sw_heap W p = Some b0" and "sw_calls W = []"
    and "(snap_step E)\<^sup>*\<^sup>* s t" and "ss_pending t = None"
  shows "\<exists>rc st. filter is_snap_cb (sw_calls (ss_world t)) = [Sn_cb arg rc] \<and>
    sw_heap (ss_world t) p = Some (b0\<lparr>snap_status := st\<rparr>) \<and>
    (if ss_ctx t = None then snap_released E b0 st (sw_calls (ss_world t))
     else rc \<noteq> 0 \<and> Sn_free_ctx \<notin> set (sw_calls (ss_world t)) \<and> in_progress st)"
proof -
  obtain evs where "snap_ok E p path b0 arg evs t"
    using snap_ok_steps [OF assms(5) snap_ok_start [OF assms(1-4)]] by blast
  with assms(6) show ?thesis
    by (auto simp: snap_ok_def snap_over_def)
qed

text \<open>
  C37. The result that the status reports after a copy. When the copy of a flow ends, the device is no longer
  marked as copying; an error becomes the result, but a success leaves the result of whatever snapshot
  failed before: it is never reset.
\<close>

theorem snapshot_result_sticky:
  assumes "bdev_ubi_snapshot E name path arg W = Inr s" and "se_get_by_name E name = Some p"
    and "sw_heap W p = Some b0" and "sw_calls W = []"
    and "(snap_step E)\<^sup>*\<^sup>* s t" and "ss_pending t = Some Sc_copying" and "ss_ctx t = Some ctx"
  shows "\<exists>u st. ubi_shallow_copy_complete_cb ctx (ss_world t) rc = Inr u \<and>
    sw_heap (ss_world u) p = Some (b0\<lparr>snap_status := st\<rparr>) \<and> \<not> in_progress st \<and>
    snap_result st = (if rc \<noteq> 0 then rc else snap_result (snap_status b0))"
proof -
  obtain evs where "snap_ok E p path b0 arg evs t"
    using snap_ok_steps [OF assms(5) snap_ok_start [OF assms(1-4)]] by blast
  with assms(6,7) obtain st0 where "sw_heap (ss_world t) p = Some (b0\<lparr>snap_status := st0\<rparr>)"
    "sc_ubi_bdev ctx = p" "snap_result st0 = snap_result (snap_status b0)"
    by (auto simp: snap_ok_def snap_inv_def)
  then show ?thesis
    by (simp add: ubi_shallow_copy_complete_cb_def sderef_def set_status_def)
qed

text \<open>
  C38. A path of 1024 characters or more is accepted, and the flow runs up to the start of the copy before
  it overruns the delta device's path buffer: nothing on the way checks its length.
\<close>

theorem snapshot_path_overflow:
  assumes "bdev_ubi_snapshot E name path arg W = Inr s" and "se_get_by_name E name = Some p"
    and "sw_heap W p = Some b0" and "sw_calls W = []"
    and "(snap_step E)\<^sup>*\<^sup>* s t" and "ss_pending t = Some Sc_decouple_parent" and "ss_ctx t = Some ctx"
    and "se_total_clusters E (blobstore b0) = Inr tot" and "se_cluster_size E (blobstore b0) = Inr csz"
    and "se_delta_calloc E" and "bdev_blocklen b0 \<noteq> 0" and "\<And>d. se_shallow_copy E d \<noteq> Inl Buffer_overflow"
  shows "ubi_decouple_parent_cb E ctx (ss_world t) 0 = Inl Buffer_overflow \<longleftrightarrow>
    1024 \<le> length path"
proof -
  obtain evs where "snap_ok E p path b0 arg evs t"
    using snap_ok_steps [OF assms(5) snap_ok_start [OF assms(1-4)]] by blast
  with assms(6,7) have "sw_heap (ss_world t) p = Some b0" "sc_ubi_bdev ctx = p" "sc_path ctx = Some path"
    by (auto simp: snap_ok_def snap_inv_def)
  then show ?thesis
    using assms(8-12)
    by (auto simp: ubi_decouple_parent_cb_def ubi_start_snapshot_def sderef_def bs_dev_delta_create_def
        c_strcpy_def c_bind_Inl_iff)
qed

section \<open>A concrete run\<close>

text \<open>An SPDK that grants every request, except that starting the copy returns \<open>ret\<close>.\<close>

definition demo_snap_env :: "int \<Rightarrow> snap_env" where
  "demo_snap_env ret = \<lparr>se_get_by_name = (\<lambda>nm. if nm = ''ubi0'' then Some 10 else None), se_calloc = True,
     se_strdup = True, se_alloc_channel = Some 50, se_set_read_only = (\<lambda>_. 0),
     se_total_clusters = (\<lambda>_. Inr 8), se_cluster_size = (\<lambda>_. Inr 4096), se_delta_calloc = True,
     se_shallow_copy = (\<lambda>_. Inr ret)\<rparr>"

definition demo_snap_bdev :: ubi_bdev where
  "demo_snap_bdev = zero_ubi_bdev\<lparr>bdev_name := ''ubi0'', bdev_blocklen := 512, bdev_blockcnt := 64,
     blobstore := Some 30, blobid := 7,
     snap_status := \<lparr>in_progress = False, snap_result = - EIO, copied_clusters = 0, total_clusters = 0\<rparr>\<rparr>"

definition demo_snap_world :: snap_world where
  "demo_snap_world = \<lparr>sw_heap = [10 \<mapsto> demo_snap_bdev], sw_calls = []\<rparr>"

lemma demo_snap_simps [simp]:
  "se_get_by_name (demo_snap_env ret) ''ubi0'' = Some 10"
  "sw_heap demo_snap_world = [10 \<mapsto> demo_snap_bdev]" "sw_calls demo_snap_world = []"
  "blobstore demo_snap_bdev = Some 30" "bdev_blocklen demo_snap_bdev = 512" "blobid demo_snap_bdev = 7"
  "snap_result (snap_status demo_snap_bdev) = - EIO" "\<not> in_progress (snap_status demo_snap_bdev)"
  "se_cluster_size (demo_snap_env ret) bs = Inr 4096" "se_total_clusters (demo_snap_env ret) bs = Inr 8"
  "se_shallow_copy (demo_snap_env ret) d = Inr ret" "se_delta_calloc (demo_snap_env ret)"
  "se_set_read_only (demo_snap_env ret) bl = 0" "se_calloc (demo_snap_env ret)" "se_strdup (demo_snap_env ret)"
  by (simp_all add: demo_snap_env_def demo_snap_bdev_def demo_snap_world_def)

lemma snap_next:
  assumes "ss_pending s = Some cb" and "ss_ctx s = Some ctx" and "sw_heap (ss_world s) (sc_ubi_bdev ctx) = Some b"
  shows "cb = Sc_snapshot_create \<Longrightarrow> sc_path ctx = Some path \<Longrightarrow> path \<noteq> [] \<Longrightarrow>
      \<exists>t. snap_step E s t \<and> ss_pending t = Some Sc_clone_create \<and> sw_heap (ss_world t) = sw_heap (ss_world s) \<and>
        ss_ctx t = Some (ctx\<lparr>snapshot_blobid := i, sc_ch := se_alloc_channel E\<rparr>)"
    and "cb = Sc_clone_create \<Longrightarrow>
      \<exists>t. snap_step E s t \<and> ss_pending t = Some Sc_open_clone \<and> sw_heap (ss_world t) = sw_heap (ss_world s) \<and>
        ss_ctx t = Some (ctx\<lparr>clone_blobid := i\<rparr>)"
    and "cb = Sc_open_clone \<Longrightarrow> se_set_read_only E bl = 0 \<Longrightarrow>
      \<exists>t. snap_step E s t \<and> ss_pending t = Some Sc_close_clone \<and> sw_heap (ss_world t) = sw_heap (ss_world s) \<and>
        ss_ctx t = Some ctx"
    and "cb = Sc_close_clone \<Longrightarrow>
      \<exists>t. snap_step E s t \<and> ss_pending t = Some Sc_decouple_parent \<and>
        sw_heap (ss_world t) = sw_heap (ss_world s) \<and> ss_ctx t = Some ctx"
proof -
  note d = sderef_def assms(3)
  show "cb = Sc_snapshot_create \<Longrightarrow> sc_path ctx = Some path \<Longrightarrow> path \<noteq> [] \<Longrightarrow>
      \<exists>t. snap_step E s t \<and> ss_pending t = Some Sc_clone_create \<and> sw_heap (ss_world t) = sw_heap (ss_world s) \<and>
        ss_ctx t = Some (ctx\<lparr>snapshot_blobid := i, sc_ch := se_alloc_channel E\<rparr>)"
    using snap_step.snapshot_created [OF _ assms(2), of E i 0] assms(1)
    by (fastforce simp: ubi_snapshot_create_cb_def d)
  show "cb = Sc_clone_create \<Longrightarrow>
      \<exists>t. snap_step E s t \<and> ss_pending t = Some Sc_open_clone \<and> sw_heap (ss_world t) = sw_heap (ss_world s) \<and>
        ss_ctx t = Some (ctx\<lparr>clone_blobid := i\<rparr>)"
    using snap_step.clone_created [OF _ assms(2), of i 0] assms(1)
    by (fastforce simp: ubi_clone_create_cb_def d)
  show "cb = Sc_open_clone \<Longrightarrow> se_set_read_only E bl = 0 \<Longrightarrow>
      \<exists>t. snap_step E s t \<and> ss_pending t = Some Sc_close_clone \<and> sw_heap (ss_world t) = sw_heap (ss_world s) \<and>
        ss_ctx t = Some ctx"
    using snap_step.clone_opened [OF _ assms(2), of E bl 0] assms(1)
    by (fastforce simp: ubi_open_clone_cb_def d)
  show "cb = Sc_close_clone \<Longrightarrow>
      \<exists>t. snap_step E s t \<and> ss_pending t = Some Sc_decouple_parent \<and>
        sw_heap (ss_world t) = sw_heap (ss_world s) \<and> ss_ctx t = Some ctx"
    using snap_step.clone_closed [OF _ assms(2), of 0] assms(1)
    by (fastforce simp: ubi_close_clone_cb_def d)
qed

text \<open>The run of a client's snapshot up to the decoupling of the clone, and one step further.\<close>

lemma demo_snap_run:
  assumes "path \<noteq> []"
  shows "\<exists>s t ctx. bdev_ubi_snapshot (demo_snap_env ret) ''ubi0'' path 3 demo_snap_world = Inr s \<and>
    (snap_step (demo_snap_env ret) ^^ 4) s t \<and> ss_pending t = Some Sc_decouple_parent \<and>
    ss_ctx t = Some ctx \<and> sc_ubi_bdev ctx = 10 \<and> sc_path ctx = Some path \<and>
    sw_heap (ss_world t) = [10 \<mapsto> demo_snap_bdev]"
proof -
  let ?E = "demo_snap_env ret"
  obtain s c0 where s: "bdev_ubi_snapshot ?E ''ubi0'' path 3 demo_snap_world = Inr s"
    and p0: "ss_pending s = Some Sc_snapshot_create" "ss_ctx s = Some c0" "sc_ubi_bdev c0 = 10"
      "sc_path c0 = Some path" "sw_heap (ss_world s) = [10 \<mapsto> demo_snap_bdev]"
    by (auto simp: bdev_ubi_snapshot_def sderef_def)
  then obtain t1 c1 where t1: "snap_step ?E s t1" "ss_pending t1 = Some Sc_clone_create" "ss_ctx t1 = Some c1"
    "sc_ubi_bdev c1 = 10" "sc_path c1 = Some path" "sw_heap (ss_world t1) = [10 \<mapsto> demo_snap_bdev]"
    using snap_next(1) [OF p0(1,2), of demo_snap_bdev path ?E 71] assms by auto
  then obtain t2 c2 where t2: "snap_step ?E t1 t2" "ss_pending t2 = Some Sc_open_clone" "ss_ctx t2 = Some c2"
    "sc_ubi_bdev c2 = 10" "sc_path c2 = Some path" "sw_heap (ss_world t2) = [10 \<mapsto> demo_snap_bdev]"
    using snap_next(2) [OF t1(2,3), of demo_snap_bdev ?E 72] by auto
  then obtain t3 where t3: "snap_step ?E t2 t3" "ss_pending t3 = Some Sc_close_clone" "ss_ctx t3 = Some c2"
    "sw_heap (ss_world t3) = [10 \<mapsto> demo_snap_bdev]"
    using snap_next(3) [OF t2(2,3), of demo_snap_bdev ?E 73] by auto
  then obtain t4 where t4: "snap_step ?E t3 t4" "ss_pending t4 = Some Sc_decouple_parent" "ss_ctx t4 = Some c2"
    "sw_heap (ss_world t4) = [10 \<mapsto> demo_snap_bdev]"
    using snap_next(4) [OF t3(2,3), of demo_snap_bdev ?E] t2(4) by auto
  have "(snap_step ?E ^^ 4) s t4"
    using t1(1) t2(1) t3(1) t4(1) by (auto simp: numeral_eq_Suc relcompp.simps)
  with s t4 t2(4,5) show ?thesis by blast
qed

lemma demo_snap_copy:
  "\<exists>s t ctx. bdev_ubi_snapshot (demo_snap_env ret) ''ubi0'' ''snap'' 3 demo_snap_world = Inr s \<and>
    (snap_step (demo_snap_env ret) ^^ 5) s t \<and>
    ss_pending t = (if ret = 0 then Some Sc_copying else None) \<and> ss_ctx t = Some ctx"
proof -
  obtain s t ctx where s: "bdev_ubi_snapshot (demo_snap_env ret) ''ubi0'' ''snap'' 3 demo_snap_world = Inr s"
    and n: "(snap_step (demo_snap_env ret) ^^ 4) s t"
    and t: "ss_pending t = Some Sc_decouple_parent" "ss_ctx t = Some ctx" "sc_ubi_bdev ctx = 10"
      "sc_path ctx = Some ''snap''" "sw_heap (ss_world t) = [10 \<mapsto> demo_snap_bdev]"
    using demo_snap_run [of "''snap''" ret] by blast
  obtain u where u: "ubi_decouple_parent_cb (demo_snap_env ret) ctx (ss_world t) 0 = Inr u"
    "ss_pending u = (if ret = 0 then Some Sc_copying else None)" "ss_ctx u \<noteq> None"
    using t(3-5) by (auto simp: ubi_decouple_parent_cb_def ubi_start_snapshot_def sderef_def
        bs_dev_delta_create_def c_strcpy_def)
  have "(snap_step (demo_snap_env ret) ^^ Suc 4) s u"
    using relpowp_Suc_I [OF n snap_step.decoupled [OF t(1,2) u(1)]] .
  with s u(2,3) show ?thesis
    by fastforce
qed

theorem snapshot_answers_once_witness:
  "\<exists>s t. bdev_ubi_snapshot (demo_snap_env 0) ''ubi0'' ''snap'' 3 demo_snap_world = Inr s \<and>
     (snap_step (demo_snap_env 0) ^^ 5) s t \<and> \<not> snap_waiting t \<and> snap_answers t = 1"
proof -
  obtain s t where s: "bdev_ubi_snapshot (demo_snap_env 0) ''ubi0'' ''snap'' 3 demo_snap_world = Inr s"
    and n: "(snap_step (demo_snap_env 0) ^^ 5) s t"
    using demo_snap_copy by blast
  show ?thesis
    using s n snapshot_answers_once [OF s _ n] by auto
qed

theorem snapshot_copies_clone_witness:
  "\<exists>s t evs sid cid bl dev.
     bdev_ubi_snapshot (demo_snap_env 0) ''ubi0'' ''snap'' 3 demo_snap_world = Inr s \<and>
     snap_run (demo_snap_env 0) s evs t \<and>
     evs = [R_created sid 0, R_cloned cid 0, R_opened bl 0, R_closed 0, R_decoupled 0] \<and>
     sw_calls (ss_world t) =
       [Sn_create_snapshot (Some 30) 7, Sn_alloc_channel (Some 30), Sn_create_clone (Some 30) sid,
        Sn_open_blob (Some 30) cid, Sn_set_read_only bl, Sn_close bl,
        Sn_decouple_parent (Some 30) (Some 50) cid, Sn_shallow_copy (Some 30) (Some 50) cid dev, Sn_cb 3 0]"
proof -
  obtain s t where s: "bdev_ubi_snapshot (demo_snap_env 0) ''ubi0'' ''snap'' 3 demo_snap_world = Inr s"
    and n: "(snap_step (demo_snap_env 0) ^^ 5) s t" and t: "ss_pending t = Some Sc_copying"
    using demo_snap_copy [of 0] by auto
  obtain evs where r: "snap_run (demo_snap_env 0) s evs t" "length evs = 5"
    using snap_run_length [OF n] by blast
  have ch: "se_alloc_channel (demo_snap_env 0) = Some 50"
    by (simp add: demo_snap_env_def)
  obtain sid cid bl ks dev where "evs = [R_created sid 0, R_cloned cid 0, R_opened bl 0, R_closed 0, R_decoupled 0] @ map R_status ks"
    "sw_calls (ss_world t) =
       [Sn_create_snapshot (Some 30) 7, Sn_alloc_channel (Some 30), Sn_create_clone (Some 30) sid,
        Sn_open_blob (Some 30) cid, Sn_set_read_only bl, Sn_close bl,
        Sn_decouple_parent (Some 30) (Some 50) cid, Sn_shallow_copy (Some 30) (Some 50) cid dev, Sn_cb 3 0]"
    using snapshot_copies_clone [OF s _ _ _ r(1) t, of 10 demo_snap_bdev] unfolding ch by auto
  moreover from this(1) r(2) have "ks = []"
    by simp
  ultimately show ?thesis
    using s r(1) unfolding append_Nil2 list.map by blast
qed

theorem snapshot_releases_witness:
  "\<exists>s t rc st. bdev_ubi_snapshot (demo_snap_env (- EINVAL)) ''ubi0'' ''snap'' 3 demo_snap_world = Inr s \<and>
     (snap_step (demo_snap_env (- EINVAL)))\<^sup>*\<^sup>* s t \<and> ss_pending t = None \<and>
     filter is_snap_cb (sw_calls (ss_world t)) = [Sn_cb 3 rc] \<and> rc \<noteq> 0 \<and>
     sw_heap (ss_world t) 10 = Some (demo_snap_bdev\<lparr>snap_status := st\<rparr>) \<and> in_progress st"
proof -
  obtain s t ctx where s: "bdev_ubi_snapshot (demo_snap_env (- EINVAL)) ''ubi0'' ''snap'' 3 demo_snap_world = Inr s"
    and n: "(snap_step (demo_snap_env (- EINVAL)) ^^ 5) s t" and t: "ss_pending t = None" "ss_ctx t = Some ctx"
    using demo_snap_copy [of "- EINVAL"] by auto
  note r = relpowp_imp_rtranclp [OF n]
  from snapshot_releases [OF s _ _ _ r t(1), of 10 demo_snap_bdev] t(2) s r t(1) show ?thesis
    by auto
qed

theorem snapshot_result_sticky_witness:
  "\<exists>s t ctx u st. bdev_ubi_snapshot (demo_snap_env 0) ''ubi0'' ''snap'' 3 demo_snap_world = Inr s \<and>
     (snap_step (demo_snap_env 0))\<^sup>*\<^sup>* s t \<and> ubi_shallow_copy_complete_cb ctx (ss_world t) 0 = Inr u \<and>
     sw_heap (ss_world u) 10 = Some (demo_snap_bdev\<lparr>snap_status := st\<rparr>) \<and> snap_result st = - EIO"
proof -
  obtain s t ctx where s: "bdev_ubi_snapshot (demo_snap_env 0) ''ubi0'' ''snap'' 3 demo_snap_world = Inr s"
    and n: "(snap_step (demo_snap_env 0) ^^ 5) s t" and t: "ss_pending t = Some Sc_copying" "ss_ctx t = Some ctx"
    using demo_snap_copy [of 0] by auto
  note r = relpowp_imp_rtranclp [OF n]
  from snapshot_result_sticky [OF s _ _ _ r t, of 10 demo_snap_bdev 0] s r show ?thesis
    by auto
qed

theorem snapshot_path_overflow_witness:
  defines "path \<equiv> replicate 1024 CHR ''x''"
  shows "\<exists>s t ctx. bdev_ubi_snapshot (demo_snap_env 0) ''ubi0'' path 3 demo_snap_world = Inr s \<and>
    (snap_step (demo_snap_env 0))\<^sup>*\<^sup>* s t \<and>
    ubi_decouple_parent_cb (demo_snap_env 0) ctx (ss_world t) 0 = Inl Buffer_overflow"
proof -
  obtain s t ctx where s: "bdev_ubi_snapshot (demo_snap_env 0) ''ubi0'' path 3 demo_snap_world = Inr s"
    and n: "(snap_step (demo_snap_env 0) ^^ 4) s t"
    and t: "ss_pending t = Some Sc_decouple_parent" "ss_ctx t = Some ctx"
    using demo_snap_run [of path 0] by (auto simp: path_def)
  note r = relpowp_imp_rtranclp [OF n]
  from snapshot_path_overflow [OF s _ _ _ r t, of 10 demo_snap_bdev 8 4096] s r show ?thesis
    by (auto simp: path_def)
qed

end
