(* ===== verification/Ubi_Rpc.thy ===== *)
theory Ubi_Rpc
  imports Ubi_Device Ubi_Snapshot
begin

text \<open>
  The JSON-RPC methods of \<open>src/lib/bdev_ubi_rpc.c\<close>: \<open>bdev_ubi_create\<close>, \<open>bdev_ubi_delete\<close>,
  \<open>bdev_ubi_snapshot\<close> and \<open>bdev_ubi_snapshot_status\<close>, and the configuration that
  \<open>ubi_write_config_json\<close> of \<open>src/lib/bdev_ubi.c\<close> saves.

  SPDK's object decoder is a parameter: from a JSON value and a decoder table it returns its status
  and the fields it wrote. A handler's result lists the responses it sends at once, the members of its
  request structure it frees, and the state of the flow it starts.
\<close>

section \<open>JSON values, decoders, responses\<close>

datatype json =
    J_string string
  | J_bool bool
  | J_number int
  | J_object "(string \<times> json) list"

datatype decoder_kind = Decode_string | Decode_bool | Decode_uint32

record json_decoder =
  dec_name :: string
  dec_kind :: decoder_kind
  dec_optional :: bool

datatype field = F_string string | F_bool bool | F_uint32 u32

type_synonym decode_object = "json \<Rightarrow> json_decoder list \<Rightarrow> int \<times> (string \<rightharpoonup> field)"

text \<open>The error codes of the JSON-RPC 2.0 specification.\<close>

abbreviation JSONRPC_INVALID_PARAMS :: int where "JSONRPC_INVALID_PARAMS \<equiv> - 32602"
abbreviation JSONRPC_INTERNAL_ERROR :: int where "JSONRPC_INTERNAL_ERROR \<equiv> - 32603"

datatype rpc_message = Msg_text string | Msg_strerror int | Msg_error_code int

datatype rpc_response =
    Resp_error nat int rpc_message
  | Resp_string nat string
  | Resp_bool nat bool
  | Resp_object nat json

definition decoded_string :: "(string \<rightharpoonup> field) \<Rightarrow> string \<Rightarrow> string option \<Rightarrow> string option" where
  "decoded_string m k dflt = (case m k of Some (F_string s) \<Rightarrow> Some s | _ \<Rightarrow> dflt)"

definition decoded_bool :: "(string \<rightharpoonup> field) \<Rightarrow> string \<Rightarrow> bool \<Rightarrow> bool" where
  "decoded_bool m k dflt = (case m k of Some (F_bool v) \<Rightarrow> v | _ \<Rightarrow> dflt)"

definition decoded_uint32 :: "(string \<rightharpoonup> field) \<Rightarrow> string \<Rightarrow> u32 \<Rightarrow> u32" where
  "decoded_uint32 m k dflt = (case m k of Some (F_uint32 v) \<Rightarrow> v | _ \<Rightarrow> dflt)"

section \<open>bdev\_ubi\_create\<close>

record rpc_construct_ubi =
  rq_name :: "string option"
  rq_image_path :: "string option"
  rq_snapshot_path :: "string option"
  rq_base_bdev_name :: "string option"
  rq_no_sync :: bool
  rq_format_bdev :: bool
  rq_stripe_size_kb :: u32
  rq_copy_on_read :: bool
  rq_directio :: bool

definition free_rpc_construct_ubi :: "string list" where
  "free_rpc_construct_ubi = [''name'', ''image_path'', ''base_bdev'']"

definition rpc_construct_ubi_decoders :: "json_decoder list" where
  "rpc_construct_ubi_decoders =
     [\<lparr>dec_name = ''name'', dec_kind = Decode_string, dec_optional = False\<rparr>,
      \<lparr>dec_name = ''image_path'', dec_kind = Decode_string, dec_optional = False\<rparr>,
      \<lparr>dec_name = ''base_bdev'', dec_kind = Decode_string, dec_optional = False\<rparr>,
      \<lparr>dec_name = ''format_bdev'', dec_kind = Decode_bool, dec_optional = True\<rparr>,
      \<lparr>dec_name = ''no_sync'', dec_kind = Decode_bool, dec_optional = True\<rparr>,
      \<lparr>dec_name = ''directio'', dec_kind = Decode_bool, dec_optional = True\<rparr>,
      \<lparr>dec_name = ''snapshot_path'', dec_kind = Decode_string, dec_optional = True\<rparr>,
      \<lparr>dec_name = ''stripe_size_kb'', dec_kind = Decode_uint32, dec_optional = True\<rparr>,
      \<lparr>dec_name = ''copy_on_read'', dec_kind = Decode_bool, dec_optional = True\<rparr>]"

text \<open>What the decoder table writes into the request structure.\<close>

definition fill_construct :: "(string \<rightharpoonup> field) \<Rightarrow> rpc_construct_ubi \<Rightarrow> rpc_construct_ubi" where
  "fill_construct m rq =
     \<lparr>rq_name = decoded_string m ''name'' (rq_name rq),
      rq_image_path = decoded_string m ''image_path'' (rq_image_path rq),
      rq_snapshot_path = decoded_string m ''snapshot_path'' (rq_snapshot_path rq),
      rq_base_bdev_name = decoded_string m ''base_bdev'' (rq_base_bdev_name rq),
      rq_no_sync = decoded_bool m ''no_sync'' (rq_no_sync rq),
      rq_format_bdev = decoded_bool m ''format_bdev'' (rq_format_bdev rq),
      rq_stripe_size_kb = decoded_uint32 m ''stripe_size_kb'' (rq_stripe_size_kb rq),
      rq_copy_on_read = decoded_bool m ''copy_on_read'' (rq_copy_on_read rq),
      rq_directio = decoded_bool m ''directio'' (rq_directio rq)\<rparr>"

text \<open>\<open>bdev_ubi_create_done\<close>: on success it reads the new device's name.\<close>

definition bdev_ubi_create_done :: "nat \<Rightarrow> nat option \<Rightarrow> int \<Rightarrow> ubi_world \<Rightarrow> rpc_response c_result" where
  "bdev_ubi_create_done request bdev st W =
     (if st < 0 then Inr (Resp_error request st (Msg_strerror (- st)))
      else if 0 < st then Inr (Resp_error request JSONRPC_INVALID_PARAMS (Msg_error_code st))
      else case bdev of None \<Rightarrow> Inl Null_deref
        | Some p \<Rightarrow> c_bind (deref W p) (\<lambda>b. Inr (Resp_string request (bdev_name b))))"

text \<open>
  \<open>rpc_bdev_ubi_create\<close>. \<open>ctx0\<close> is the zeroed context that \<open>calloc\<close> returned, if it did. A required
  string that the decoder did not write would be copied from a null pointer.
\<close>

definition request_defaults :: rpc_construct_ubi where
  "request_defaults =
     \<lparr>rq_name = None, rq_image_path = None, rq_snapshot_path = None, rq_base_bdev_name = None,
      rq_no_sync = False, rq_format_bdev = True, rq_stripe_size_kb = 0, rq_copy_on_read = True,
      rq_directio = True\<rparr>"

definition request_opts :: "rpc_construct_ubi \<Rightarrow> spdk_ubi_bdev_opts c_result" where
  "request_opts rq =
     (case (rq_name rq, rq_image_path rq, rq_base_bdev_name rq) of
        (Some nm, Some img, Some base) \<Rightarrow>
          Inr \<lparr>o_name = nm, o_image_path = img, o_snapshot_path = rq_snapshot_path rq,
               o_base_bdev_name = base, o_no_sync = rq_no_sync rq, o_directio = rq_directio rq,
               o_format_bdev = rq_format_bdev rq\<rparr>
      | _ \<Rightarrow> Inl Null_deref)"

definition rpc_bdev_ubi_create ::
  "decode_object \<Rightarrow> spdk \<Rightarrow> ubi_create_context option \<Rightarrow> nat \<Rightarrow> json \<Rightarrow> ubi_world \<Rightarrow>
   (rpc_response list \<times> string list \<times> create_state option) c_result" where
  "rpc_bdev_ubi_create dec E ctx0 request params W =
     (let (rc, m) = dec params rpc_construct_ubi_decoders; rq = fill_construct m request_defaults in
      if rc \<noteq> 0
      then Inr ([Resp_error request JSONRPC_INTERNAL_ERROR (Msg_text ''spdk_json_decode_object failed'')],
                free_rpc_construct_ubi, None)
      else c_bind (request_opts rq) (\<lambda>opts.
        case ctx0 of None \<Rightarrow> Inl Null_deref | Some ctx \<Rightarrow>
        c_bind (bdev_ubi_create E (Some opts) (ctx\<lparr>done_arg := request\<rparr>) W) (\<lambda>s.
          Inr ([], free_rpc_construct_ubi, Some s))))"

section \<open>bdev\_ubi\_delete\<close>

definition rpc_delete_ubi_decoders :: "json_decoder list" where
  "rpc_delete_ubi_decoders = [\<lparr>dec_name = ''name'', dec_kind = Decode_string, dec_optional = False\<rparr>]"

definition rpc_bdev_ubi_delete_cb :: "nat \<Rightarrow> int \<Rightarrow> rpc_response" where
  "rpc_bdev_ubi_delete_cb request bdeverrno =
     (if bdeverrno = 0 then Resp_bool request True
      else Resp_error request bdeverrno (Msg_strerror (- bdeverrno)))"

definition rpc_bdev_ubi_delete ::
  "decode_object \<Rightarrow> spdk \<Rightarrow> nat \<Rightarrow> json \<Rightarrow> ubi_world \<Rightarrow>
   (rpc_response list \<times> string list \<times> ubi_world) c_result" where
  "rpc_bdev_ubi_delete dec E request params W =
     (let (rc, m) = dec params rpc_delete_ubi_decoders in
      if rc \<noteq> 0
      then Inr ([Resp_error request JSONRPC_INTERNAL_ERROR (Msg_text ''spdk_json_decode_object failed'')], [], W)
      else case decoded_string m ''name'' None of None \<Rightarrow> Inl Null_deref
        | Some nm \<Rightarrow> Inr ([], [''name''], bdev_ubi_delete E nm request W))"

section \<open>bdev\_ubi\_snapshot\<close>

definition rpc_snapshot_ubi_decoders :: "json_decoder list" where
  "rpc_snapshot_ubi_decoders =
     [\<lparr>dec_name = ''name'', dec_kind = Decode_string, dec_optional = False\<rparr>,
      \<lparr>dec_name = ''path'', dec_kind = Decode_string, dec_optional = False\<rparr>]"

definition rpc_bdev_ubi_snapshot_cb :: "nat \<Rightarrow> int \<Rightarrow> rpc_response" where
  "rpc_bdev_ubi_snapshot_cb request bdeverrno =
     (if bdeverrno = 0 then Resp_bool request True
      else Resp_error request bdeverrno (Msg_strerror (- bdeverrno)))"

definition rpc_bdev_ubi_snapshot ::
  "decode_object \<Rightarrow> snap_env \<Rightarrow> nat \<Rightarrow> json \<Rightarrow> snap_world \<Rightarrow>
   (rpc_response list \<times> string list \<times> snap_state option) c_result" where
  "rpc_bdev_ubi_snapshot dec E request params W =
     (let (rc, m) = dec params rpc_snapshot_ubi_decoders in
      if rc \<noteq> 0
      then Inr ([Resp_error request JSONRPC_INTERNAL_ERROR (Msg_text ''spdk_json_decode_object failed'')],
                [], None)
      else case (decoded_string m ''name'' None, decoded_string m ''path'' None) of
          (Some nm, Some path) \<Rightarrow>
            c_bind (bdev_ubi_snapshot E nm path request W) (\<lambda>s. Inr ([], [''name'', ''path''], Some s))
        | _ \<Rightarrow> Inl Null_deref)"

section \<open>bdev\_ubi\_snapshot\_status\<close>

definition rpc_snapshot_ubi_status_decoders :: "json_decoder list" where
  "rpc_snapshot_ubi_status_decoders = [\<lparr>dec_name = ''name'', dec_kind = Decode_string, dec_optional = False\<rparr>]"

definition status_object :: "string \<Rightarrow> snapshot_status \<Rightarrow> json" where
  "status_object nm st = J_object
     [(''name'', J_string nm), (''in_progress'', J_bool (in_progress st)),
      (''result'', J_number (snap_result st)), (''copied_clusters'', J_number (uint (copied_clusters st))),
      (''total_clusters'', J_number (uint (total_clusters st)))]"

definition rpc_bdev_ubi_snapshot_status ::
  "decode_object \<Rightarrow> snap_env \<Rightarrow> nat \<Rightarrow> json \<Rightarrow> snap_world \<Rightarrow> (rpc_response list \<times> string list) c_result" where
  "rpc_bdev_ubi_snapshot_status dec E request params W =
     (let (rc, m) = dec params rpc_snapshot_ubi_status_decoders in
      if rc \<noteq> 0
      then Inr ([Resp_error request JSONRPC_INTERNAL_ERROR (Msg_text ''spdk_json_decode_object failed'')], [])
      else case decoded_string m ''name'' None of None \<Rightarrow> Inl Null_deref
        | Some nm \<Rightarrow>
            (case se_get_by_name E nm of
               None \<Rightarrow> Inr ([Resp_error request (- ENOENT) (Msg_text ''bdev not found'')], [])
             | Some p \<Rightarrow> c_bind (sderef W p) (\<lambda>b.
                 Inr ([Resp_object request (status_object nm (snap_status b))], []))))"

section \<open>The saved configuration\<close>

definition ubi_write_config_json :: "ubi_bdev \<Rightarrow> json" where
  "ubi_write_config_json b = J_object
     [(''method'', J_string ''bdev_ubi_create''),
      (''params'', J_object [(''name'', J_string (bdev_name b)),
                             (''image_path'', J_string (c_str (image_path b)))])]"

fun json_member :: "string \<Rightarrow> json \<Rightarrow> json option" where
  "json_member k (J_object kvs) = map_of kvs k"
| "json_member k _ = None"

text \<open>
  What the documentation of \<open>spdk_json_decode_object\<close> promises: a decoder that is not optional must find
  its name in the object.
\<close>

definition rejects_missing :: "decode_object \<Rightarrow> bool" where
  "rejects_missing dec \<longleftrightarrow> (\<forall>kvs ds d. d \<in> set ds \<and> \<not> dec_optional d \<and> dec_name d \<notin> fst ` set kvs \<longrightarrow>
     fst (dec (J_object kvs) ds) \<noteq> 0)"

text \<open>The responses that the calls of a creation flow, of a deletion and of a snapshot flow send.\<close>

fun create_responses :: "ubi_world \<Rightarrow> ubi_call list \<Rightarrow> rpc_response c_result list" where
  "create_responses W [] = []"
| "create_responses W (Create_done request bdev st # cs) =
     bdev_ubi_create_done request bdev st W # create_responses W cs"
| "create_responses W (_ # cs) = create_responses W cs"

fun snapshot_responses :: "snap_call list \<Rightarrow> rpc_response list" where
  "snapshot_responses [] = []"
| "snapshot_responses (Sn_cb request rc # cs) = rpc_bdev_ubi_snapshot_cb request rc # snapshot_responses cs"
| "snapshot_responses (_ # cs) = snapshot_responses cs"

text \<open>The members that a decoder table fills with strings the handler owns.\<close>

definition string_members :: "json_decoder list \<Rightarrow> string set" where
  "string_members ds = set (map dec_name (filter (\<lambda>d. dec_kind d = Decode_string) ds))"

section \<open>Every request is answered once\<close>

lemma create_responses_filter:
  "create_responses W cs = create_responses W (filter is_done cs)"
proof (induction cs)
  case (Cons c cs)
  then show ?case by (cases c) simp_all
qed simp

lemma snapshot_responses_filter: "snapshot_responses cs = snapshot_responses (filter is_snap_cb cs)"
proof (induction cs)
  case (Cons c cs)
  then show ?case by (cases c) simp_all
qed simp

text \<open>
  C13. The method \<open>bdev_ubi_create\<close>, from the request to the response. When the handler runs and the flow
  it may have started is over, exactly one response has been sent, to this request: an internal error
  when the parameters do not decode; otherwise, when the flow ends with status 0, the name that the
  request gave the device, and with any other status an error.
\<close>

theorem rpc_create_responds:
  assumes "rpc_bdev_ubi_create dec E (Some ctx) request params W = Inr (resp, freed, st)"
    and "sp_calloc E = Some p" and "calls W = []" and "\<not> registerd ctx"
  shows "(fst (dec params rpc_construct_ubi_decoders) \<noteq> 0 \<longrightarrow> st = None \<and>
      resp = [Resp_error request JSONRPC_INTERNAL_ERROR (Msg_text ''spdk_json_decode_object failed'')]) \<and>
    (fst (dec params rpc_construct_ubi_decoders) = 0 \<longrightarrow> resp = [] \<and>
      (\<exists>s. st = Some s \<and> (\<forall>t. (ubi_create_step E)\<^sup>*\<^sup>* s t \<and> \<not> flow_waiting t \<longrightarrow>
         (\<exists>rc r. create_responses (cs_world t) (calls (cs_world t)) = [Inr r] \<and>
            filter is_done (calls (cs_world t)) = [Create_done request (Some p) rc] \<and>
            (rc = 0 \<longrightarrow> (\<exists>nm. snd (dec params rpc_construct_ubi_decoders) ''name'' = Some (F_string nm) \<and>
               r = Resp_string request nm)) \<and>
            (rc \<noteq> 0 \<longrightarrow> (\<exists>code msg. r = Resp_error request code msg \<and> code < 0))))))"
proof (cases "fst (dec params rpc_construct_ubi_decoders) = 0")
  case False
  with assms(1) show ?thesis
    by (auto simp: rpc_bdev_ubi_create_def split: prod.splits)
next
  case True
  then obtain m where m: "dec params rpc_construct_ubi_decoders = (0, m)"
    by (metis prod.collapse)
  let ?ctx = "ctx\<lparr>done_arg := request\<rparr>"
  from assms(1) m obtain opts s where
    o: "request_opts (fill_construct m request_defaults) = Inr opts" and r: "resp = []" "st = Some s"
    and s: "bdev_ubi_create E (Some opts) ?ctx W = Inr s"
    by (auto simp: rpc_bdev_ubi_create_def)
  have nm: "m ''name'' = Some (F_string (o_name opts))"
    using o by (auto simp: request_opts_def fill_construct_def request_defaults_def decoded_string_def
        split: option.splits field.splits)
  have "\<exists>rc r. create_responses (cs_world t) (calls (cs_world t)) = [Inr r] \<and>
      filter is_done (calls (cs_world t)) = [Create_done request (Some p) rc] \<and>
      (rc = 0 \<longrightarrow> r = Resp_string request (o_name opts)) \<and>
      (rc \<noteq> 0 \<longrightarrow> (\<exists>code msg. r = Resp_error request code msg \<and> code < 0))"
    if run: "(ubi_create_step E)\<^sup>*\<^sup>* s t" and nw: "\<not> flow_waiting t" for t
  proof -
    have st: "case cs_pending s of Some cb \<Rightarrow> create_inv E p opts request (g_ubi_bdev_head W) s cb
        | None \<Rightarrow> create_outcome E p opts request (g_ubi_bdev_head W) s"
      using create_start_inv [OF s assms(2,3)] assms(4) by (simp cong: option.case_cong)
    obtain rc where rc: "filter is_done (calls (cs_world t)) = [Create_done request (Some p) rc]"
      using create_run_inv [OF run st] nw by (auto simp: flow_waiting_def create_outcome_def)
    have cr: "create_responses (cs_world t) (calls (cs_world t)) =
        [bdev_ubi_create_done request (Some p) rc (cs_world t)]"
      by (subst create_responses_filter) (simp add: rc)
    show ?thesis
    proof (cases "rc = 0")
      case True
      obtain b where "heap (cs_world t) p = Some b" "bdev_name b = o_name opts"
        using created_name [OF s assms(2,3) run] rc True by blast
      with True rc cr show ?thesis
        by (simp add: bdev_ubi_create_done_def deref_def)
    next
      case False
      with rc cr show ?thesis
        by (auto simp: bdev_ubi_create_done_def)
    qed
  qed
  with r m nm show ?thesis by auto
qed

text \<open>
  The status that a run of the snapshot flow should report: that the device is unknown, or what the events
  of the run give.
\<close>

definition snapshot_status_of :: "snap_env \<Rightarrow> snap_world \<Rightarrow> string \<Rightarrow> string \<Rightarrow> snap_event list \<Rightarrow> int" where
  "snapshot_status_of E W name path evs =
     (case se_get_by_name E name of
        None \<Rightarrow> - ENOENT
      | Some p \<Rightarrow> answer_status E path (the (sw_heap W p)) evs)"

lemma snap_ok_answer:
  assumes "snap_ok E p path b0 arg evs t" and "\<not> snap_waiting t"
  shows "filter is_snap_cb (sw_calls (ss_world t)) = [Sn_cb arg (answer_status E path b0 evs)] \<and>
    (ss_pending t = Some Sc_copying \<longrightarrow> answer_status E path b0 evs = 0)"
proof (cases "ss_pending t")
  case None
  with assms show ?thesis
    by (auto simp: snap_ok_def snap_over_def)
next
  case (Some cb)
  with assms(2) have "cb = Sc_copying"
    by (simp add: snap_waiting_def)
  with Some assms(1) obtain n where "n_arg n = arg" "snap_inv E p path b0 n t Sc_copying" "snap_seen E path b0 n evs Sc_copying"
    by (auto simp: snap_ok_def)
  then show ?thesis
    using seen_copying(1) by (auto simp: snap_inv_def snap_trace_defs)
qed

lemma snapshot_answer:
  assumes "bdev_ubi_snapshot E name path arg W = Inr s" and "sw_calls W = []"
    and "snap_run E s evs t" and "\<not> snap_waiting t"
  shows "filter is_snap_cb (sw_calls (ss_world t)) = [Sn_cb arg (snapshot_status_of E W name path evs)] \<and>
    (ss_pending t = Some Sc_copying \<longrightarrow> snapshot_status_of E W name path evs = 0)"
proof (cases "se_get_by_name E name")
  case None
  with assms(1,2) have s: "ss_pending s = None" "sw_calls (ss_world s) = [Sn_cb arg (- ENOENT)]"
    by (auto simp: bdev_ubi_snapshot_def)
  have "(snap_step E)\<^sup>*\<^sup>* s t"
    using assms(3) snap_run_steps by blast
  then have "t = s"
    using s(1) snap_no_step by (auto elim: converse_rtranclpE)
  with s None show ?thesis by (simp add: snapshot_status_of_def)
next
  case (Some p)
  with assms(1) obtain b0 where "sw_heap W p = Some b0"
    by (auto simp: bdev_ubi_snapshot_def sderef_Inr_iff)
  with snap_ok_answer [OF snap_ok_run [OF assms(3) snap_ok_start [OF assms(1) Some this assms(2)]] assms(4)] Some
  show ?thesis
    by (simp add: snapshot_status_of_def)
qed

text \<open>
  C19. The method \<open>bdev_ubi_snapshot\<close>, from the request to the response. When the parameters do not decode,
  one error is sent and no flow is started. Otherwise, when the flow that the handler started no longer
  waits, exactly one response has been sent, to this request, and which one follows from what
  SPDK has delivered: the error \<open>ENOENT\<close> for an unknown device; else the error of the first callback that
  failed, or of making the clone read-only; else the error of starting the copy; else true. While the
  copy runs it is true.
\<close>

theorem rpc_snapshot_responds:
  assumes "rpc_bdev_ubi_snapshot dec E request params W = Inr (resp, freed, st)" and "sw_calls W = []"
  shows "(fst (dec params rpc_snapshot_ubi_decoders) \<noteq> 0 \<longrightarrow> st = None \<and>
      resp = [Resp_error request JSONRPC_INTERNAL_ERROR (Msg_text ''spdk_json_decode_object failed'')]) \<and>
    (fst (dec params rpc_snapshot_ubi_decoders) = 0 \<longrightarrow> resp = [] \<and>
      (\<exists>nm path s. decoded_string (snd (dec params rpc_snapshot_ubi_decoders)) ''name'' None = Some nm \<and>
         decoded_string (snd (dec params rpc_snapshot_ubi_decoders)) ''path'' None = Some path \<and> st = Some s \<and>
         (\<forall>evs t. snap_run E s evs t \<and> \<not> snap_waiting t \<longrightarrow>
            snapshot_responses (sw_calls (ss_world t)) =
              [rpc_bdev_ubi_snapshot_cb request (snapshot_status_of E W nm path evs)] \<and>
            (ss_pending t = Some Sc_copying \<longrightarrow>
               snapshot_responses (sw_calls (ss_world t)) = [Resp_bool request True]))))"
proof (cases "fst (dec params rpc_snapshot_ubi_decoders) = 0")
  case False
  with assms(1) show ?thesis
    by (auto simp: rpc_bdev_ubi_snapshot_def split: prod.splits)
next
  case True
  then obtain m where m: "dec params rpc_snapshot_ubi_decoders = (0, m)"
    by (metis prod.collapse)
  with assms(1) obtain nm path s where r: "resp = []" "st = Some s"
    and d: "decoded_string m ''name'' None = Some nm" "decoded_string m ''path'' None = Some path"
    and s: "bdev_ubi_snapshot E nm path request W = Inr s"
    by (auto simp: rpc_bdev_ubi_snapshot_def split: option.splits)
  have "snapshot_responses (sw_calls (ss_world t)) =
        [rpc_bdev_ubi_snapshot_cb request (snapshot_status_of E W nm path evs)] \<and>
      (ss_pending t = Some Sc_copying \<longrightarrow> snapshot_responses (sw_calls (ss_world t)) = [Resp_bool request True])"
    if run: "snap_run E s evs t" and nw: "\<not> snap_waiting t" for evs t
    using snapshot_answer [OF s assms(2) run nw]
    by (subst (1 2) snapshot_responses_filter) (simp add: rpc_bdev_ubi_snapshot_cb_def)
  with r m d show ?thesis
    by (intro conjI impI exI [of _ nm] exI [of _ path] exI [of _ s]) auto
qed

section \<open>Configuration and memory\<close>

text \<open>
  C36. A saved configuration does not restore a device. The parameters that \<open>ubi_write_config_json\<close> writes
  lack the required \<open>base_bdev\<close>, so \<open>bdev_ubi_create\<close> answers them with an error and creates nothing,
  for every device, provided the decoder rejects objects that lack a required member.
\<close>

theorem saved_config_rejected:
  assumes "rejects_missing dec" and "json_member ''params'' (ubi_write_config_json b) = Some params"
  shows "rpc_bdev_ubi_create dec E ctx request params W =
    Inr ([Resp_error request JSONRPC_INTERNAL_ERROR (Msg_text ''spdk_json_decode_object failed'')],
         free_rpc_construct_ubi, None)"
proof -
  have p: "params = J_object [(''name'', J_string (bdev_name b)), (''image_path'', J_string (c_str (image_path b)))]"
    using assms(2) by (simp add: ubi_write_config_json_def)
  have "fst (dec params rpc_construct_ubi_decoders) \<noteq> 0"
    using assms(1) [unfolded rejects_missing_def, rule_format,
        of "\<lparr>dec_name = ''base_bdev'', dec_kind = Decode_string, dec_optional = False\<rparr>"]
    unfolding p by (simp add: rpc_construct_ubi_decoders_def)
  then show ?thesis
    by (simp add: rpc_bdev_ubi_create_def case_prod_unfold)
qed

text \<open>
  The strings that the decoder allocates and the handlers do not free. The create handler frees
  every string but the snapshot path, whether or not the parameters decode; the delete and snapshot handlers free all
  of them, unless decoding fails half way; the status handler frees none.
\<close>

theorem rpc_unfreed_strings:
  "(rpc_bdev_ubi_create dec E ctx request params W = Inr (resp, freed, st) \<longrightarrow>
      string_members rpc_construct_ubi_decoders - set freed = {''snapshot_path''}) \<and>
   (rpc_bdev_ubi_delete dec E request params W = Inr (resp, freed, W') \<longrightarrow>
      string_members rpc_delete_ubi_decoders - set freed =
        (if fst (dec params rpc_delete_ubi_decoders) = 0 then {} else {''name''})) \<and>
   (rpc_bdev_ubi_snapshot dec F request params V = Inr (resp, freed, ss) \<longrightarrow>
      string_members rpc_snapshot_ubi_decoders - set freed =
        (if fst (dec params rpc_snapshot_ubi_decoders) = 0 then {} else {''name'', ''path''})) \<and>
   (rpc_bdev_ubi_snapshot_status dec F request params V = Inr (resp, freed) \<longrightarrow>
      string_members rpc_snapshot_ubi_status_decoders - set freed = {''name''})"
proof (intro conjI impI)
  assume "rpc_bdev_ubi_create dec E ctx request params W = Inr (resp, freed, st)"
  then have "freed = free_rpc_construct_ubi"
    by (auto simp: rpc_bdev_ubi_create_def split: prod.splits if_splits option.splits)
  then show "string_members rpc_construct_ubi_decoders - set freed = {''snapshot_path''}"
    by (auto simp: string_members_def rpc_construct_ubi_decoders_def free_rpc_construct_ubi_def)
next
  assume "rpc_bdev_ubi_delete dec E request params W = Inr (resp, freed, W')"
  then show "string_members rpc_delete_ubi_decoders - set freed =
        (if fst (dec params rpc_delete_ubi_decoders) = 0 then {} else {''name''})"
    by (auto simp: rpc_bdev_ubi_delete_def string_members_def rpc_delete_ubi_decoders_def
        split: prod.splits if_splits option.splits)
next
  assume "rpc_bdev_ubi_snapshot dec F request params V = Inr (resp, freed, ss)"
  then show "string_members rpc_snapshot_ubi_decoders - set freed =
        (if fst (dec params rpc_snapshot_ubi_decoders) = 0 then {} else {''name'', ''path''})"
    by (auto simp: rpc_bdev_ubi_snapshot_def string_members_def rpc_snapshot_ubi_decoders_def
        split: prod.splits if_splits option.splits)
next
  assume "rpc_bdev_ubi_snapshot_status dec F request params V = Inr (resp, freed)"
  then show "string_members rpc_snapshot_ubi_status_decoders - set freed = {''name''}"
    by (auto simp: rpc_bdev_ubi_snapshot_status_def string_members_def rpc_snapshot_ubi_status_decoders_def
        split: prod.splits if_splits option.splits)
qed

section \<open>Concrete requests\<close>

text \<open>A decoder that rejects objects lacking a required member and writes the members it finds.\<close>

fun field_of :: "json \<Rightarrow> field option" where
  "field_of (J_string s) = Some (F_string s)"
| "field_of (J_bool v) = Some (F_bool v)"
| "field_of (J_number n) = Some (F_uint32 (word_of_int n))"
| "field_of (J_object _) = None"

fun demo_decode :: decode_object where
  "demo_decode (J_object kvs) ds =
     (if list_all (\<lambda>d. dec_optional d \<or> dec_name d \<in> fst ` set kvs) ds then 0 else - 1,
      \<lambda>k. Option.bind (map_of kvs k) field_of)"
| "demo_decode _ ds = (- 1, Map.empty)"

lemma demo_decode_rejects: "rejects_missing demo_decode"
  by (auto simp: rejects_missing_def list_all_iff)

definition demo_create_params :: json where
  "demo_create_params = J_object [(''name'', J_string ''ubi0''), (''image_path'', J_string ''img''),
     (''base_bdev'', J_string ''aio0''), (''format_bdev'', J_bool False)]"

lemma demo_create_request:
  "rpc_bdev_ubi_create demo_decode demo_spdk (Some demo_ctx) 5 demo_create_params demo_world =
     c_bind (bdev_ubi_create demo_spdk (Some (demo_opts False)) demo_ctx demo_world)
       (\<lambda>s. Inr ([], free_rpc_construct_ubi, Some s))"
proof -
  obtain m where m: "demo_decode demo_create_params rpc_construct_ubi_decoders = (0, m)"
    "m ''name'' = Some (F_string ''ubi0'')" "m ''image_path'' = Some (F_string ''img'')"
    "m ''base_bdev'' = Some (F_string ''aio0'')" "m ''format_bdev'' = Some (F_bool False)"
    "m ''no_sync'' = None" "m ''directio'' = None" "m ''snapshot_path'' = None"
    by (simp add: demo_create_params_def rpc_construct_ubi_decoders_def)
  have "request_opts (fill_construct m request_defaults) = Inr (demo_opts False)"
    by (simp add: m(2-) fill_construct_def request_defaults_def request_opts_def decoded_string_def
        decoded_bool_def demo_opts_def)
  moreover have "demo_ctx\<lparr>done_arg := 5\<rparr> = demo_ctx"
    by (simp add: demo_ctx_def)
  ultimately show ?thesis
    by (simp add: rpc_bdev_ubi_create_def m(1))
qed

theorem rpc_create_responds_witness:
  "\<exists>s t r. rpc_bdev_ubi_create demo_decode demo_spdk (Some demo_ctx) 5 demo_create_params demo_world =
       Inr ([], free_rpc_construct_ubi, Some s) \<and>
     (ubi_create_step demo_spdk)\<^sup>*\<^sup>* s t \<and> create_responses (cs_world t) (calls (cs_world t)) = [Inr r]"
proof -
  obtain s u t where r: "bdev_ubi_create demo_spdk (Some (demo_opts False)) demo_ctx demo_world = Inr s"
    "ubi_create_step demo_spdk s u" "ubi_create_step demo_spdk u t" "\<not> flow_waiting t"
    using demo_load_run by blast
  then have n: "(ubi_create_step demo_spdk)\<^sup>*\<^sup>* s t"
    by (meson converse_rtranclp_into_rtranclp r_into_rtranclp)
  have h: "rpc_bdev_ubi_create demo_decode demo_spdk (Some demo_ctx) 5 demo_create_params demo_world =
      Inr ([], free_rpc_construct_ubi, Some s)"
    by (simp add: demo_create_request r(1))
  have c: "sp_calloc demo_spdk = Some 10" "calls demo_world = []" "\<not> registerd demo_ctx"
    "fst (demo_decode demo_create_params rpc_construct_ubi_decoders) = 0"
    by (simp_all add: demo_defs demo_create_params_def rpc_construct_ubi_decoders_def)
  show ?thesis
    using rpc_create_responds [OF h c(1-3)] c(4) h n r(4) by blast
qed

text \<open>Two runs of a request: the copy is started, or the snapshot cannot be created.\<close>

theorem rpc_snapshot_responds_witness:
  defines "params \<equiv> J_object [(''name'', J_string ''ubi0''), (''path'', J_string ''snap'')]"
  shows "\<exists>s t evs u. rpc_bdev_ubi_snapshot demo_decode (demo_snap_env 0) 3 params demo_snap_world =
       Inr ([], [''name'', ''path''], Some s) \<and>
     snap_run (demo_snap_env 0) s evs t \<and> length evs = 5 \<and>
     snapshot_responses (sw_calls (ss_world t)) = [Resp_bool 3 True] \<and>
     snap_run (demo_snap_env 0) s [R_created 71 (- ENOSPC)] u \<and>
     snapshot_responses (sw_calls (ss_world u)) = [Resp_error 3 (- ENOSPC) (Msg_strerror ENOSPC)]"
proof -
  obtain s t where s: "bdev_ubi_snapshot (demo_snap_env 0) ''ubi0'' ''snap'' 3 demo_snap_world = Inr s"
    and n: "(snap_step (demo_snap_env 0) ^^ 5) s t" and t: "ss_pending t = Some Sc_copying"
    using demo_snap_copy [of 0] by auto
  obtain evs where r: "snap_run (demo_snap_env 0) s evs t" "length evs = 5"
    using snap_run_length [OF n] by blast
  have h: "rpc_bdev_ubi_snapshot demo_decode (demo_snap_env 0) 3 params demo_snap_world =
       Inr ([], [''name'', ''path''], Some s)"
    using s by (simp add: rpc_bdev_ubi_snapshot_def params_def rpc_snapshot_ubi_decoders_def decoded_string_def)
  have z: "fst (demo_decode params rpc_snapshot_ubi_decoders) = 0"
    "decoded_string (snd (demo_decode params rpc_snapshot_ubi_decoders)) ''name'' None = Some ''ubi0''"
    "decoded_string (snd (demo_decode params rpc_snapshot_ubi_decoders)) ''path'' None = Some ''snap''"
    by (simp_all add: params_def rpc_snapshot_ubi_decoders_def decoded_string_def)
  have "ss_pending s = Some Sc_snapshot_create" and "\<exists>ctx. ss_ctx s = Some ctx \<and> sw_heap (ss_world s) (sc_ubi_bdev ctx) \<noteq> None"
    using s by (auto simp: bdev_ubi_snapshot_def sderef_def)
  then obtain u where u: "snap_run (demo_snap_env 0) s ([] @ [R_created 71 (- ENOSPC)]) u" "ss_pending u = None"
    by (fastforce simp: ubi_snapshot_create_cb_def sderef_def snapshot_fail_def
        intro: snap_run.event [OF snap_run.start] snap_deliver.created)
  have nw: "\<not> snap_waiting t" "\<not> snap_waiting u"
    using t u(2) by (simp_all add: snap_waiting_def)
  have a: "\<forall>evs t. snap_run (demo_snap_env 0) s evs t \<and> \<not> snap_waiting t \<longrightarrow>
      snapshot_responses (sw_calls (ss_world t)) =
        [rpc_bdev_ubi_snapshot_cb 3 (snapshot_status_of (demo_snap_env 0) demo_snap_world ''ubi0'' ''snap'' evs)] \<and>
      (ss_pending t = Some Sc_copying \<longrightarrow> snapshot_responses (sw_calls (ss_world t)) = [Resp_bool 3 True])"
    using rpc_snapshot_responds [OF h] z by simp blast
  have "snapshot_responses (sw_calls (ss_world t)) = [Resp_bool 3 True]"
    using a r(1) t nw(1) by blast
  moreover have "snapshot_responses (sw_calls (ss_world u)) =
       [rpc_bdev_ubi_snapshot_cb 3 (snapshot_status_of (demo_snap_env 0) demo_snap_world ''ubi0'' ''snap'' [R_created 71 (- ENOSPC)])]"
    using a u(1) nw(2) by auto
  ultimately show ?thesis
    using h r u(1) by (auto simp: snapshot_status_of_def answer_status_def rpc_bdev_ubi_snapshot_cb_def)
qed

theorem saved_config_rejected_witness:
  "rpc_bdev_ubi_create demo_decode demo_spdk (Some demo_ctx) 5
     (J_object [(''name'', J_string ''ubi0''), (''image_path'', J_string (c_str (image_path demo_bdev)))]) demo_world =
   Inr ([Resp_error 5 JSONRPC_INTERNAL_ERROR (Msg_text ''spdk_json_decode_object failed'')],
        free_rpc_construct_ubi, None)"
  by (rule saved_config_rejected [where b = demo_bdev, OF demo_decode_rejects])
    (simp add: ubi_write_config_json_def demo_bdev_def)

end
