(* ===== verification/Dd_Engine.thy ===== *)
theory Dd_Engine
  imports Prelude
begin

text \<open>
  The copy engine of \<open>src/app/spdk_dd.c\<close>: the job's state, the handlers that move one I/O unit through
  its stages (seek, populate the buffer from the output, read, write, seek again), the pollers and the
  exit path. \<open>SPDK_CONFIG_URING\<close> is taken as defined; the option \<open>aio\<close> selects the branch that a
  build without it always takes.

  Every request to the kernel or to SPDK is an entry of the trace \<open>ds_calls\<close>, with the status its
  submission returned. What the outside returns to one run of a handler is the record \<open>dd_env\<close>: no
  handler issues two requests of one kind (\<open>e_errno_end\<close> is \<open>errno\<close> after a call of
  \<open>dd_finalize_output\<close>, \<open>e_errno\<close> after any other). The macros of SPDK's \<open>util.h\<close> are the record \<open>dd_lib\<close>, with
  what their documentation promises as \<open>dd_lib_ok\<close>. The contents of buffers are not modelled: a
  unit's buffer is only ever passed to the read and write requests recorded in the trace. \<open>ds_bufs\<close> is
  the pointer \<open>ios\<close>, \<open>None\<close> for null, with the field \<open>buf\<close> of each unit; the other fields are in \<open>ds_ios\<close>.
\<close>

section \<open>Data\<close>

record spdk_dd_opts =
  input_file :: "string option"
  output_file :: "string option"
  input_file_flags :: "string option"
  output_file_flags :: "string option"
  input_bdev :: "string option"
  output_bdev :: "string option"
  input_offset :: u64
  output_offset :: u64
  io_unit_size :: int
  io_unit_count :: int
  queue_depth :: u32
  aio :: bool
  sparse :: bool

datatype dd_submit_type = DD_POPULATE | DD_READ | DD_WRITE

record dd_io =
  dio_offset :: u64
  dio_length :: u64
  dio_type :: dd_submit_type

datatype dd_target_type = DD_TARGET_TYPE_FILE | DD_TARGET_TYPE_BDEV

record dd_target =
  tg_type :: dd_target_type
  tg_fd :: int
  tg_idx :: nat
  tg_desc :: "nat option"
  tg_ch :: "nat option"
  tg_block_size :: u32
  tg_pos :: u64
  tg_total_size :: u64
  tg_open :: bool

datatype dd_backend = By_uring | By_aio | By_bdev

datatype dd_call =
    Dd_submit nat dd_submit_type dd_backend u64 u64 int
  | Dd_seek_data nat u64 int
  | Dd_seek_hole nat u64 int
  | Dd_lseek_data u64
  | Dd_lseek_hole u64
  | Dd_lseek_end
  | Dd_ftruncate u64
  | Dd_progress u64 u64 nat u64 nat
  | Dd_close int
  | Dd_put_channel nat
  | Dd_bdev_close "nat option"
  | Dd_unregister_io_poller
  | Dd_unregister_status_poller
  | Dd_app_stop int
  | Dd_open string u32 int
  | Dd_bdev_open string int
  | Dd_get_channel "nat option"
  | Dd_register_io_poller
  | Dd_register_status_poller
  | Dd_ring_init u32 u32 int
  | Dd_register_files "int list" int
  | Dd_register_buffers u32 int
  | Dd_io_setup u32

record dd_job =
  ds_opts :: spdk_dd_opts
  ds_input :: dd_target
  ds_output :: dd_target
  ds_ios :: "dd_io list"
  ds_outstanding :: u32
  ds_copy_size :: u64
  ds_seek_queue :: "nat list"
  ds_start_time :: "int \<times> int"
  ds_total_bytes :: u64
  ds_incremental_bytes :: u64
  ds_error :: int
  ds_interrupt :: bool
  ds_bufs :: "nat option list option"
  ds_ring_active :: bool
  ds_calls :: "dd_call list"

record dd_env =
  e_sqe :: bool
  e_submit :: int
  e_seek :: int
  e_lseek_data :: "nat option"
  e_lseek_hole :: "nat option"
  e_lseek_end :: "nat option"
  e_ftruncate :: int
  e_errno :: int
  e_errno_end :: int
  e_now :: "int \<times> int"

record dd_lib =
  l_min :: "u64 \<Rightarrow> u64 \<Rightarrow> u64"
  l_imin :: "int \<Rightarrow> int \<Rightarrow> int"
  l_max :: "int \<Rightarrow> int \<Rightarrow> int"
  l_ceil_div :: "u64 \<Rightarrow> u64 \<Rightarrow> u64"

text \<open>What \<open>lseek\<close> returns: an offset, or -1.\<close>

fun off_t :: "nat option \<Rightarrow> int" where
  "off_t None = - 1"
| "off_t (Some n) = int n"

definition dd_lib_ok :: "dd_lib \<Rightarrow> bool" where
  "dd_lib_ok L \<longleftrightarrow>
     (\<forall>a b. l_min L a b = min a b) \<and> (\<forall>a b. l_imin L a b = min a b) \<and>
     (\<forall>a b. l_max L a b = max a b) \<and>
     (\<forall>a b. b \<noteq> 0 \<and> unat a + unat b < 2 ^ 64 \<longrightarrow>
        unat (l_ceil_div L a b) = (unat a + unat b - 1) div unat b)"

section \<open>Leaving the application\<close>

definition emit :: "dd_call list \<Rightarrow> dd_job \<Rightarrow> dd_job" where
  "emit cs D = D\<lparr>ds_calls := ds_calls D @ cs\<rparr>"

definition dd_cleanup_bdev :: "dd_target \<Rightarrow> dd_call list" where
  "dd_cleanup_bdev t =
     (case tg_ch t of Some c \<Rightarrow> [Dd_put_channel c] | None \<Rightarrow> []) @ [Dd_bdev_close (tg_desc t)]"

definition exit_target :: "dd_target \<Rightarrow> dd_call list" where
  "exit_target t =
     (if tg_type t = DD_TARGET_TYPE_FILE then [Dd_close (tg_fd t)]
      else if tg_open t then dd_cleanup_bdev t else [])"

definition dd_exit :: "int \<Rightarrow> dd_job \<Rightarrow> dd_job" where
  "dd_exit rc D =
     emit (exit_target (ds_input D) @ exit_target (ds_output D) @
           (if tg_type (ds_input D) = DD_TARGET_TYPE_FILE \<or> tg_type (ds_output D) = DD_TARGET_TYPE_FILE
            then [Dd_unregister_io_poller] else []) @
           [Dd_unregister_status_poller, Dd_app_stop rc]) D"

section \<open>Progress\<close>

text \<open>
  The loop that scales a byte count: the index into the array of five unit names, and the unit. It
  stops at the last name.
\<close>

function unit_loop :: "nat \<Rightarrow> u64 \<Rightarrow> u64 \<Rightarrow> nat \<times> u64" where
  "unit_loop i tmp unit =
     (if 1024 * 10 < tmp
      then let tmp' = drop_bit 10 tmp; unit' = push_bit 10 unit; i' = Suc i in
        if i' = 4 then (i', unit') else unit_loop i' tmp' unit'
      else (i, unit))"
  by pat_completeness auto

termination
proof (relation "measure (\<lambda>(i, tmp, unit). unat tmp)")
  fix i :: nat and tmp unit x xa :: u64 and xb
  assume "1024 * 10 < tmp" and "x = drop_bit 10 tmp"
  then have "0 < unat tmp" and "unat x = unat tmp div 2 ^ 10"
    by (simp_all only: unat_drop_bit_div) (simp add: word_less_nat_alt)
  then show "((xb, x, xa), i, tmp, unit) \<in> measure (\<lambda>(i, tmp, unit). unat tmp)"
    by simp
qed simp

declare unit_loop.simps [simp del]

definition timespec_to_ms :: "int \<times> int \<Rightarrow> int" where
  "timespec_to_ms t = fst t * 1000 + snd t div 1000000"

definition dd_show_progress :: "dd_lib \<Rightarrow> dd_env \<Rightarrow> bool \<Rightarrow> dd_job \<Rightarrow> dd_job c_result" where
  "dd_show_progress L e finish D =
     (let inc = ds_incremental_bytes D;
          D1 = D\<lparr>ds_incremental_bytes := 0, ds_total_bytes := ds_total_bytes D + inc\<rparr>;
          ms = (if finish
                then word_of_int (l_max L 1 (timespec_to_ms (e_now e) - timespec_to_ms (ds_start_time D)))
                else 1000 :: u64);
          size = (if finish then ds_total_bytes D1 else inc);
          (i, size_unit) = unit_loop 0 size 1 in
      if ms = 0 then Inl Div_by_zero
      else let speed = (size * 1000) div ms; (j, speed_unit) = unit_loop 0 speed 1 in
        if size_unit = 0 \<or> speed_unit = 0 then Inl Div_by_zero
        else Inr (emit [Dd_progress (ds_total_bytes D1 div size_unit) (ds_copy_size D div size_unit) i
                          (speed div speed_unit) j] D1))"

definition dd_status_poller :: "dd_lib \<Rightarrow> dd_env \<Rightarrow> dd_job \<Rightarrow> dd_job c_result" where
  "dd_status_poller L e D = dd_show_progress L e False D"

text \<open>The branch that handlers take when the copy is over, failed or interrupted.\<close>

definition dd_stop :: "dd_lib \<Rightarrow> dd_env \<Rightarrow> dd_job \<Rightarrow> dd_job c_result" where
  "dd_stop L e D =
     (if ds_outstanding D = 0
      then c_bind (if ds_error D = 0 then dd_show_progress L e True D else Inr D)
             (\<lambda>D1. Inr (dd_exit (ds_error D1) D1))
      else Inr D)"

text \<open>The hole at the end of an output file is made by extending it.\<close>

definition extend_output :: "dd_env \<Rightarrow> dd_job \<Rightarrow> dd_job" where
  "extend_output e D =
     (let fin = ds_copy_size D + tg_pos (ds_output D); D1 = emit [Dd_lseek_end] D in
      if off_t (e_lseek_end e) = - 1 then D1\<lparr>ds_error := e_errno_end e\<rparr>
      else if (word_of_int (off_t (e_lseek_end e)) :: u64) < fin
      then let D2 = emit [Dd_ftruncate fin] D1 in
        if e_ftruncate e \<noteq> 0 then D2\<lparr>ds_error := e_errno_end e\<rparr> else D2
      else D1)"

definition dd_finalize_output :: "dd_lib \<Rightarrow> dd_env \<Rightarrow> dd_job \<Rightarrow> dd_job c_result" where
  "dd_finalize_output L e D =
     (if 0 < ds_outstanding D then Inr D
      else let D1 = (if output_file (ds_opts D) = None then D else extend_output e D) in
        c_bind (if ds_error D1 = 0 then dd_show_progress L e True D1 else Inr D1)
          (\<lambda>D2. Inr (dd_exit (ds_error D2) D2)))"

section \<open>Submitting\<close>

text \<open>
  One request for unit \<open>i\<close>; the trace records it with the status that the code goes by. On io\_uring the
  return value of the submission is ignored, but a full submission queue gives a null entry, and the
  length is cut to the 32 bits that liburing's request takes. On AIO the
  code turns a negative \<open>e_submit\<close> into the negated \<open>errno\<close>; on a block device \<open>e_submit\<close> is the status. A
  failed submission is undone and ends the job when nothing is outstanding.
\<close>

definition submit_failed :: "int \<Rightarrow> dd_job \<Rightarrow> dd_job c_result" where
  "submit_failed rc D =
     (if ds_outstanding D = 0 then Inl Assertion_failed
      else let D1 = D\<lparr>ds_outstanding := ds_outstanding D - 1, ds_error := rc\<rparr> in
        Inr (if ds_outstanding D1 = 0 then dd_exit rc D1 else D1))"

definition request_len :: "dd_backend \<Rightarrow> u64 \<Rightarrow> u64" where
  "request_len be len = (if be = By_uring then ucast (ucast len :: u32) else len)"

definition dd_uring_submit :: "dd_env \<Rightarrow> nat \<Rightarrow> u64 \<Rightarrow> u64 \<Rightarrow> dd_job \<Rightarrow> dd_job c_result" where
  "dd_uring_submit e i len off D =
     (if \<not> e_sqe e then Inl Null_deref
      else Inr (emit [Dd_submit i (dio_type (ds_ios D ! i)) By_uring off (request_len By_uring len) 0] D))"

definition dd_submit :: "dd_env \<Rightarrow> nat \<Rightarrow> dd_target \<Rightarrow> u64 \<Rightarrow> u64 \<Rightarrow> dd_job \<Rightarrow> dd_job c_result" where
  "dd_submit e i target len off D =
     (let ty = dio_type (ds_ios D ! i) in
      case tg_type target of
        DD_TARGET_TYPE_FILE \<Rightarrow>
          if \<not> aio (ds_opts D)
          then dd_uring_submit e i len off D
          else let rc = (if e_submit e < 0 then - e_errno e else 0);
                   D1 = emit [Dd_submit i ty By_aio off len rc] D in
            if rc \<noteq> 0 then submit_failed rc D1 else Inr D1
      | DD_TARGET_TYPE_BDEV \<Rightarrow>
          let D1 = emit [Dd_submit i ty By_bdev off len (e_submit e)] D in
          if e_submit e \<noteq> 0 then submit_failed (e_submit e) D1 else Inr D1)"

definition set_io :: "nat \<Rightarrow> (dd_io \<Rightarrow> dd_io) \<Rightarrow> dd_job \<Rightarrow> dd_job" where
  "set_io i f D = D\<lparr>ds_ios := (ds_ios D)[i := f (ds_ios D ! i)]\<rparr>"

text \<open>The start of the regions that are read and written.\<close>

definition read_region_start :: "dd_job \<Rightarrow> u64" where
  "read_region_start D = input_offset (ds_opts D) * word_of_int (io_unit_size (ds_opts D))"

definition write_region_start :: "dd_job \<Rightarrow> u64" where
  "write_region_start D = output_offset (ds_opts D) * word_of_int (io_unit_size (ds_opts D))"

text \<open>\<open>SPDK_CEIL_DIV (len, block_size) * block_size\<close>.\<close>

definition padded :: "dd_lib \<Rightarrow> u64 \<Rightarrow> u32 \<Rightarrow> u64 c_result" where
  "padded L len bs = (if bs = 0 then Inl Div_by_zero else Inr (l_ceil_div L len (ucast bs) * ucast bs))"

definition stopped :: "dd_job \<Rightarrow> bool" where
  "stopped D \<longleftrightarrow> ds_error D \<noteq> 0 \<or> ds_interrupt D"

definition dd_target_write :: "dd_lib \<Rightarrow> dd_env \<Rightarrow> nat \<Rightarrow> dd_job \<Rightarrow> dd_job c_result" where
  "dd_target_write L e i D =
     (let io = ds_ios D ! i; target = ds_output D in
      c_bind (padded L (dio_length io) (tg_block_size target)) (\<lambda>len.
        let read_off = dio_offset io - read_region_start D;
            write_off = write_region_start D + read_off in
        if stopped D then dd_stop L e D
        else let D1 = set_io i (\<lambda>io. io\<lparr>dio_type := DD_WRITE\<rparr>)
                   (D\<lparr>ds_incremental_bytes := ds_incremental_bytes D + dio_length io,
                      ds_outstanding := ds_outstanding D + 1\<rparr>) in
          dd_submit e i target len write_off D1))"

definition dd_target_read :: "dd_env \<Rightarrow> nat \<Rightarrow> dd_job \<Rightarrow> dd_job c_result" where
  "dd_target_read e i D =
     (if stopped D then Inr (if ds_outstanding D = 0 then dd_exit (ds_error D) D else D)
      else let io = ds_ios D ! i;
               D1 = set_io i (\<lambda>io. io\<lparr>dio_type := DD_READ\<rparr>) (D\<lparr>ds_outstanding := ds_outstanding D + 1\<rparr>) in
        dd_submit e i (ds_input D) (dio_length io) (dio_offset io) D1)"

definition dd_target_populate_buffer :: "dd_lib \<Rightarrow> dd_env \<Rightarrow> nat \<Rightarrow> dd_job \<Rightarrow> dd_job c_result" where
  "dd_target_populate_buffer L e i D =
     (let target = ds_output D;
          pos = tg_pos (ds_input D);
          read_off = pos - read_region_start D;
          write_off = write_region_start D + read_off;
          len = l_min L (dio_length (ds_ios D ! i)) (ds_copy_size D - read_off);
          D1 = set_io i (\<lambda>io. io\<lparr>dio_offset := pos, dio_length := len\<rparr>) D in
      if len = 0 \<or> stopped D then dd_stop L e D1
      else let D2 = D1\<lparr>ds_input := (ds_input D1)\<lparr>tg_pos := pos + len\<rparr>\<rparr> in
        if tg_block_size target = 0 then Inl Div_by_zero
        else if len mod ucast (tg_block_size target) = 0 then dd_target_read e i D2
        else let D3 = set_io i (\<lambda>io. io\<lparr>dio_type := DD_POPULATE\<rparr>)
                   (D2\<lparr>ds_outstanding := ds_outstanding D2 + 1\<rparr>) in
          c_bind (padded L len (tg_block_size target)) (\<lambda>plen.
            dd_submit e i target plen write_off D3))"

section \<open>Skipping holes\<close>

definition dd_file_seek_data :: "dd_lib \<Rightarrow> dd_env \<Rightarrow> dd_job \<Rightarrow> (int \<times> dd_job) c_result" where
  "dd_file_seek_data L e D =
     (let D1 = emit [Dd_lseek_data (tg_pos (ds_input D))] D; off = off_t (e_lseek_data e) in
      if off = - 1
      then if e_errno e = ENXIO then c_bind (dd_finalize_output L e D1) (\<lambda>D2. Inr (off, D2))
           else if ds_outstanding D1 = 0
           then Inr (off, dd_exit (e_errno e) (D1\<lparr>ds_error := e_errno e\<rparr>))
           else Inr (off, D1)
      else Inr (off, D1))"

definition dd_file_seek_hole :: "dd_env \<Rightarrow> dd_job \<Rightarrow> int \<times> dd_job" where
  "dd_file_seek_hole e D =
     (let D1 = emit [Dd_lseek_hole (tg_pos (ds_input D))] D; off = off_t (e_lseek_hole e) in
      if off = - 1 \<and> ds_outstanding D1 = 0
      then (off, dd_exit (e_errno e) (D1\<lparr>ds_error := e_errno e\<rparr>))
      else (off, D1))"

definition remove_head :: "dd_job \<Rightarrow> dd_job c_result" where
  "remove_head D = (case ds_seek_queue D of [] \<Rightarrow> Inl Null_deref | _ # q \<Rightarrow> Inr (D\<lparr>ds_seek_queue := q\<rparr>))"

text \<open>
  The completions of the block device's seeks. \<open>blk\<close> is what \<open>spdk_bdev_io_get_seek_offset\<close> returns.
\<close>

definition dd_bdev_seek_data_done :: "dd_lib \<Rightarrow> dd_env \<Rightarrow> nat \<Rightarrow> u64 \<Rightarrow> dd_job \<Rightarrow> dd_job c_result" where
  "dd_bdev_seek_data_done L e i blk D =
     (if stopped D then c_bind (remove_head D) (dd_stop L e)
      else if ds_outstanding D = 0 then Inl Assertion_failed
      else let D1 = D\<lparr>ds_outstanding := ds_outstanding D - 1\<rparr> in
        if blk = - 1 then c_bind (remove_head D1) (dd_finalize_output L e)
        else let bs = ucast (tg_block_size (ds_input D)) :: u64; pos = blk * bs in
          if bs = 0 then Inl Div_by_zero
          else let D2 = emit [Dd_seek_hole i (pos div bs) (e_seek e)]
                     (D1\<lparr>ds_input := (ds_input D1)\<lparr>tg_pos := pos\<rparr>,
                         ds_outstanding := ds_outstanding D1 + 1\<rparr>) in
            if e_seek e \<noteq> 0 then c_bind (remove_head D2) (submit_failed (e_seek e)) else Inr D2)"

definition start_next_seek :: "dd_env \<Rightarrow> dd_job \<Rightarrow> dd_job c_result" where
  "start_next_seek e D =
     (case ds_seek_queue D of
        [] \<Rightarrow> Inr D
      | j # q \<Rightarrow>
          if tg_pos (ds_input D) < tg_total_size (ds_input D)
          then let bs = ucast (tg_block_size (ds_input D)) :: u64 in
            if bs = 0 then Inl Div_by_zero
            else let D1 = emit [Dd_seek_data j (tg_pos (ds_input D) div bs) (e_seek e)]
                       (D\<lparr>ds_outstanding := ds_outstanding D + 1\<rparr>) in
              if e_seek e \<noteq> 0 then submit_failed (e_seek e) D1 else Inr D1
          else Inr D)"

definition dd_bdev_seek_hole_done :: "dd_lib \<Rightarrow> dd_env \<Rightarrow> nat \<Rightarrow> u64 \<Rightarrow> dd_job \<Rightarrow> dd_job c_result" where
  "dd_bdev_seek_hole_done L e i blk D0 =
     c_bind (remove_head D0) (\<lambda>D.
       if stopped D then dd_stop L e D
       else if ds_outstanding D = 0 then Inl Assertion_failed
       else let D1 = D\<lparr>ds_outstanding := ds_outstanding D - 1\<rparr>;
                unit = word_of_int (io_unit_size (ds_opts D)) :: u64;
                len = (if blk = - 1 then unit
                       else l_min L unit (blk * ucast (tg_block_size (ds_input D)) - tg_pos (ds_input D))) in
         c_bind (dd_target_populate_buffer L e i (set_io i (\<lambda>io. io\<lparr>dio_length := len\<rparr>) D1))
           (start_next_seek e))"

text \<open>The two branches of \<open>dd_target_seek\<close>: a file is asked at once, a block device by one request at a time.\<close>

definition seek_length :: "dd_lib \<Rightarrow> int \<Rightarrow> dd_job \<Rightarrow> u64" where
  "seek_length L hoff D =
     (let pos = tg_pos (ds_input D); unit = word_of_int (io_unit_size (ds_opts D)) in
      if pos < word_of_int hoff then l_min L unit (word_of_int hoff - pos) else unit)"

definition seek_file :: "dd_lib \<Rightarrow> dd_env \<Rightarrow> nat \<Rightarrow> dd_job \<Rightarrow> dd_job c_result" where
  "seek_file L e i D =
     c_bind (dd_file_seek_data L e D) (\<lambda>(doff, D1).
       if doff < 0 then Inr D1
       else let D2 = (if tg_pos (ds_input D1) < word_of_int doff
                      then D1\<lparr>ds_input := (ds_input D1)\<lparr>tg_pos := word_of_int doff\<rparr>\<rparr> else D1);
                (hoff, D3) = dd_file_seek_hole e D2 in
         if hoff < 0 then Inr D3
         else dd_target_populate_buffer L e i (set_io i (\<lambda>io. io\<lparr>dio_length := seek_length L hoff D3\<rparr>) D3))"

definition seek_bdev :: "dd_env \<Rightarrow> nat \<Rightarrow> dd_job \<Rightarrow> dd_job c_result" where
  "seek_bdev e i D =
     (case ds_seek_queue D of
        [] \<Rightarrow>
          let bs = ucast (tg_block_size (ds_input D)) :: u64 in
          if bs = 0 then Inl Div_by_zero
          else let D1 = emit [Dd_seek_data i (tg_pos (ds_input D) div bs) (e_seek e)]
                     (D\<lparr>ds_outstanding := ds_outstanding D + 1, ds_seek_queue := [i]\<rparr>) in
            if e_seek e \<noteq> 0 then submit_failed (e_seek e) D1 else Inr D1
      | q \<Rightarrow> Inr (D\<lparr>ds_seek_queue := q @ [i]\<rparr>))"

definition dd_target_seek :: "dd_lib \<Rightarrow> dd_env \<Rightarrow> nat \<Rightarrow> dd_job \<Rightarrow> dd_job c_result" where
  "dd_target_seek L e i D =
     (if \<not> sparse (ds_opts D) then dd_target_populate_buffer L e i D
      else if ds_copy_size D - (tg_pos (ds_input D) - read_region_start D) = 0 \<or> stopped D then dd_stop L e D
      else case tg_type (ds_input D) of
        DD_TARGET_TYPE_FILE \<Rightarrow> seek_file L e i D
      | DD_TARGET_TYPE_BDEV \<Rightarrow> seek_bdev e i D)"

section \<open>Completions\<close>

definition dd_complete_poll :: "dd_lib \<Rightarrow> dd_env \<Rightarrow> nat \<Rightarrow> dd_job \<Rightarrow> dd_job c_result" where
  "dd_complete_poll L e i D =
     (if ds_outstanding D = 0 then Inl Assertion_failed
      else let D1 = D\<lparr>ds_outstanding := ds_outstanding D - 1\<rparr> in
        case dio_type (ds_ios D ! i) of
          DD_POPULATE \<Rightarrow> dd_target_read e i D1
        | DD_READ \<Rightarrow> dd_target_write L e i D1
        | DD_WRITE \<Rightarrow> dd_target_seek L e i D1)"

text \<open>The completions of block device requests; none looks at \<open>success\<close>.\<close>

definition dd_write_bdev_done :: "dd_lib \<Rightarrow> dd_env \<Rightarrow> nat \<Rightarrow> bool \<Rightarrow> dd_job \<Rightarrow> dd_job c_result" where
  "dd_write_bdev_done L e i success D =
     (if ds_outstanding D = 0 then Inl Assertion_failed
      else dd_target_seek L e i (D\<lparr>ds_outstanding := ds_outstanding D - 1\<rparr>))"

definition dd_read_bdev_done :: "dd_lib \<Rightarrow> dd_env \<Rightarrow> nat \<Rightarrow> bool \<Rightarrow> dd_job \<Rightarrow> dd_job c_result" where
  "dd_read_bdev_done L e i success D =
     (if ds_outstanding D = 0 then Inl Assertion_failed
      else dd_target_write L e i (D\<lparr>ds_outstanding := ds_outstanding D - 1\<rparr>))"

definition dd_target_populate_buffer_done :: "dd_env \<Rightarrow> nat \<Rightarrow> bool \<Rightarrow> dd_job \<Rightarrow> dd_job c_result" where
  "dd_target_populate_buffer_done e i success D =
     (if ds_outstanding D = 0 then Inl Assertion_failed
      else dd_target_read e i (D\<lparr>ds_outstanding := ds_outstanding D - 1\<rparr>))"

text \<open>
  The pollers, without their return values, which only tell SPDK whether there was work. The kernel's
  answers are a list: for io\_uring one \<open>io_uring_peek_cqe\<close> per turn of the loop, a completion with its
  unit and result or a status; for AIO the events that \<open>io_getevents\<close> returned.
\<close>

datatype peek = Peek_cqe nat int dd_env | Peek_status int

fun uring_poll_turns :: "dd_lib \<Rightarrow> peek list \<Rightarrow> dd_job \<Rightarrow> dd_job c_result" where
  "uring_poll_turns L [] D = Inr D"
| "uring_poll_turns L (Peek_cqe i res e # ps) D =
     (if res = - EAGAIN then uring_poll_turns L ps D
      else c_bind (dd_complete_poll L e i (if res < 0 then D\<lparr>ds_error := res\<rparr> else D)) (uring_poll_turns L ps))"
| "uring_poll_turns L (Peek_status rc # ps) D =
     uring_poll_turns L ps (if rc \<noteq> - EAGAIN then D\<lparr>ds_error := rc\<rparr> else D)"

definition dd_uring_poll :: "dd_lib \<Rightarrow> peek list \<Rightarrow> dd_job \<Rightarrow> dd_job c_result" where
  "dd_uring_poll L ps D =
     uring_poll_turns L (take (nat (c_int (int (unat (queue_depth (ds_opts D)))))) ps) D"

fun aio_poll_events :: "dd_lib \<Rightarrow> (nat \<times> u64 \<times> dd_env) list \<Rightarrow> dd_job \<Rightarrow> dd_job c_result" where
  "aio_poll_events L [] D = Inr D"
| "aio_poll_events L ((i, res, e) # evs) D =
     c_bind (dd_complete_poll L e i (if res \<noteq> dio_length (ds_ios D ! i) then D\<lparr>ds_error := - ENOSPC\<rparr> else D))
       (aio_poll_events L evs)"

definition dd_aio_poll :: "dd_lib \<Rightarrow> int \<Rightarrow> (nat \<times> u64 \<times> dd_env) list \<Rightarrow> dd_job \<Rightarrow> dd_job c_result" where
  "dd_aio_poll L rc evs D =
     (if rc < 0 then Inr (dd_exit rc D) else aio_poll_events L (take (nat rc) evs) D)"

definition dd_finish :: "dd_job \<Rightarrow> dd_job" where
  "dd_finish D = D\<lparr>ds_interrupt := True\<rparr>"

end
