(* ===== verification/Dd_Progress.thy ===== *)
theory Dd_Progress
  imports Dd_Engine
begin

text \<open>
  The progress line of the copy tool: the loops that choose a unit stay inside the array of unit names,
  nothing is divided by zero, and the numbers shown are the byte counts in the chosen unit.
\<close>

section \<open>Choosing a unit\<close>

text \<open>
  The reference: the least index \<open>k\<close> up to 4 for which the count, in units of \<open>1024 ^ k\<close>, is at most 10240,
  and 4 when there is none.
\<close>

definition fits_unit :: "nat \<Rightarrow> nat \<Rightarrow> bool" where
  "fits_unit n k \<longleftrightarrow> k \<le> 4 \<and> (k = 4 \<or> n div 1024 ^ k \<le> 10240) \<and> (\<forall>j < k. 10240 < n div 1024 ^ j)"

lemma thousand: "(1024 :: nat) ^ k = 2 ^ (10 * k)"
  by (simp add: power_mult)

lemma unit_loop_fits:
  assumes "i < 4" and "\<forall>j < i. 10240 < unat n div 1024 ^ j"
  shows "\<exists>k. unit_loop i (drop_bit (10 * i) n) (push_bit (10 * i) 1) = (k, push_bit (10 * k) 1) \<and>
    fits_unit (unat n) k"
  using assms
proof (induction "4 - i" arbitrary: i)
  case (Suc m)
  let ?tmp = "drop_bit (10 * i) n"
  have tmp: "unat ?tmp = unat n div 1024 ^ i"
    by (simp add: unat_drop_bit_div thousand)
  have big: "1024 * 10 < ?tmp \<longleftrightarrow> 10240 < unat n div 1024 ^ i"
    by (simp add: word_less_nat_alt tmp)
  have nxt: "drop_bit 10 ?tmp = drop_bit (10 * Suc i) n"
    "push_bit 10 (push_bit (10 * i) 1) = (push_bit (10 * Suc i) 1 :: u64)"
    by (simp_all add: push_bit_eq_mult power_add)
  note step = unit_loop.simps [of i ?tmp "push_bit (10 * i) 1", unfolded Let_def nxt]
  show ?case
  proof (cases "10240 < unat n div 1024 ^ i")
    case True
    then have below: "\<forall>j < Suc i. 10240 < unat n div 1024 ^ j"
      using Suc.prems(2) by (auto simp: less_Suc_eq)
    show ?thesis
    proof (cases "Suc i = 4")
      case last: True
      then have "fits_unit (unat n) (Suc i)"
        using below by (simp add: fits_unit_def)
      with True big last show ?thesis
        by (subst step) (intro exI [of _ "Suc i"], simp)
    next
      case False
      from Suc.hyps(1) [of "Suc i"] Suc.hyps(2) Suc.prems(1) False below True big show ?thesis
        by (subst step) simp
    qed
  next
    case False
    then have "fits_unit (unat n) i"
      using Suc.prems by (simp add: fits_unit_def)
    with False big show ?thesis
      by (subst step) (intro exI [of _ i], simp)
  qed
qed simp

lemma unit_loop_start: "\<exists>k. unit_loop 0 n 1 = (k, push_bit (10 * k) 1) \<and> fits_unit (unat n) k"
  using unit_loop_fits [of 0 n] by simp

lemma unit_word:
  assumes "k \<le> 4"
  shows "unat (push_bit (10 * k) 1 :: u64) = 1024 ^ k"
proof -
  have "unat (push_bit (10 * k) 1 :: u64) = unat (1 :: u64) * 2 ^ (10 * k)"
    by (rule unat_push_bit_exact)
      (use assms power_strict_increasing [of "10 * k" 64 "2 :: nat"] in simp)
  then show ?thesis
    by (simp add: thousand)
qed

section \<open>The progress line\<close>

text \<open>The elapsed time is in the range of \<open>uint64_t\<close>.\<close>

definition clock_ok :: "dd_env \<Rightarrow> dd_job \<Rightarrow> bool" where
  "clock_ok e D \<longleftrightarrow> timespec_to_ms (e_now e) - timespec_to_ms (ds_start_time D) < 2 ^ 64"

text \<open>The bytes and the milliseconds of the line.\<close>

definition shown_size :: "bool \<Rightarrow> dd_job \<Rightarrow> u64" where
  "shown_size fin D = (if fin then ds_total_bytes D + ds_incremental_bytes D else ds_incremental_bytes D)"

definition shown_ms :: "dd_env \<Rightarrow> bool \<Rightarrow> dd_job \<Rightarrow> u64" where
  "shown_ms e fin D =
     (if fin then word_of_int (max 1 (timespec_to_ms (e_now e) - timespec_to_ms (ds_start_time D))) else 1000)"

lemma shown_ms_nz: "clock_ok e D \<Longrightarrow> shown_ms e fin D \<noteq> 0"
  by (auto simp: shown_ms_def clock_ok_def word_of_int_eq_0_iff max_def dest!: zdvd_imp_le)

lemma show_progress_ok:
  assumes "dd_lib_ok L" and "clock_ok e D"
  obtains i j su sp where "fits_unit (unat (shown_size fin D)) i" "su = push_bit (10 * i) 1"
    "fits_unit (unat ((shown_size fin D * 1000) div shown_ms e fin D)) j" "sp = push_bit (10 * j) 1"
    "dd_show_progress L e fin D =
       Inr (emit [Dd_progress ((ds_total_bytes D + ds_incremental_bytes D) div su) (ds_copy_size D div su) i
              ((shown_size fin D * 1000) div shown_ms e fin D div sp) j]
            (D\<lparr>ds_incremental_bytes := 0, ds_total_bytes := ds_total_bytes D + ds_incremental_bytes D\<rparr>))"
proof -
  let ?speed = "(shown_size fin D * 1000) div shown_ms e fin D"
  obtain i where i: "unit_loop 0 (shown_size fin D) 1 = (i, push_bit (10 * i) 1)" "fits_unit (unat (shown_size fin D)) i"
    using unit_loop_start by blast
  obtain j where j: "unit_loop 0 ?speed 1 = (j, push_bit (10 * j) 1)" "fits_unit (unat ?speed) j"
    using unit_loop_start by blast
  have nz: "(push_bit (10 * k) 1 :: u64) \<noteq> 0" if "fits_unit n k" for n k
    using unit_word [of k] that by (auto simp: fits_unit_def)
  have ms: "shown_ms e fin D \<noteq> 0"
    using assms(2) by (rule shown_ms_nz)
  have "dd_show_progress L e fin D =
       Inr (emit [Dd_progress ((ds_total_bytes D + ds_incremental_bytes D) div push_bit (10 * i) 1)
              (ds_copy_size D div push_bit (10 * i) 1) i (?speed div push_bit (10 * j) 1) j]
            (D\<lparr>ds_incremental_bytes := 0, ds_total_bytes := ds_total_bytes D + ds_incremental_bytes D\<rparr>))"
    using assms(1) i(1) j(1) nz [OF i(2)] nz [OF j(2)] ms
    by (cases fin) (simp_all add: dd_show_progress_def Let_def dd_lib_ok_def shown_size_def shown_ms_def)
  with i(2) j(2) show thesis
    by (intro that) auto
qed

text \<open>
  C26. The progress line is well defined. With SPDK's documented macros and a clock within range, showing
  the progress divides by nothing that is zero, and the indices into the array of five unit names stay
  at most 4. The size and the speed are shown in the least unit that brings them to at most 10240 (the
  last unit when none does), the totals are the byte counts divided by that unit, and the bytes written
  since the last line move to the total.
\<close>

theorem dd_show_progress_units:
  assumes "dd_lib_ok L" and "clock_ok e D"
  shows "\<exists>D' a b i c j. dd_show_progress L e fin D = Inr D' \<and>
    ds_calls D' = ds_calls D @ [Dd_progress a b i c j] \<and> i \<le> 4 \<and> j \<le> 4 \<and>
    fits_unit (unat (shown_size fin D)) i \<and>
    fits_unit (unat ((shown_size fin D * 1000) div shown_ms e fin D)) j \<and>
    unat a = unat (ds_total_bytes D') div 1024 ^ i \<and> unat b = unat (ds_copy_size D) div 1024 ^ i \<and>
    unat c = unat ((shown_size fin D * 1000) div shown_ms e fin D) div 1024 ^ j \<and>
    ds_total_bytes D' = ds_total_bytes D + ds_incremental_bytes D \<and> ds_incremental_bytes D' = 0"
proof -
  obtain i j su sp where s: "fits_unit (unat (shown_size fin D)) i" "su = push_bit (10 * i) 1"
    "fits_unit (unat ((shown_size fin D * 1000) div shown_ms e fin D)) j" "sp = push_bit (10 * j) 1"
    "dd_show_progress L e fin D =
       Inr (emit [Dd_progress ((ds_total_bytes D + ds_incremental_bytes D) div su) (ds_copy_size D div su) i
              ((shown_size fin D * 1000) div shown_ms e fin D div sp) j]
            (D\<lparr>ds_incremental_bytes := 0, ds_total_bytes := ds_total_bytes D + ds_incremental_bytes D\<rparr>))"
    by (rule show_progress_ok [OF assms])
  have le: "i \<le> 4" "j \<le> 4"
    using s(1,3) by (simp_all add: fits_unit_def)
  then have u: "unat su = 1024 ^ i" "unat sp = 1024 ^ j"
    using s(2,4) by (simp_all only: unit_word)
  show ?thesis
    unfolding s(5) using s(1,3) le u by (auto simp: emit_def unat_div intro!: exI)
qed

section \<open>A concrete instance\<close>

definition demo_lib :: dd_lib where
  "demo_lib = \<lparr>l_min = min, l_imin = min, l_max = max, l_ceil_div = (\<lambda>a b. (a + b - 1) div b)\<rparr>"

lemma demo_lib_ok: "dd_lib_ok demo_lib"
proof -
  have "unat ((a + b - 1) div b) = (unat a + unat b - 1) div unat b"
    if "b \<noteq> 0" "unat a + unat b < 2 ^ 64" for a b :: u64
  proof -
    have ab: "unat (a + b) = unat a + unat b"
      using that(2) by (intro unat_add_exact) simp
    moreover have "0 < unat b"
      using that(1) by (simp add: unat_gt_0)
    ultimately have "1 \<le> a + b"
      by (simp add: word_le_nat_alt)
    then have "unat (a + b - 1) = unat a + unat b - 1"
      using ab by (simp add: unat_sub)
    then show ?thesis
      by (simp add: unat_div)
  qed
  then show ?thesis
    by (simp add: dd_lib_ok_def demo_lib_def)
qed

text \<open>One block of 512 bytes, from a block device to another.\<close>

definition demo_copy_opts :: spdk_dd_opts where
  "demo_copy_opts = \<lparr>input_file = None, output_file = None, input_file_flags = None, output_file_flags = None,
     input_bdev = Some ''in'', output_bdev = Some ''out'', input_offset = 0, output_offset = 0,
     io_unit_size = 512, io_unit_count = 0, queue_depth = 1, aio = False, sparse = False\<rparr>"

definition demo_target :: "nat \<Rightarrow> dd_target" where
  "demo_target k = \<lparr>tg_type = DD_TARGET_TYPE_BDEV, tg_fd = 0, tg_idx = 0, tg_desc = Some k, tg_ch = Some k,
     tg_block_size = 512, tg_pos = 0, tg_total_size = 512, tg_open = True\<rparr>"

definition demo_job :: dd_job where
  "demo_job = \<lparr>ds_opts = demo_copy_opts, ds_input = demo_target 1, ds_output = demo_target 2,
     ds_ios = [\<lparr>dio_offset = 0, dio_length = 512, dio_type = DD_POPULATE\<rparr>], ds_outstanding = 0,
     ds_copy_size = 512, ds_seek_queue = [], ds_start_time = (0, 0), ds_total_bytes = 0,
     ds_incremental_bytes = 0, ds_error = 0, ds_interrupt = False, ds_bufs = Some [Some 0],
     ds_ring_active = False, ds_calls = []\<rparr>"

definition demo_env :: dd_env where
  "demo_env = \<lparr>e_sqe = True, e_submit = 0, e_seek = 0, e_lseek_data = Some 0, e_lseek_hole = Some 0, e_lseek_end = Some 0,
     e_ftruncate = 0, e_errno = 0, e_errno_end = 0, e_now = (2, 0)\<rparr>"

lemma demo_clock: "clock_ok demo_env demo_job"
  by (simp add: clock_ok_def demo_env_def demo_job_def timespec_to_ms_def)

theorem dd_show_progress_units_witness:
  "dd_lib_ok demo_lib \<and> clock_ok demo_env demo_job \<and>
   (\<exists>D' a b i c j. dd_show_progress demo_lib demo_env True demo_job = Inr D' \<and>
      ds_calls D' = [Dd_progress a b i c j] \<and> i \<le> 4 \<and> j \<le> 4)"
proof -
  have "ds_calls demo_job = []"
    by (simp add: demo_job_def)
  with dd_show_progress_units [OF demo_lib_ok demo_clock, of True] show ?thesis
    using demo_lib_ok demo_clock by fastforce
qed

end
