(* ===== verification/Dd_Run.thy ===== *)
theory Dd_Run
  imports Dd_Progress Once_Flow
begin

text \<open>
  Runs of the copy engine, without hole skipping or on an input file: any number of units, completions in any order, with
  any status, interrupted or not. Shown are that the count of outstanding requests is exact, so that no
  assertion fails; that the tool leaves exactly once and exactly when nothing is in flight; and that
  every run without hole skipping ends.
\<close>

section \<open>Runs\<close>

fun submit_of :: "nat \<Rightarrow> dd_call \<Rightarrow> bool" where
  "submit_of i (Dd_submit j _ _ _ _ _) = (j = i)"
| "submit_of i _ = False"

fun is_stop :: "dd_call \<Rightarrow> bool" where
  "is_stop (Dd_app_stop _) = True"
| "is_stop _ = False"

definition stops :: "dd_call list \<Rightarrow> nat" where
  "stops cs = length (filter is_stop cs)"

text \<open>The units whose requests the outside accepted.\<close>

fun submitted :: "dd_call list \<Rightarrow> nat list" where
  "submitted [] = []"
| "submitted (Dd_submit i _ _ _ _ rc # cs) = (if rc = 0 then i # submitted cs else submitted cs)"
| "submitted (_ # cs) = submitted cs"

text \<open>
  Between two completions the status poller may run, the user may interrupt, and the ring may report
  an error that belongs to no request.
\<close>

definition note_error :: "int \<Rightarrow> dd_job \<Rightarrow> dd_job" where
  "note_error err D = (if err \<noteq> 0 then D\<lparr>ds_error := err\<rparr> else D)"

inductive dd_tick :: "dd_lib \<Rightarrow> dd_job \<Rightarrow> dd_job \<Rightarrow> bool" for L where
  status: "dd_status_poller L e D = Inr D' \<Longrightarrow> dd_tick L D D'"
| interrupt: "dd_tick L D (dd_finish D)"
| ring_error: "dd_tick L D (note_error rc D)"

text \<open>
  One step: a request in flight completes. \<open>err\<close> is the error its poller found in the completion, 0 for
  none. A state is the job and the units in flight.
\<close>

definition new_calls :: "dd_job \<Rightarrow> dd_job \<Rightarrow> dd_call list" where
  "new_calls D D' = drop (length (ds_calls D)) (ds_calls D')"

inductive dd_step :: "dd_lib \<Rightarrow> dd_job \<times> nat list \<Rightarrow> dd_job \<times> nat list \<Rightarrow> bool" for L where
  complete: "(dd_tick L)\<^sup>*\<^sup>* D D0 \<Longrightarrow> i \<in> set fl \<Longrightarrow>
    dd_complete_poll L e i (note_error err D0) = Inr D' \<Longrightarrow>
    dd_step L (D, fl) (D', remove1 i fl @ submitted (new_calls D D'))"

text \<open>The start of the copy: the last loop of \<open>dd_run\<close>, with the outside's answers for each turn.\<close>

fun start_units :: "dd_lib \<Rightarrow> dd_env list \<Rightarrow> nat \<Rightarrow> dd_job \<Rightarrow> dd_job c_result" where
  "start_units L [] i D = Inr D"
| "start_units L (e # es) i D = c_bind (dd_target_seek L e i D) (start_units L es (Suc i))"

section \<open>What one handler does\<close>

lemma submitted_append [simp]: "submitted (xs @ ys) = submitted xs @ submitted ys"
  by (induction xs rule: submitted.induct) auto

lemma stops_simps [simp]:
  "stops [] = 0" "stops (xs @ ys) = stops xs + stops ys" "stops (c # cs) = (if is_stop c then 1 else 0) + stops cs"
  by (simp_all add: stops_def)

lemma emit_simps [simp]:
  "ds_opts (emit cs D) = ds_opts D" "ds_input (emit cs D) = ds_input D" "ds_output (emit cs D) = ds_output D"
  "ds_ios (emit cs D) = ds_ios D" "ds_outstanding (emit cs D) = ds_outstanding D"
  "ds_copy_size (emit cs D) = ds_copy_size D" "ds_seek_queue (emit cs D) = ds_seek_queue D"
  "ds_error (emit cs D) = ds_error D" "ds_interrupt (emit cs D) = ds_interrupt D" "ds_bufs (emit cs D) = ds_bufs D"
  "ds_calls (emit cs D) = ds_calls D @ cs"
  by (simp_all add: emit_def)

lemma set_io_simps [simp]:
  "ds_opts (set_io i f D) = ds_opts D" "ds_input (set_io i f D) = ds_input D"
  "ds_output (set_io i f D) = ds_output D" "ds_outstanding (set_io i f D) = ds_outstanding D"
  "ds_copy_size (set_io i f D) = ds_copy_size D" "ds_seek_queue (set_io i f D) = ds_seek_queue D"
  "ds_error (set_io i f D) = ds_error D" "ds_interrupt (set_io i f D) = ds_interrupt D" "ds_bufs (set_io i f D) = ds_bufs D"
  "ds_calls (set_io i f D) = ds_calls D" "ds_ios (set_io i f D) = (ds_ios D)[i := f (ds_ios D ! i)]"
  by (simp_all add: set_io_def)

text \<open>What no handler changes.\<close>

definition frame :: "dd_job \<Rightarrow> dd_job \<Rightarrow> bool" where
  "frame D D' \<longleftrightarrow> ds_opts D' = ds_opts D \<and> ds_output D' = ds_output D \<and>
     (ds_input D')\<lparr>tg_pos := 0\<rparr> = (ds_input D)\<lparr>tg_pos := 0\<rparr> \<and> ds_copy_size D' = ds_copy_size D \<and>
     length (ds_ios D') = length (ds_ios D) \<and> ds_interrupt D' = ds_interrupt D \<and> ds_bufs D' = ds_bufs D \<and>
     (ds_error D \<noteq> 0 \<longrightarrow> ds_error D' \<noteq> 0)"

lemma frame_refl [simp]: "frame D D"
  by (simp add: frame_def)

lemma frame_trans: "frame D D1 \<Longrightarrow> frame D1 D2 \<Longrightarrow> frame D D2"
  by (auto simp: frame_def)

text \<open>
  The two ways a handler for unit \<open>i\<close> ends: it retires the unit, leaving the tool when nothing else is
  outstanding, or it has one request for the unit accepted.
\<close>

definition retires :: "nat \<Rightarrow> dd_job \<Rightarrow> dd_job \<Rightarrow> dd_call list \<Rightarrow> bool" where
  "retires i D D' cs \<longleftrightarrow> submitted cs = [] \<and> ds_outstanding D' = ds_outstanding D \<and>
     stops cs = (if ds_outstanding D = 0 then 1 else 0)"

definition submits :: "nat \<Rightarrow> dd_job \<Rightarrow> dd_job \<Rightarrow> dd_call list \<Rightarrow> bool" where
  "submits i D D' cs \<longleftrightarrow> submitted cs = [i] \<and> ds_outstanding D' = ds_outstanding D + 1 \<and> stops cs = 0 \<and>
     \<not> stopped D'"

definition handled :: "nat \<Rightarrow> dd_job \<Rightarrow> dd_job \<Rightarrow> bool" where
  "handled i D D' \<longleftrightarrow> frame D D' \<and> (\<forall>j. j \<noteq> i \<longrightarrow> ds_ios D' ! j = ds_ios D ! j) \<and>
     (\<exists>cs. ds_calls D' = ds_calls D @ cs \<and> (\<forall>c \<in> set cs. \<forall>j. submit_of j c \<longrightarrow> j = i) \<and>
       (retires i D D' cs \<or> submits i D D' cs))"

lemma exit_calls:
  "ds_calls (dd_exit rc D) = ds_calls D @ cs \<Longrightarrow>
   stops cs = 1 \<and> submitted cs = [] \<and> (\<forall>c \<in> set cs. \<forall>j. \<not> submit_of j c)"
  by (auto simp: dd_exit_def exit_target_def dd_cleanup_bdev_def split: if_splits option.splits)

lemma exit_fields [simp]:
  "ds_opts (dd_exit rc D) = ds_opts D" "ds_input (dd_exit rc D) = ds_input D"
  "ds_output (dd_exit rc D) = ds_output D" "ds_ios (dd_exit rc D) = ds_ios D"
  "ds_outstanding (dd_exit rc D) = ds_outstanding D" "ds_copy_size (dd_exit rc D) = ds_copy_size D"
  "ds_error (dd_exit rc D) = ds_error D" "ds_interrupt (dd_exit rc D) = ds_interrupt D" "ds_bufs (dd_exit rc D) = ds_bufs D"
  by (simp_all add: dd_exit_def)

lemma exit_trace: "\<exists>cs. ds_calls (dd_exit rc D) = ds_calls D @ cs"
  by (simp add: dd_exit_def)

lemma show_progress_effect:
  assumes "dd_show_progress L e fin D = Inr D'"
  shows "ds_opts D' = ds_opts D" "ds_input D' = ds_input D" "ds_output D' = ds_output D"
    "ds_ios D' = ds_ios D" "ds_outstanding D' = ds_outstanding D" "ds_copy_size D' = ds_copy_size D"
    "ds_error D' = ds_error D" "ds_interrupt D' = ds_interrupt D"
    "ds_bufs D' = ds_bufs D"
    "\<exists>a b c d f. ds_calls D' = ds_calls D @ [Dd_progress a b c d f]"
  using assms by (auto simp: dd_show_progress_def Let_def split: prod.splits if_splits)

lemma handledI:
  assumes "frame D D'" and "\<And>j. j \<noteq> i \<Longrightarrow> ds_ios D' ! j = ds_ios D ! j"
    and "ds_calls D' = ds_calls D @ cs" and "\<And>c j. c \<in> set cs \<Longrightarrow> submit_of j c \<Longrightarrow> j = i"
    and "retires i D D' cs \<or> submits i D D' cs"
  shows "handled i D D'"
  using assms unfolding handled_def by blast

text \<open>The stop branch and the exit after a failed submission.\<close>

lemma stop_effect:
  assumes "dd_stop L e D = Inr D'"
  shows "frame D D' \<and> ds_ios D' = ds_ios D \<and> ds_error D' = ds_error D \<and> ds_input D' = ds_input D \<and>
    (\<exists>cs. ds_calls D' = ds_calls D @ cs \<and> (\<forall>c \<in> set cs. \<forall>j. \<not> submit_of j c) \<and> retires i D D' cs)"
proof (cases "ds_outstanding D = 0")
  case True
  with assms obtain D1 where D1: "(if ds_error D = 0 then dd_show_progress L e True D else Inr D) = Inr D1"
    and D': "D' = dd_exit (ds_error D1) D1"
    by (auto simp: dd_stop_def)
  obtain ps where ps: "ds_calls D1 = ds_calls D @ ps" "stops ps = 0" "submitted ps = []"
    "\<forall>c \<in> set ps. \<forall>j. \<not> submit_of j c"
    using D1 show_progress_effect(10) by (cases "ds_error D = 0") fastforce+
  have same: "ds_opts D1 = ds_opts D" "ds_input D1 = ds_input D" "ds_output D1 = ds_output D"
    "ds_ios D1 = ds_ios D" "ds_outstanding D1 = ds_outstanding D" "ds_copy_size D1 = ds_copy_size D"
    "ds_error D1 = ds_error D" "ds_interrupt D1 = ds_interrupt D" "ds_bufs D1 = ds_bufs D"
    using D1 show_progress_effect by (auto split: if_splits)
  obtain cs where cs: "ds_calls D' = ds_calls D1 @ cs"
    using exit_trace D' by blast
  then have "stops cs = 1" "submitted cs = []" "\<forall>c \<in> set cs. \<forall>j. \<not> submit_of j c"
    using exit_calls D' by blast+
  with True ps cs same show ?thesis
    by (intro conjI exI [of _ "ps @ cs"]) (auto simp: D' frame_def retires_def)
next
  case False
  with assms show ?thesis
    by (auto simp: dd_stop_def retires_def)
qed

lemma submit_failed_effect:
  assumes "submit_failed rc D = Inr D'" and "rc \<noteq> 0"
  shows "ds_outstanding D \<noteq> 0 \<and> ds_opts D' = ds_opts D \<and> ds_input D' = ds_input D \<and>
    ds_output D' = ds_output D \<and> ds_ios D' = ds_ios D \<and> ds_copy_size D' = ds_copy_size D \<and>
    ds_interrupt D' = ds_interrupt D \<and> ds_bufs D' = ds_bufs D \<and> ds_error D' \<noteq> 0 \<and> ds_outstanding D' = ds_outstanding D - 1 \<and>
    (\<exists>cs. ds_calls D' = ds_calls D @ cs \<and> (\<forall>c \<in> set cs. \<forall>j. \<not> submit_of j c) \<and> submitted cs = [] \<and>
       stops cs = (if ds_outstanding D' = 0 then 1 else 0))"
proof -
  let ?D1 = "D\<lparr>ds_outstanding := ds_outstanding D - 1, ds_error := rc\<rparr>"
  have o: "ds_outstanding D \<noteq> 0" and D': "D' = (if ds_outstanding ?D1 = 0 then dd_exit rc ?D1 else ?D1)"
    using assms(1) by (auto simp: submit_failed_def split: if_splits)
  obtain cs where cs: "ds_calls (dd_exit rc ?D1) = ds_calls D @ cs"
    using exit_trace [of rc ?D1] by auto
  have "stops cs = 1" "submitted cs = []" "\<forall>c \<in> set cs. \<forall>j. \<not> submit_of j c"
    using exit_calls [of rc ?D1 cs] cs by auto
  with o D' cs assms(2) show ?thesis by auto
qed

text \<open>A submission for unit \<open>i\<close> by a handler that has just counted it.\<close>

lemma submit_effect:
  assumes "dd_submit e i target len off D = Inr D'"
  shows "ds_opts D' = ds_opts D \<and> ds_input D' = ds_input D \<and> ds_output D' = ds_output D \<and>
    ds_ios D' = ds_ios D \<and> ds_copy_size D' = ds_copy_size D \<and> ds_interrupt D' = ds_interrupt D \<and>
    ds_bufs D' = ds_bufs D \<and>
    ((\<exists>be. D' = emit [Dd_submit i (dio_type (ds_ios D ! i)) be off (request_len be len) 0] D) \<or>
     (ds_error D' \<noteq> 0 \<and> ds_outstanding D' = ds_outstanding D - 1 \<and>
       (\<exists>cs. ds_calls D' = ds_calls D @ cs \<and> (\<forall>c \<in> set cs. \<forall>j. submit_of j c \<longrightarrow> j = i) \<and>
          submitted cs = [] \<and> stops cs = (if ds_outstanding D' = 0 then 1 else 0))))"
proof -
  have fail: ?thesis
    if "submit_failed rc (emit [Dd_submit i ty be off len rc] D) = Inr D'" "rc \<noteq> 0" for rc ty be
  proof -
    note f = submit_failed_effect [OF that]
    from f obtain cs where "ds_calls D' = ds_calls D @ Dd_submit i ty be off len rc # cs"
      "\<forall>c \<in> set cs. \<forall>j. \<not> submit_of j c" "submitted cs = []"
      "stops cs = (if ds_outstanding D' = 0 then 1 else 0)"
      by auto
    with f that(2) show ?thesis
      by (intro conjI disjI2 exI [of _ "Dd_submit i ty be off len rc # cs"]) auto
  qed
  have full: "request_len By_aio len = len" "request_len By_bdev len = len"
    by (simp_all add: request_len_def)
  have "(\<exists>be. D' = emit [Dd_submit i (dio_type (ds_ios D ! i)) be off (request_len be len) 0] D) \<or>
      (\<exists>rc ty be. submit_failed rc (emit [Dd_submit i ty be off len rc] D) = Inr D' \<and> rc \<noteq> 0)"
  proof (cases "tg_type target")
    case DD_TARGET_TYPE_FILE
    show ?thesis
    proof (cases "aio (ds_opts D)")
      case True
      with assms DD_TARGET_TYPE_FILE full(1) show ?thesis
        by (auto simp: dd_submit_def Let_def split: if_splits) (metis full(1) neg_equal_0_iff_equal)+
    next
      case False
      with assms DD_TARGET_TYPE_FILE show ?thesis
        by (auto simp: dd_submit_def dd_uring_submit_def Let_def split: if_splits)
    qed
  next
    case DD_TARGET_TYPE_BDEV
    with assms full(2) show ?thesis
      by (auto simp: dd_submit_def Let_def split: if_splits) (metis full(2))+
  qed
  then show ?thesis
  proof (elim disjE exE conjE)
    fix be
    assume D': "D' = emit [Dd_submit i (dio_type (ds_ios D ! i)) be off (request_len be len) 0] D"
    then have "\<exists>be. D' = emit [Dd_submit i (dio_type (ds_ios D ! i)) be off (request_len be len) 0] D" ..
    moreover have "ds_opts D' = ds_opts D" "ds_input D' = ds_input D" "ds_output D' = ds_output D"
      "ds_ios D' = ds_ios D" "ds_copy_size D' = ds_copy_size D" "ds_interrupt D' = ds_interrupt D"
      "ds_bufs D' = ds_bufs D"
      by (simp_all add: D')
    ultimately show ?thesis by blast
  qed (rule fail)
qed

text \<open>
  A handler that counts unit \<open>i\<close>, marks its stage and submits. \<open>D\<close> is the job before, \<open>X\<close> the job when
  the request is submitted.
\<close>

lemma counted_submit:
  assumes "dd_submit e i target len off X = Inr D'"
    and "frame D X" and "ds_calls X = ds_calls D" and "\<And>j. j \<noteq> i \<Longrightarrow> ds_ios X ! j = ds_ios D ! j"
    and "ds_outstanding X = ds_outstanding D + 1" and "\<not> stopped X"
  shows "handled i D D' \<and> ds_input D' = ds_input X \<and> ds_ios D' = ds_ios X \<and>
    (\<not> stopped D' \<longrightarrow> (\<exists>be. ds_calls D' = ds_calls D @ [Dd_submit i (dio_type (ds_ios X ! i)) be off (request_len be len) 0]) \<and>
       ds_outstanding D' = ds_outstanding D + 1)"
proof -
  note s = submit_effect [OF assms(1)]
  from s have same: "ds_input D' = ds_input X" "ds_ios D' = ds_ios X" by blast+
  from s consider
    be where "D' = emit [Dd_submit i (dio_type (ds_ios X ! i)) be off (request_len be len) 0] X"
    | cs where "ds_error D' \<noteq> 0" "ds_outstanding D' = ds_outstanding D" "ds_calls D' = ds_calls D @ cs"
      "\<forall>c \<in> set cs. \<forall>j. submit_of j c \<longrightarrow> j = i" "submitted cs = []"
      "stops cs = (if ds_outstanding D' = 0 then 1 else 0)"
    using assms(3,5) by auto
  then show ?thesis
  proof cases
    case 1
    have "handled i D D'"
      using 1 assms(2-6)
      by (intro handledI [where cs = "[Dd_submit i (dio_type (ds_ios X ! i)) be off (request_len be len) 0]"])
        (auto simp: frame_def submits_def stopped_def)
    with 1 same assms(3,5) show ?thesis by auto
  next
    case 2
    have "handled i D D'"
    proof (rule handledI [where cs = cs])
      show "frame D D'"
        using s assms(2) 2(1) by (auto simp: frame_def)
      show "retires i D D' cs \<or> submits i D D' cs"
        using 2(2,5,6) by (simp add: retires_def)
    qed (use 2 same assms(4) in auto)
    with 2(1) same show ?thesis by (simp add: stopped_def)
  qed
qed

lemma stop_handled:
  assumes "dd_stop L e X = Inr D'" and "frame D X" and "ds_calls X = ds_calls D"
    and "\<And>j. j \<noteq> i \<Longrightarrow> ds_ios X ! j = ds_ios D ! j" and "ds_outstanding X = ds_outstanding D"
  shows "handled i D D' \<and> ds_input D' = ds_input X \<and> ds_ios D' = ds_ios X \<and> stopped D' = stopped X \<and>
    ds_outstanding D' = ds_outstanding D"
proof -
  from stop_effect [OF assms(1), of i] obtain cs where
    s: "frame X D'" "ds_ios D' = ds_ios X" "ds_error D' = ds_error X" "ds_input D' = ds_input X"
      "ds_calls D' = ds_calls D @ cs" "\<forall>c \<in> set cs. \<forall>j. \<not> submit_of j c" "retires i X D' cs"
    using assms(3) by auto
  have "handled i D D'"
    using s assms(2,4,5) by (intro handledI [where cs = cs]) (auto simp: retires_def intro: frame_trans)
  with s assms(5) show ?thesis
    by (auto simp: stopped_def frame_def retires_def)
qed

lemma read_effect:
  assumes "dd_target_read e i D = Inr D'" and "i < length (ds_ios D)"
  shows "handled i D D' \<and> ds_input D' = ds_input D \<and> (stopped D \<longrightarrow> stopped D') \<and>
    (\<not> stopped D' \<longrightarrow> ds_ios D' = (ds_ios D)[i := (ds_ios D ! i)\<lparr>dio_type := DD_READ\<rparr>] \<and>
       ds_outstanding D' = ds_outstanding D + 1 \<and>
       (\<exists>be. ds_calls D' = ds_calls D @
          [Dd_submit i DD_READ be (dio_offset (ds_ios D ! i)) (request_len be (dio_length (ds_ios D ! i))) 0]))"
proof (cases "stopped D")
  case True
  let ?X = "if ds_outstanding D = 0 then dd_exit (ds_error D) D else D"
  obtain cs where cs: "ds_calls (dd_exit (ds_error D) D) = ds_calls D @ cs"
    using exit_trace by blast
  note c = exit_calls [OF cs]
  have D': "D' = ?X"
    using assms(1) True by (simp add: dd_target_read_def)
  have "handled i D ?X"
    using c cs
    by (intro handledI [where cs = "if ds_outstanding D = 0 then cs else []"]) (auto simp: frame_def retires_def)
  with True show ?thesis
    unfolding D' by (auto simp: stopped_def)
next
  case False
  let ?X = "set_io i (\<lambda>io. io\<lparr>dio_type := DD_READ\<rparr>) (D\<lparr>ds_outstanding := ds_outstanding D + 1\<rparr>)"
  have s: "dd_submit e i (ds_input D) (dio_length (ds_ios D ! i)) (dio_offset (ds_ios D ! i)) ?X = Inr D'"
    using assms(1) False by (simp add: dd_target_read_def Let_def)
  from counted_submit [OF s, of D] assms(2) False show ?thesis
    by (auto simp: frame_def stopped_def)
qed

lemma write_effect:
  assumes "dd_target_write L e i D = Inr D'" and "i < length (ds_ios D)"
  shows "handled i D D' \<and> ds_input D' = ds_input D \<and> (stopped D \<longrightarrow> stopped D') \<and>
    (\<not> stopped D' \<longrightarrow> ds_ios D' = (ds_ios D)[i := (ds_ios D ! i)\<lparr>dio_type := DD_WRITE\<rparr>] \<and>
       ds_outstanding D' = ds_outstanding D + 1 \<and>
       (\<exists>be plen. padded L (dio_length (ds_ios D ! i)) (tg_block_size (ds_output D)) = Inr plen \<and>
          ds_calls D' = ds_calls D @ [Dd_submit i DD_WRITE be
            (write_region_start D + (dio_offset (ds_ios D ! i) - read_region_start D)) (request_len be plen) 0]))"
proof -
  obtain plen where p: "padded L (dio_length (ds_ios D ! i)) (tg_block_size (ds_output D)) = Inr plen"
    using assms(1) by (auto simp: dd_target_write_def Let_def)
  show ?thesis
  proof (cases "stopped D")
    case True
    then have "dd_stop L e D = Inr D'"
      using assms(1) p by (simp add: dd_target_write_def Let_def)
    from stop_handled [OF this, of D i] True show ?thesis by simp
  next
    case False
    let ?X = "set_io i (\<lambda>io. io\<lparr>dio_type := DD_WRITE\<rparr>)
      (D\<lparr>ds_incremental_bytes := ds_incremental_bytes D + dio_length (ds_ios D ! i),
         ds_outstanding := ds_outstanding D + 1\<rparr>)"
    have s: "dd_submit e i (ds_output D) plen
        (write_region_start D + (dio_offset (ds_ios D ! i) - read_region_start D)) ?X = Inr D'"
      using assms(1) False p by (simp add: dd_target_write_def Let_def)
    from counted_submit [OF s, of D] assms(2) False p show ?thesis
      by (auto simp: frame_def stopped_def)
  qed
qed

text \<open>The bytes of the region that no unit has claimed yet, and what the next claim by unit \<open>i\<close> takes.\<close>

definition remaining :: "dd_job \<Rightarrow> u64" where
  "remaining D = ds_copy_size D - (tg_pos (ds_input D) - read_region_start D)"

definition claim :: "dd_lib \<Rightarrow> nat \<Rightarrow> dd_job \<Rightarrow> u64" where
  "claim L i D = l_min L (dio_length (ds_ios D ! i)) (remaining D)"

definition claimed_io :: "dd_lib \<Rightarrow> nat \<Rightarrow> dd_job \<Rightarrow> dd_submit_type \<Rightarrow> dd_io" where
  "claimed_io L i D ty = \<lparr>dio_offset = tg_pos (ds_input D), dio_length = claim L i D, dio_type = ty\<rparr>"

text \<open>Calls that are neither requests of units nor stops of the application.\<close>

definition quiet :: "dd_call list \<Rightarrow> bool" where
  "quiet cs \<longleftrightarrow> submitted cs = [] \<and> stops cs = 0 \<and> (\<forall>c \<in> set cs. \<forall>j. \<not> submit_of j c)"

lemma handled_pre:
  assumes "handled i X D'" and "frame D X" and "ds_calls X = ds_calls D @ ps" and "quiet ps"
    and "\<And>j. j \<noteq> i \<Longrightarrow> ds_ios X ! j = ds_ios D ! j" and "ds_outstanding X = ds_outstanding D"
  shows "handled i D D'"
proof -
  from assms(1) obtain cs where h: "frame X D'" "\<forall>j. j \<noteq> i \<longrightarrow> ds_ios D' ! j = ds_ios X ! j"
    "ds_calls D' = ds_calls X @ cs" "\<forall>c \<in> set cs. \<forall>j. submit_of j c \<longrightarrow> j = i"
    "retires i X D' cs \<or> submits i X D' cs"
    by (auto simp: handled_def)
  show ?thesis
  proof (rule handledI [where cs = "ps @ cs"])
    show "frame D D'"
      using assms(2) h(1) by (rule frame_trans)
    show "retires i D D' (ps @ cs) \<or> submits i D D' (ps @ cs)"
      using h(5) assms(4,6) by (auto simp: retires_def submits_def quiet_def)
  qed (use h assms(3-5) in \<open>auto simp: quiet_def\<close>)
qed

lemma populate_effect:
  assumes "dd_target_populate_buffer L e i D = Inr D'" and "i < length (ds_ios D)"
  shows "handled i D D' \<and> (stopped D \<longrightarrow> stopped D') \<and>
    (claim L i D = 0 \<or> stopped D \<longrightarrow> ds_input D' = ds_input D \<and> ds_outstanding D' = ds_outstanding D \<and>
       stopped D' = stopped D \<and>
       ds_ios D' = (ds_ios D)[i := claimed_io L i D (dio_type (ds_ios D ! i))]) \<and>
    (claim L i D \<noteq> 0 \<and> \<not> stopped D \<longrightarrow>
       ds_input D' = (ds_input D)\<lparr>tg_pos := tg_pos (ds_input D) + claim L i D\<rparr> \<and>
       (\<not> stopped D' \<longrightarrow> ds_outstanding D' = ds_outstanding D + 1 \<and>
          (\<exists>ty be off len. ty \<noteq> DD_WRITE \<and> ds_ios D' = (ds_ios D)[i := claimed_io L i D ty] \<and>
             ds_calls D' = ds_calls D @ [Dd_submit i ty be off (request_len be len) 0] \<and>
             (if claim L i D mod ucast (tg_block_size (ds_output D)) = 0
              then ty = DD_READ \<and> off = tg_pos (ds_input D) \<and> len = claim L i D
              else ty = DD_POPULATE \<and> padded L (claim L i D) (tg_block_size (ds_output D)) = Inr len \<and>
                off = write_region_start D + (tg_pos (ds_input D) - read_region_start D)))))"
proof -
  let ?len = "claim L i D"
  let ?D1 = "set_io i (\<lambda>io. io\<lparr>dio_offset := tg_pos (ds_input D), dio_length := ?len\<rparr>) D"
  let ?D2 = "?D1\<lparr>ds_input := (ds_input D)\<lparr>tg_pos := tg_pos (ds_input D) + ?len\<rparr>\<rparr>"
  have ios: "ds_ios D ! i = \<lparr>dio_offset = dio_offset (ds_ios D ! i), dio_length = dio_length (ds_ios D ! i),
      dio_type = dio_type (ds_ios D ! i)\<rparr>" by simp
  have up: "(ds_ios D ! i)\<lparr>dio_offset := tg_pos (ds_input D), dio_length := ?len\<rparr> =
      claimed_io L i D (dio_type (ds_ios D ! i))"
    by (subst ios) (simp add: claimed_io_def)
  have D1: "frame D ?D1" "ds_ios ?D1 = (ds_ios D)[i := claimed_io L i D (dio_type (ds_ios D ! i))]"
    by (simp_all add: frame_def up)
  have D2: "frame D ?D2"
    by (simp add: frame_def)
  consider "?len = 0 \<or> stopped D" | "?len \<noteq> 0" "\<not> stopped D" by blast
  then show ?thesis
  proof cases
    case 1
    then have "dd_stop L e ?D1 = Inr D'"
      using assms(1) by (auto simp: dd_target_populate_buffer_def claim_def remaining_def Let_def)
    from stop_handled [OF this D1(1), of i] 1 D1(2) show ?thesis
      by (auto simp: stopped_def)
  next
    case 2
    show ?thesis
    proof (cases "?len mod ucast (tg_block_size (ds_output D)) = 0")
      case True
      then have r: "dd_target_read e i ?D2 = Inr D'"
        using assms(1) 2 by (auto simp: dd_target_populate_buffer_def claim_def remaining_def Let_def split: if_splits)
      have tail: "i < length (ds_ios ?D2)"
        using assms(2) by simp
      note re = read_effect [OF r tail]
      have "handled i D D'"
        using re by (intro handled_pre [OF _ D2, where ps = "[]"]) (auto simp: quiet_def)
      with re 2 assms(2) True show ?thesis
        by (auto simp: claimed_io_def up stopped_def)
    next
      case False
      let ?D3 = "set_io i (\<lambda>io. io\<lparr>dio_type := DD_POPULATE\<rparr>) (?D2\<lparr>ds_outstanding := ds_outstanding D + 1\<rparr>)"
      obtain plen where pl: "padded L ?len (tg_block_size (ds_output D)) = Inr plen"
        and s: "dd_submit e i (ds_output D) plen
          (write_region_start D + (tg_pos (ds_input D) - read_region_start D)) ?D3 = Inr D'"
        using assms(1) 2 False
        by (auto simp: dd_target_populate_buffer_def claim_def remaining_def Let_def split: if_splits)
      have "frame D ?D3"
        by (simp add: frame_def)
      from counted_submit [OF s this] 2 assms(2) pl False show ?thesis
        by (auto simp: claimed_io_def up stopped_def)
    qed
  qed
qed

section \<open>Seeking in a file\<close>

text \<open>Hole skipping asks the kernel at once when the input is a file; block devices answer later.\<close>

definition sync_seek :: "dd_job \<Rightarrow> bool" where
  "sync_seek D \<longleftrightarrow> (sparse (ds_opts D) \<longrightarrow> tg_type (ds_input D) = DD_TARGET_TYPE_FILE)"

lemma frame_sync: "frame D D' \<Longrightarrow> sync_seek D' = sync_seek D"
proof -
  assume f: "frame D D'"
  then have "tg_type ((ds_input D')\<lparr>tg_pos := 0\<rparr>) = tg_type ((ds_input D)\<lparr>tg_pos := 0\<rparr>)"
    by (simp only: frame_def)
  then have "tg_type (ds_input D') = tg_type (ds_input D)"
    by simp
  moreover have "ds_opts D' = ds_opts D"
    using f by (simp add: frame_def)
  ultimately show ?thesis
    by (simp add: sync_seek_def)
qed

lemma dense_sync: "\<not> sparse (ds_opts D) \<Longrightarrow> sync_seek D"
  by (simp add: sync_seek_def)

lemma sync_seek_outstanding [simp]: "sync_seek (D\<lparr>ds_outstanding := n\<rparr>) = sync_seek D"
  by (simp add: sync_seek_def)

text \<open>Leaving, or going back to the other units in flight.\<close>

lemma exit_handled:
  assumes "ds_outstanding D = 0" and "frame D X" and "ds_ios X = ds_ios D" and "ds_outstanding X = ds_outstanding D"
    and "ds_calls X = ds_calls D @ ps" and "quiet ps"
  shows "handled i D (dd_exit rc X)"
proof -
  obtain cs where cs: "ds_calls (dd_exit rc X) = ds_calls X @ cs"
    using exit_trace by blast
  show ?thesis
    using assms cs exit_calls [OF cs]
    by (intro handledI [where cs = "ps @ cs"]) (auto simp: frame_def retires_def quiet_def)
qed

lemma quiet_handled:
  assumes "ds_outstanding D \<noteq> 0" and "quiet ps"
  shows "handled i D (emit ps D)"
  using assms by (intro handledI [where cs = ps]) (auto simp: frame_def retires_def quiet_def)

lemma extend_output_effect:
  "ds_error D = 0 \<Longrightarrow> frame D (extend_output e D) \<and> ds_ios (extend_output e D) = ds_ios D \<and>
     ds_outstanding (extend_output e D) = ds_outstanding D \<and>
     (\<exists>qs. ds_calls (extend_output e D) = ds_calls D @ qs \<and> quiet qs)"
  by (auto simp: extend_output_def Let_def frame_def quiet_def)

lemma finalize_handled:
  assumes "dd_finalize_output L e (emit ps D) = Inr D'" and "ds_error D = 0" and "quiet ps"
  shows "handled i D D'"
proof (cases "ds_outstanding D = 0")
  case True
  let ?D1 = "if output_file (ds_opts D) = None then emit ps D else extend_output e (emit ps D)"
  obtain D2 where D2: "(if ds_error ?D1 = 0 then dd_show_progress L e True ?D1 else Inr ?D1) = Inr D2"
    "D' = dd_exit (ds_error D2) D2"
    using assms(1) True by (auto simp: dd_finalize_output_def Let_def simp del: c_bind.simps split: if_splits)
  have 1: "frame (emit ps D) ?D1 \<and> ds_ios ?D1 = ds_ios D \<and> ds_outstanding ?D1 = ds_outstanding D \<and>
      (\<exists>qs. ds_calls ?D1 = ds_calls D @ ps @ qs \<and> quiet qs)"
    using extend_output_effect [of "emit ps D" e] assms(2) by (auto simp: quiet_def)
  then obtain qs where qs: "ds_calls ?D1 = ds_calls D @ ps @ qs" "quiet qs" by blast
  have 2: "frame ?D1 D2 \<and> ds_ios D2 = ds_ios ?D1 \<and> ds_outstanding D2 = ds_outstanding ?D1 \<and>
      (\<exists>rs. ds_calls D2 = ds_calls ?D1 @ rs \<and> quiet rs)"
  proof (cases "ds_error ?D1 = 0")
    case True
    with D2(1) have "dd_show_progress L e True ?D1 = Inr D2" by simp
    from show_progress_effect [OF this] show ?thesis
      by (auto simp: frame_def quiet_def)
  next
    case False
    with D2(1) show ?thesis by (auto simp: quiet_def)
  qed
  then obtain rs where rs: "ds_calls D2 = ds_calls ?D1 @ rs" "quiet rs" by blast
  have fr: "frame D (emit ps D)"
    by (simp add: frame_def)
  show ?thesis
    unfolding D2(2)
  proof (rule exit_handled [where ps = "ps @ qs @ rs"])
    show "frame D D2"
      using fr 1 2 frame_trans by blast
    show "quiet (ps @ qs @ rs)"
      using assms(3) qs(2) rs(2) by (auto simp: quiet_def)
  qed (use True 1 2 qs(1) rs(1) in simp_all)
next
  case False
  then have "0 < ds_outstanding D"
    by (simp add: word_gt_0)
  with assms(1) have "D' = emit ps D"
    by (simp add: dd_finalize_output_def)
  with quiet_handled [OF False assms(3)] show ?thesis by simp
qed

text \<open>The whole seek handler, when it does not have to wait for a block device.\<close>

lemma file_seek_handled:
  assumes "seek_file L e i D = Inr D'" and "i < length (ds_ios D)" and "\<not> stopped D"
  shows "handled i D D'"
proof -
  let ?ps = "[Dd_lseek_data (tg_pos (ds_input D))]"
  have err: "ds_error D = 0"
    using assms(3) by (simp add: stopped_def)
  have quiet1: "quiet ?ps"
    by (simp add: quiet_def)
  show ?thesis
  proof (cases "e_lseek_data e")
    case None
    then consider "dd_finalize_output L e (emit ?ps D) = Inr D'"
      | "ds_outstanding D = 0" "D' = dd_exit (e_errno e) ((emit ?ps D)\<lparr>ds_error := e_errno e\<rparr>)"
      | "ds_outstanding D \<noteq> 0" "D' = emit ?ps D"
      using assms(1) by (auto simp: seek_file_def dd_file_seek_data_def Let_def split: if_splits)
    then show ?thesis
    proof cases
      case 1
      then show ?thesis using finalize_handled err quiet1 by blast
    next
      case 2
      show ?thesis
        unfolding 2(2) by (rule exit_handled [OF 2(1)]) (use err quiet1 in \<open>auto simp: frame_def\<close>)
    next
      case 3
      then show ?thesis using quiet_handled [OF 3(1) quiet1] by simp
    qed
  next
    case (Some n)
    let ?D1 = "emit ?ps D"
    define D2 where "D2 = (if tg_pos (ds_input D) < word_of_int (int n)
      then ?D1\<lparr>ds_input := (ds_input ?D1)\<lparr>tg_pos := word_of_int (int n)\<rparr>\<rparr> else ?D1)"
    let ?qs = "?ps @ [Dd_lseek_hole (tg_pos (ds_input D2))]"
    let ?D3 = "emit [Dd_lseek_hole (tg_pos (ds_input D2))] D2"
    have quiet2: "quiet ?qs"
      by (simp add: quiet_def)
    have D2: "frame D D2" "ds_ios D2 = ds_ios D" "ds_outstanding D2 = ds_outstanding D" "ds_calls D2 = ds_calls D @ ?ps"
      by (simp_all add: D2_def frame_def)
    have eq: "seek_file L e i D = (let (hoff, D3) = dd_file_seek_hole e D2 in
        if hoff < 0 then Inr D3
        else dd_target_populate_buffer L e i (set_io i (\<lambda>io. io\<lparr>dio_length := seek_length L hoff D3\<rparr>) D3))"
      using Some by (simp add: seek_file_def dd_file_seek_data_def D2_def Let_def)
    consider "e_lseek_hole e = None" "ds_outstanding D = 0" "D' = dd_exit (e_errno e) (?D3\<lparr>ds_error := e_errno e\<rparr>)"
      | "e_lseek_hole e = None" "ds_outstanding D \<noteq> 0" "D' = ?D3"
      | len where "dd_target_populate_buffer L e i (set_io i (\<lambda>io. io\<lparr>dio_length := len\<rparr>) ?D3) = Inr D'"
      using assms(1) D2(3) unfolding eq
      by (cases "e_lseek_hole e") (auto simp: dd_file_seek_hole_def Let_def split: if_splits)
    then show ?thesis
    proof cases
      case 1
      show ?thesis
        unfolding 1(3)
        by (rule exit_handled [OF 1(2), where ps = ?qs]) (use D2 err quiet2 in \<open>auto simp: frame_def\<close>)
    next
      case 2
      then show ?thesis
        using D2 quiet2 by (intro handledI [where cs = ?qs]) (auto simp: frame_def retires_def quiet_def)
    next
      case 3
      let ?X = "set_io i (\<lambda>io. io\<lparr>dio_length := len\<rparr>) ?D3"
      have "handled i ?X D'"
        using populate_effect [OF 3] D2(2) assms(2) by simp
      moreover have "frame D ?X"
        using D2(1) by (simp add: frame_def)
      ultimately show ?thesis
        by (rule handled_pre [where ps = ?qs]) (use D2 quiet2 in auto)
    qed
  qed
qed

lemma seek_handled:
  assumes "dd_target_seek L e i D = Inr D'" and "i < length (ds_ios D)" and "sync_seek D"
  shows "handled i D D'"
proof -
  consider "\<not> sparse (ds_opts D)"
    | "sparse (ds_opts D)" "ds_copy_size D - (tg_pos (ds_input D) - read_region_start D) = 0 \<or> stopped D"
    | "sparse (ds_opts D)" "ds_copy_size D - (tg_pos (ds_input D) - read_region_start D) \<noteq> 0" "\<not> stopped D"
    by blast
  then show ?thesis
  proof cases
    case 1
    with assms(1) populate_effect [OF _ assms(2)] show ?thesis
      by (auto simp: dd_target_seek_def)
  next
    case 2
    with assms(1) have "dd_stop L e D = Inr D'"
      by (auto simp: dd_target_seek_def)
    from stop_handled [OF this, of D i] show ?thesis by simp
  next
    case 3
    with assms(1,3) have "seek_file L e i D = Inr D'"
      by (simp add: dd_target_seek_def sync_seek_def)
    from file_seek_handled [OF this assms(2) 3(3)] show ?thesis .
  qed
qed

section \<open>The invariant of a run\<close>

definition dd_inv :: "nat \<Rightarrow> dd_job \<times> nat list \<Rightarrow> bool" where
  "dd_inv n s \<longleftrightarrow> (case s of (D, fl) \<Rightarrow>
     sync_seek D \<and> length (ds_ios D) = n \<and> n < 2 ^ 32 \<and> distinct fl \<and> set fl \<subseteq> {..<n} \<and>
     unat (ds_outstanding D) = length fl)"

text \<open>What ticks change: the progress counters, the trace, and the interrupt flag once.\<close>

definition calm :: "dd_job \<Rightarrow> dd_job \<Rightarrow> bool" where
  "calm D D' \<longleftrightarrow> ds_opts D' = ds_opts D \<and> ds_input D' = ds_input D \<and> ds_output D' = ds_output D \<and>
     ds_ios D' = ds_ios D \<and> ds_outstanding D' = ds_outstanding D \<and> ds_copy_size D' = ds_copy_size D \<and>
     ds_bufs D' = ds_bufs D \<and> (stopped D \<longrightarrow> stopped D') \<and>
     (\<exists>cs. ds_calls D' = ds_calls D @ cs \<and> submitted cs = [] \<and> stops cs = 0 \<and>
        (\<forall>c \<in> set cs. \<forall>j. \<not> submit_of j c))"

lemma calm_refl [simp]: "calm D D"
  by (simp add: calm_def)

lemma calm_trans:
  assumes "calm D D1" and "calm D1 D2"
  shows "calm D D2"
proof -
  obtain cs where "ds_calls D1 = ds_calls D @ cs" "submitted cs = []" "stops cs = 0"
    "\<forall>c \<in> set cs. \<forall>j. \<not> submit_of j c"
    using assms(1) unfolding calm_def by blast
  moreover obtain cs' where "ds_calls D2 = ds_calls D1 @ cs'" "submitted cs' = []" "stops cs' = 0"
    "\<forall>c \<in> set cs'. \<forall>j. \<not> submit_of j c"
    using assms(2) unfolding calm_def by blast
  ultimately have "\<exists>cs. ds_calls D2 = ds_calls D @ cs \<and> submitted cs = [] \<and> stops cs = 0 \<and>
      (\<forall>c \<in> set cs. \<forall>j. \<not> submit_of j c)"
    by (intro exI [of _ "cs @ cs'"]) auto
  then show ?thesis
    using assms unfolding calm_def by simp
qed

lemma note_error_calm: "calm D (note_error err D)"
  by (auto simp: calm_def note_error_def stopped_def)

lemma tick_calm:
  assumes "dd_tick L D D'"
  shows "calm D D'"
  using assms
proof (cases rule: dd_tick.cases)
  case (status e)
  then have "dd_show_progress L e False D = Inr D'"
    by (simp add: dd_status_poller_def)
  from show_progress_effect [OF this] show ?thesis
    by (auto simp: calm_def stopped_def)
next
  case interrupt
  then show ?thesis
    by (auto simp: calm_def stopped_def dd_finish_def)
next
  case (ring_error rc)
  then show ?thesis
    by (simp add: note_error_calm)
qed

lemma ticks_calm: "(dd_tick L)\<^sup>*\<^sup>* D D' \<Longrightarrow> calm D D'"
  by (induction rule: rtranclp_induct) (auto intro: calm_trans tick_calm)

text \<open>A unit that is not in flight is handled: the invariant holds for the new units in flight.\<close>

lemma handled_inv:
  assumes "handled i D D'" and "dd_inv n (D, fl)" and "i < n" and "i \<notin> set fl"
  shows "dd_inv n (D', fl @ submitted (new_calls D D')) \<and>
    stops (ds_calls D') = stops (ds_calls D) + (if fl @ submitted (new_calls D D') = [] then 1 else 0)"
proof -
  from assms(1) obtain cs where h: "frame D D'" "ds_calls D' = ds_calls D @ cs"
    "retires i D D' cs \<or> submits i D D' cs"
    by (auto simp: handled_def)
  then have new: "new_calls D D' = cs"
    by (simp add: new_calls_def)
  have len: "length fl < n" and zero: "ds_outstanding D = 0 \<longleftrightarrow> fl = []"
  proof -
    have "card (set fl) \<le> card ({..<n} - {i})"
      using assms(2,4) by (intro card_mono) (auto simp: dd_inv_def)
    then show "length fl < n"
      using assms(2,3) by (simp add: dd_inv_def distinct_card)
    show "ds_outstanding D = 0 \<longleftrightarrow> fl = []"
      using assms(2) by (auto simp: dd_inv_def unat_eq_zero)
  qed
  have "unat (ds_outstanding D + 1) = Suc (length fl)"
    using assms(2) len by (subst unat_add_exact) (auto simp: dd_inv_def)
  with assms h new zero frame_sync [OF h(1)] show ?thesis
    by (auto simp: dd_inv_def frame_def retires_def submits_def)
qed

lemma complete_effect:
  assumes "dd_complete_poll L e i D = Inr D'" and "sync_seek D" and "i < length (ds_ios D)"
  shows "ds_outstanding D \<noteq> 0 \<and> handled i (D\<lparr>ds_outstanding := ds_outstanding D - 1\<rparr>) D'"
proof -
  let ?D = "D\<lparr>ds_outstanding := ds_outstanding D - 1\<rparr>"
  have i: "i < length (ds_ios ?D)"
    using assms(3) by simp
  have o: "ds_outstanding D \<noteq> 0"
    using assms(1) by (auto simp: dd_complete_poll_def)
  consider "dd_target_read e i ?D = Inr D'" | "dd_target_write L e i ?D = Inr D'"
    | "dd_target_seek L e i ?D = Inr D'"
    using assms(1) o by (auto simp: dd_complete_poll_def Let_def split: dd_submit_type.splits)
  then have "handled i ?D D'"
  proof cases
    case 1
    then show ?thesis using read_effect [OF _ i] by blast
  next
    case 2
    then show ?thesis using write_effect [OF _ i] by blast
  next
    case 3
    then show ?thesis using seek_handled [OF _ i] assms(2) by simp
  qed
  with o show ?thesis ..
qed

lemma step_inv:
  assumes st: "dd_step L (D, fl) (D', fl')" and inv: "dd_inv n (D, fl)"
  shows "dd_inv n (D', fl') \<and> fl \<noteq> [] \<and> ds_opts D' = ds_opts D \<and> ds_output D' = ds_output D \<and>
    ds_bufs D' = ds_bufs D \<and> stops (ds_calls D') = stops (ds_calls D) + (if fl' = [] then 1 else 0)"
  using st
proof (cases rule: dd_step.cases)
  case (complete D0 i e err)
  let ?E = "note_error err D0"
  have calm: "calm D ?E"
    using calm_trans [OF ticks_calm [OF complete(2)] note_error_calm] .
  have i: "i < n" "i \<in> set fl"
    using complete(3) inv by (auto simp: dd_inv_def)
  from calm inv have E: "sync_seek ?E" "length (ds_ios ?E) = n"
    by (auto simp: calm_def dd_inv_def sync_seek_def)
  note ce = complete_effect [OF complete(4) E(1)]
  let ?F = "?E\<lparr>ds_outstanding := ds_outstanding ?E - 1\<rparr>"
  have h: "handled i ?F D'" and o: "ds_outstanding ?E \<noteq> 0"
    using ce i(1) E(2) by auto
  have F: "dd_inv n (?F, remove1 i fl)"
    using calm inv i(2) E(1) unat_minus_one [OF o] set_remove1_subset [of i fl]
    by (auto simp: dd_inv_def calm_def length_remove1)
  have ni: "i \<notin> set (remove1 i fl)"
    using inv by (simp add: dd_inv_def)
  obtain cs where cs: "ds_calls ?F = ds_calls D @ cs" "submitted cs = []" "stops cs = 0"
    using calm by (auto simp: calm_def)
  obtain cs' where cs': "ds_calls D' = ds_calls ?F @ cs'"
    using h by (auto simp: handled_def)
  have new: "submitted (new_calls D D') = submitted (new_calls ?F D')"
    using cs cs' by (simp add: new_calls_def)
  have "ds_opts D' = ds_opts D" "ds_output D' = ds_output D" "ds_bufs D' = ds_bufs D"
    using h calm by (simp_all add: handled_def frame_def calm_def)
  then show ?thesis
    using handled_inv [OF h F i(1) ni] cs i(2) complete(1) by (auto simp: new)
qed

section \<open>Every run ends\<close>

primrec stage :: "dd_submit_type \<Rightarrow> nat" where
  "stage DD_POPULATE = 3"
| "stage DD_READ = 2"
| "stage DD_WRITE = 1"

definition unit_stage :: "dd_job \<Rightarrow> nat \<Rightarrow> nat" where
  "unit_stage D i = stage (dio_type (ds_ios D ! i))"

definition dd_rank :: "dd_job \<times> nat list \<Rightarrow> nat" where
  "dd_rank s = (case s of (D, fl) \<Rightarrow> 4 * unat (remaining D) + sum_list (map (unit_stage D) fl))"

lemma unit_stage_le: "unit_stage D i \<le> 3"
  by (cases "dio_type (ds_ios D ! i)") (simp_all add: unit_stage_def)

lemma claim_le: "dd_lib_ok L \<Longrightarrow> claim L i D \<le> remaining D"
  by (simp add: dd_lib_ok_def claim_def)

lemma remaining_same:
  "frame D D' \<Longrightarrow> ds_input D' = ds_input D \<Longrightarrow> remaining D' = remaining D"
  by (simp add: frame_def remaining_def read_region_start_def)

lemma remaining_claim:
  assumes "dd_lib_ok L" and "frame D D'"
    and "ds_input D' = (ds_input D)\<lparr>tg_pos := tg_pos (ds_input D) + claim L i D\<rparr>"
  shows "remaining D' = remaining D - claim L i D"
    and "unat (remaining D') = unat (remaining D) - unat (claim L i D)"
proof -
  show "remaining D' = remaining D - claim L i D"
    using assms(2,3) by (simp add: remaining_def frame_def read_region_start_def)
  then show "unat (remaining D') = unat (remaining D) - unat (claim L i D)"
    using claim_le [OF assms(1), of i D] by (simp add: unat_sub)
qed

text \<open>The completion of unit \<open>i\<close> uses up rank: \<open>new\<close> is what the handler adds to the units in flight.\<close>

lemma handled_new:
  assumes "handled i D D'"
  shows "submitted (new_calls D D') = [] \<and> ds_outstanding D' = ds_outstanding D \<or>
    submitted (new_calls D D') = [i] \<and> ds_outstanding D' = ds_outstanding D + 1 \<and> \<not> stopped D'"
  using assms by (auto simp: handled_def new_calls_def retires_def submits_def)

lemma complete_rank:
  assumes "dd_complete_poll L e i D = Inr D'" and "\<not> sparse (ds_opts D)" and "i < length (ds_ios D)"
    and "dd_lib_ok L"
  shows "4 * unat (remaining D') + sum_list (map (unit_stage D') (submitted (new_calls D D'))) <
    4 * unat (remaining D) + unit_stage D i"
proof -
  let ?F = "D\<lparr>ds_outstanding := ds_outstanding D - 1\<rparr>"
  let ?new = "submitted (new_calls D D')"
  have i: "i < length (ds_ios ?F)"
    using assms(3) by simp
  have o: "ds_outstanding D \<noteq> 0" and h: "handled i ?F D'"
    using complete_effect [OF assms(1) dense_sync [OF assms(2)] assms(3)] by auto
  have new: "new_calls ?F D' = new_calls D D'"
    by (simp add: new_calls_def)
  note hn = handled_new [OF h, unfolded new]
  have fr: "frame ?F D'"
    using h by (simp add: handled_def)
  have rem: "remaining ?F = remaining D" "claim L i ?F = claim L i D"
    by (simp_all add: remaining_def claim_def read_region_start_def)
  show ?thesis
  proof (cases "dio_type (ds_ios D ! i)")
    case DD_POPULATE
    with assms(1) o have "dd_target_read e i ?F = Inr D'"
      by (simp add: dd_complete_poll_def)
    note re = read_effect [OF this i]
    have "remaining D' = remaining D"
      using remaining_same [OF fr] re rem(1) by simp
    with hn re DD_POPULATE i show ?thesis
      by (auto simp: unit_stage_def)
  next
    case DD_READ
    with assms(1) o have "dd_target_write L e i ?F = Inr D'"
      by (simp add: dd_complete_poll_def)
    note re = write_effect [OF this i]
    have "remaining D' = remaining D"
      using remaining_same [OF fr] re rem(1) by simp
    with hn re DD_READ i show ?thesis
      by (auto simp: unit_stage_def)
  next
    case DD_WRITE
    with assms(1,2) o have "dd_target_populate_buffer L e i ?F = Inr D'"
      by (simp add: dd_complete_poll_def dd_target_seek_def)
    note pe = populate_effect [OF this i, unfolded rem]
    show ?thesis
    proof (cases "claim L i D = 0 \<or> stopped ?F")
      case True
      then have "ds_input D' = ds_input D" "ds_outstanding D' = ds_outstanding ?F"
        using pe by auto
      with hn remaining_same [OF fr] rem(1) DD_WRITE show ?thesis
        by (auto simp: unit_stage_def)
    next
      case False
      then have "ds_input D' = (ds_input ?F)\<lparr>tg_pos := tg_pos (ds_input ?F) + claim L i ?F\<rparr>"
        using pe rem(2) by auto
      from remaining_claim(2) [OF assms(4) fr this] False
      have "unat (remaining D') = unat (remaining D) - unat (claim L i D)" "0 < unat (claim L i D)"
        by (simp_all add: rem unat_gt_0)
      moreover have "unat (claim L i D) \<le> unat (remaining D)"
        using claim_le [OF assms(4), of i D] by (simp add: word_le_nat_alt)
      moreover have "sum_list (map (unit_stage D') ?new) \<le> 3"
        using hn unit_stage_le [of D' i] by auto
      ultimately show ?thesis
        using DD_WRITE by (simp add: unit_stage_def)
    qed
  qed
qed

lemma step_rank:
  assumes st: "dd_step L (D, fl) (D', fl')" and inv: "dd_inv n (D, fl)" and lib: "dd_lib_ok L"
    and dense: "\<not> sparse (ds_opts D)"
  shows "dd_rank (D', fl') < dd_rank (D, fl)"
  using st
proof (cases rule: dd_step.cases)
  case (complete D0 i e err)
  let ?E = "note_error err D0"
  have calm: "calm D ?E"
    using calm_trans [OF ticks_calm [OF complete(2)] note_error_calm] .
  have i: "i < length (ds_ios ?E)" and ns: "\<not> sparse (ds_opts ?E)"
    using complete(3) inv dense calm by (auto simp: dd_inv_def calm_def)
  have h: "handled i (?E\<lparr>ds_outstanding := ds_outstanding ?E - 1\<rparr>) D'"
    using complete_effect [OF complete(4) dense_sync [OF ns] i] by simp
  obtain cs cs' where cs: "ds_calls ?E = ds_calls D @ cs" "submitted cs = []" "ds_calls D' = ds_calls ?E @ cs'"
    using calm h by (auto simp: calm_def handled_def)
  have new: "submitted (new_calls D D') = submitted (new_calls ?E D')"
    using cs by (simp add: new_calls_def)
  have same: "remaining ?E = remaining D" "unit_stage ?E = unit_stage D"
    using calm by (auto simp: calm_def remaining_def read_region_start_def unit_stage_def)
  have others: "unit_stage D' j = unit_stage D j" if "j \<in> set (remove1 i fl)" for j
  proof -
    have "j \<noteq> i"
      using that inv by (auto simp: dd_inv_def)
    with h calm show ?thesis
      by (simp add: handled_def calm_def unit_stage_def)
  qed
  have "sum_list (map (unit_stage D') (remove1 i fl)) = sum_list (map (unit_stage D) (remove1 i fl))"
    using others by (intro arg_cong [where f = sum_list] map_cong) auto
  moreover have "sum_list (map (unit_stage D) fl) =
      unit_stage D i + sum_list (map (unit_stage D) (remove1 i fl))"
    using complete(3) by (rule sum_list_map_remove1)
  ultimately show ?thesis
    using complete_rank [OF complete(4) ns i lib] complete(1) by (simp add: dd_rank_def new same)
qed

text \<open>
  The copy is a flow that owes one answer: the call that stops the application. Without hole skipping the
  rank bounds it; how long a copy with hole skipping runs depends on the file.
\<close>

definition dd_run_step :: "nat \<Rightarrow> dd_lib \<Rightarrow> dd_job \<times> nat list \<Rightarrow> dd_job \<times> nat list \<Rightarrow> bool" where
  "dd_run_step n L s t \<longleftrightarrow> dd_inv n s \<and> dd_step L s t"

definition dd_dense_step :: "nat \<Rightarrow> dd_lib \<Rightarrow> dd_job \<times> nat list \<Rightarrow> dd_job \<times> nat list \<Rightarrow> bool" where
  "dd_dense_step n L s t \<longleftrightarrow> dd_lib_ok L \<and> \<not> sparse (ds_opts (fst s)) \<and> dd_run_step n L s t"

interpretation dd_flow: answer_flow "dd_run_step n L" "\<lambda>s. snd s \<noteq> []" "\<lambda>s. stops (ds_calls (fst s))"
  for n L
proof unfold_locales
  fix s t
  assume "dd_run_step n L s t"
  then have st: "dd_step L (fst s, snd s) (fst t, snd t)" "dd_inv n (fst s, snd s)"
    by (simp_all add: dd_run_step_def)
  note si = step_inv [OF st]
  show "stops (ds_calls (fst t)) = stops (ds_calls (fst s)) + (if snd s \<noteq> [] \<and> \<not> snd t \<noteq> [] then 1 else 0)"
    using si by auto
  show "\<not> snd t \<noteq> []" if "\<not> snd s \<noteq> []"
    using si that by simp
qed

interpretation dd_dense: once_flow "dd_dense_step n L" "\<lambda>s. snd s \<noteq> []" "\<lambda>s. stops (ds_calls (fst s))" dd_rank
  for n L
proof unfold_locales
  fix s t
  assume st: "dd_dense_step n L s t"
  then have run: "dd_run_step n L s t"
    by (simp add: dd_dense_step_def)
  show "stops (ds_calls (fst t)) = stops (ds_calls (fst s)) + (if snd s \<noteq> [] \<and> \<not> snd t \<noteq> [] then 1 else 0)"
    using dd_flow.step_answers [OF run] .
  show "\<not> snd t \<noteq> []" if "\<not> snd s \<noteq> []"
    using dd_flow.step_silent [OF run that] .
  show "dd_rank t < dd_rank s"
    using step_rank [of L "fst s" "snd s" "fst t" "snd t" n] st
    by (simp add: dd_dense_step_def dd_run_step_def)
qed

lemma run_keeps_inv:
  assumes "(dd_step L ^^ k) s t" and "dd_inv n s"
  shows "dd_inv n t \<and> (dd_run_step n L ^^ k) s t \<and> ds_opts (fst t) = ds_opts (fst s) \<and>
    ds_output (fst t) = ds_output (fst s) \<and> ds_bufs (fst t) = ds_bufs (fst s)"
  using assms(1)
proof (induction k arbitrary: t)
  case 0
  with assms(2) show ?case by simp
next
  case (Suc k)
  then obtain u where u: "(dd_step L ^^ k) s u" "dd_step L u t" by auto
  with Suc.IH have "dd_inv n u" "(dd_run_step n L ^^ k) s u" "ds_opts (fst u) = ds_opts (fst s)"
    "ds_output (fst u) = ds_output (fst s)" "ds_bufs (fst u) = ds_bufs (fst s)" by blast+
  moreover from this have "dd_inv n t" "ds_opts (fst t) = ds_opts (fst s)" "ds_output (fst t) = ds_output (fst s)"
    "ds_bufs (fst t) = ds_bufs (fst s)"
    using step_inv [of L "fst u" "snd u" "fst t" "snd t" n] u(2) by simp_all
  moreover have "dd_run_step n L u t"
    using u(2) calculation(1) by (simp add: dd_run_step_def)
  ultimately show ?case
    by (blast intro: relpowp_Suc_I)
qed

lemma run_dense:
  assumes "(dd_step L ^^ k) s t" and "dd_inv n s" and "dd_lib_ok L" and "\<not> sparse (ds_opts (fst s))"
  shows "(dd_dense_step n L ^^ k) s t"
  using assms(1)
proof (induction k arbitrary: t)
  case (Suc k)
  then obtain u where u: "(dd_step L ^^ k) s u" "dd_step L u t" by auto
  with run_keeps_inv [OF u(1) assms(2)] assms(3,4) have "dd_dense_step n L u t"
    by (simp add: dd_dense_step_def dd_run_step_def)
  with Suc.IH [OF u(1)] show ?case
    by (blast intro: relpowp_Suc_I)
qed simp

section \<open>The start\<close>

lemma start_frame:
  assumes "start_units L es i D = Inr D'" and "sync_seek D" and "i + length es \<le> length (ds_ios D)"
  shows "frame D D'"
  using assms
proof (induction es arbitrary: i D)
  case (Cons e es)
  then obtain D1 where D1: "dd_target_seek L e i D = Inr D1" "start_units L es (Suc i) D1 = Inr D'"
    by auto
  have fr: "frame D D1"
    using seek_handled [OF D1(1) _ Cons.prems(2)] Cons.prems(3) by (simp add: handled_def)
  have "frame D1 D'"
    using Cons.IH [OF D1(2)] fr frame_sync [OF fr] Cons.prems(2,3) by (simp add: frame_def)
  with fr show ?case by (rule frame_trans)
qed simp

lemma start_inv:
  assumes "start_units L es i D = Inr D'" and "dd_inv n (D, fl)" and "i + length es \<le> n"
    and "\<forall>j \<in> set fl. j < i" and "es \<noteq> []"
  shows "\<exists>fl'. fl' = fl @ submitted (new_calls D D') \<and> dd_inv n (D', fl') \<and>
    ds_opts D' = ds_opts D \<and> ds_output D' = ds_output D \<and> ds_bufs D' = ds_bufs D \<and> (\<exists>cs. ds_calls D' = ds_calls D @ cs) \<and> (0 < stops (new_calls D D') \<or> fl' \<noteq> [])"
  using assms
proof (induction es arbitrary: i D fl)
  case (Cons e es)
  then obtain D1 where D1: "dd_target_seek L e i D = Inr D1" "start_units L es (Suc i) D1 = Inr D'"
    by auto
  have ns: "sync_seek D" and i: "i < n" "i < length (ds_ios D)" "i \<notin> set fl"
    using Cons.prems by (auto simp: dd_inv_def)
  have h: "handled i D D1"
    by (rule seek_handled [OF D1(1) i(2) ns])
  let ?fl = "fl @ submitted (new_calls D D1)"
  obtain cs where cs: "ds_calls D1 = ds_calls D @ cs" "new_calls D D1 = cs"
    "ds_opts D1 = ds_opts D" "ds_output D1 = ds_output D" "ds_bufs D1 = ds_bufs D"
    using h by (auto simp: handled_def frame_def new_calls_def)
  have inv1: "dd_inv n (D1, ?fl)" and st: "stops cs = (if ?fl = [] then 1 else 0)"
    using handled_inv [OF h Cons.prems(2) i(1,3)] cs by auto
  show ?case
  proof (cases "es = []")
    case True
    with D1(2) inv1 st cs show ?thesis by auto
  next
    case False
    have "\<forall>j \<in> set ?fl. j < Suc i"
      using handled_new [OF h] Cons.prems(4) by auto
    from Cons.IH [OF D1(2) inv1 _ this False] Cons.prems(3)
    obtain cs' where "dd_inv n (D', ?fl @ submitted (new_calls D1 D'))" "ds_calls D' = ds_calls D1 @ cs'"
      "0 < stops (new_calls D1 D') \<or> ?fl @ submitted (new_calls D1 D') \<noteq> []"
      "ds_opts D' = ds_opts D1" "ds_output D' = ds_output D1" "ds_bufs D' = ds_bufs D1"
      by auto
    then show ?thesis
      using cs by (auto simp: new_calls_def)
  qed
qed simp

text \<open>No handler of a unit in flight fails an assertion.\<close>

lemma submit_no_assert:
  "ds_outstanding D \<noteq> 0 \<Longrightarrow> dd_submit e i target len off D \<noteq> Inl Assertion_failed"
  by (auto simp: dd_submit_def dd_uring_submit_def submit_failed_def Let_def split: dd_target_type.splits)

lemma stop_no_assert: "dd_stop L e D \<noteq> Inl Assertion_failed"
  by (auto simp: dd_stop_def dd_show_progress_def Let_def c_bind_Inl_iff split: prod.splits if_splits)

lemma read_no_assert:
  "ds_outstanding D + 1 \<noteq> 0 \<Longrightarrow> dd_target_read e i D \<noteq> Inl Assertion_failed"
  by (auto simp: dd_target_read_def Let_def submit_no_assert)

lemma populate_no_assert:
  "ds_outstanding D + 1 \<noteq> 0 \<Longrightarrow> dd_target_populate_buffer L e i D \<noteq> Inl Assertion_failed"
  using stop_no_assert
  by (auto simp: dd_target_populate_buffer_def padded_def Let_def submit_no_assert read_no_assert c_bind_Inl_iff)

lemma finalize_no_assert: "dd_finalize_output L e D \<noteq> Inl Assertion_failed"
  by (auto simp: dd_finalize_output_def dd_show_progress_def Let_def c_bind_Inl_iff split: prod.splits if_splits)

lemma seek_data_outstanding:
  "dd_file_seek_data L e D = Inr (doff, D1) \<Longrightarrow> 0 \<le> doff \<Longrightarrow> D1 = emit [Dd_lseek_data (tg_pos (ds_input D))] D"
  by (auto simp: dd_file_seek_data_def Let_def split: if_splits)

lemma seek_hole_outstanding:
  "dd_file_seek_hole e D = (hoff, D1) \<Longrightarrow> ds_outstanding D1 = ds_outstanding D"
  by (auto simp: dd_file_seek_hole_def Let_def split: if_splits)

lemma seek_no_assert:
  assumes "ds_outstanding D + 1 \<noteq> 0" and "sync_seek D"
  shows "dd_target_seek L e i D \<noteq> Inl Assertion_failed"
proof -
  have "seek_file L e i D \<noteq> Inl Assertion_failed"
    using assms(1) finalize_no_assert
    by (fastforce simp: seek_file_def dd_file_seek_data_def dd_file_seek_hole_def Let_def c_bind_Inl_iff
        populate_no_assert split: prod.splits if_splits)
  with assms stop_no_assert populate_no_assert show ?thesis
    by (auto simp: dd_target_seek_def sync_seek_def split: dd_target_type.splits)
qed

lemma complete_no_assert:
  assumes "ds_outstanding D \<noteq> 0" and "sync_seek D"
  shows "dd_complete_poll L e i D \<noteq> Inl Assertion_failed"
proof -
  let ?F = "D\<lparr>ds_outstanding := ds_outstanding D - 1\<rparr>"
  have r: "dd_target_read e i X \<noteq> Inl Assertion_failed" if "ds_outstanding X = ds_outstanding D - 1" for X
    using assms(1) that by (auto simp: dd_target_read_def Let_def submit_no_assert)
  have w: "dd_target_write L e i ?F \<noteq> Inl Assertion_failed"
    using assms(1) stop_no_assert
    by (auto simp: dd_target_write_def padded_def Let_def submit_no_assert c_bind_Inl_iff)
  have "dd_target_seek L e i ?F \<noteq> Inl Assertion_failed"
    using assms by (intro seek_no_assert) simp_all
  with r w assms show ?thesis
    by (auto simp: dd_complete_poll_def Let_def split: dd_submit_type.splits)
qed

section \<open>Completions are defined\<close>

lemma clock_ok_updates [simp]:
  "clock_ok e (emit cs D) = clock_ok e D" "clock_ok e (set_io i f D) = clock_ok e D"
  "clock_ok e (D\<lparr>ds_outstanding := n\<rparr>) = clock_ok e D" "clock_ok e (D\<lparr>ds_input := t\<rparr>) = clock_ok e D"
  "clock_ok e (D\<lparr>ds_error := err\<rparr>) = clock_ok e D"
  by (simp_all add: clock_ok_def emit_def set_io_def)

lemma stop_defined:
  assumes "dd_lib_ok L" and "clock_ok e D"
  shows "\<exists>D'. dd_stop L e D = Inr D'"
proof -
  obtain D1 where "dd_show_progress L e True D = Inr D1"
    by (rule show_progress_ok [OF assms, of True])
  then show ?thesis
    by (auto simp: dd_stop_def)
qed

lemma submit_defined:
  "e_sqe e \<Longrightarrow> ds_outstanding D \<noteq> 0 \<Longrightarrow> \<exists>D'. dd_submit e i target len off D = Inr D'"
  by (auto simp: dd_submit_def dd_uring_submit_def submit_failed_def Let_def split: dd_target_type.splits)

lemma padded_defined: "bs \<noteq> 0 \<Longrightarrow> \<exists>p. padded L len bs = Inr p"
  by (simp add: padded_def)

lemma read_defined:
  assumes "e_sqe e" and "ds_outstanding D + 1 \<noteq> 0"
  shows "\<exists>D'. dd_target_read e i D = Inr D'"
  using assms submit_defined by (auto simp: dd_target_read_def Let_def)

lemma write_defined:
  assumes "e_sqe e" and "ds_outstanding D + 1 \<noteq> 0" and "tg_block_size (ds_output D) \<noteq> 0" and "dd_lib_ok L" and "clock_ok e D"
  shows "\<exists>D'. dd_target_write L e i D = Inr D'"
proof -
  obtain p where "padded L (dio_length (ds_ios D ! i)) (tg_block_size (ds_output D)) = Inr p"
    using padded_defined [OF assms(3)] by blast
  with stop_defined [OF assms(4,5)] submit_defined [OF assms(1)] assms(2) show ?thesis
    by (cases "stopped D") (auto simp: dd_target_write_def Let_def)
qed

lemma populate_defined:
  assumes "e_sqe e" and "ds_outstanding D + 1 \<noteq> 0" and "tg_block_size (ds_output D) \<noteq> 0" and "dd_lib_ok L" and "clock_ok e D"
  shows "\<exists>D'. dd_target_populate_buffer L e i D = Inr D'"
proof -
  let ?len = "l_min L (dio_length (ds_ios D ! i)) (ds_copy_size D - (tg_pos (ds_input D) - read_region_start D))"
  obtain p where "padded L ?len (tg_block_size (ds_output D)) = Inr p"
    using padded_defined [OF assms(3)] by blast
  with stop_defined [OF assms(4)] read_defined [OF assms(1)] submit_defined [OF assms(1)] assms(2,3,5) show ?thesis
    by (cases "?len = 0 \<or> stopped D"; cases "?len mod ucast (tg_block_size (ds_output D)) = 0")
      (auto simp: dd_target_populate_buffer_def Let_def)
qed

lemma finalize_defined:
  assumes "dd_lib_ok L" and "clock_ok e D"
  shows "\<exists>D'. dd_finalize_output L e D = Inr D'"
proof -
  let ?D1 = "if output_file (ds_opts D) = None then D else extend_output e D"
  have "clock_ok e ?D1"
    using assms(2) by (simp add: extend_output_def Let_def)
  then obtain D2 where "dd_show_progress L e True ?D1 = Inr D2"
    by (rule show_progress_ok [OF assms(1), of e ?D1 True])
  then show ?thesis
    by (auto simp: dd_finalize_output_def Let_def)
qed

lemma seek_file_defined:
  assumes "e_sqe e" and "ds_outstanding D + 1 \<noteq> 0" and "tg_block_size (ds_output D) \<noteq> 0" and "dd_lib_ok L" and "clock_ok e D"
  shows "\<exists>D'. seek_file L e i D = Inr D'"
proof -
  let ?D1 = "emit [Dd_lseek_data (tg_pos (ds_input D))] D"
  obtain D2 where "dd_finalize_output L e ?D1 = Inr D2"
    using finalize_defined [OF assms(4), of e ?D1] assms(5) by auto
  then have "\<exists>doff D3. dd_file_seek_data L e D = Inr (doff, D3)"
    by (simp add: dd_file_seek_data_def Let_def)
  then obtain doff D3 where d: "dd_file_seek_data L e D = Inr (doff, D3)" by blast
  show ?thesis
  proof (cases "doff < 0")
    case False
    then have "D3 = ?D1"
      using seek_data_outstanding [OF d] by simp
    with d False assms show ?thesis
      using populate_defined [OF assms(1) _ _ assms(4)]
      by (auto simp: seek_file_def dd_file_seek_hole_def Let_def)
  qed (simp add: seek_file_def d)
qed

lemma seek_defined:
  assumes "e_sqe e" and "ds_outstanding D + 1 \<noteq> 0" and "tg_block_size (ds_output D) \<noteq> 0" and "dd_lib_ok L" and "clock_ok e D"
    and "sync_seek D"
  shows "\<exists>D'. dd_target_seek L e i D = Inr D'"
  using stop_defined [OF assms(4,5)] populate_defined [OF assms(1-5)] seek_file_defined [OF assms(1-5)] assms(6)
  by (auto simp: dd_target_seek_def sync_seek_def)

lemma complete_defined:
  assumes "ds_outstanding D \<noteq> 0" and "sync_seek D" and "tg_block_size (ds_output D) \<noteq> 0"
    and "dd_lib_ok L" and "e_sqe e" and "clock_ok e D"
  shows "\<exists>D'. dd_complete_poll L e i D = Inr D'"
proof -
  let ?F = "D\<lparr>ds_outstanding := ds_outstanding D - 1\<rparr>"
  have "ds_outstanding ?F + 1 \<noteq> 0"
    using assms(1) by simp
  with read_defined [OF assms(5), of ?F] write_defined [OF assms(5), of ?F] seek_defined [OF assms(5), of ?F] assms
  show ?thesis
    by (auto simp: dd_complete_poll_def Let_def split: dd_submit_type.splits)
qed

section \<open>Counting and leaving\<close>

text \<open>A job ready to start: nothing is outstanding, and there is a unit for each turn of the loop.\<close>

definition dd_ready :: "dd_job \<Rightarrow> dd_env list \<Rightarrow> bool" where
  "dd_ready D es \<longleftrightarrow> sync_seek D \<and> ds_outstanding D = 0 \<and> length (ds_ios D) < 2 ^ 32 \<and>
     es \<noteq> [] \<and> length es \<le> length (ds_ios D)"

lemma ready_run:
  assumes "dd_ready D es" and "start_units L es 0 D = Inr D1"
    and "(dd_step L ^^ k) (D1, submitted (new_calls D D1)) t"
  shows "dd_inv (length (ds_ios D)) (D1, submitted (new_calls D D1))"
    and "dd_inv (length (ds_ios D)) t"
    and "(dd_run_step (length (ds_ios D)) L ^^ k) (D1, submitted (new_calls D D1)) t"
    and "ds_opts (fst t) = ds_opts D" and "ds_output (fst t) = ds_output D" and "ds_bufs (fst t) = ds_bufs D"
proof -
  have "dd_inv (length (ds_ios D)) (D, [])"
    using assms(1) by (auto simp: dd_ready_def dd_inv_def)
  note si = start_inv [OF assms(2) this]
  with assms(1) show inv: "dd_inv (length (ds_ios D)) (D1, submitted (new_calls D D1))"
    by (auto simp: dd_ready_def)
  have D1: "ds_opts D1 = ds_opts D" "ds_output D1 = ds_output D" "ds_bufs D1 = ds_bufs D"
    using si assms(1) by (auto simp: dd_ready_def)
  from run_keeps_inv [OF assms(3) inv]
  show "dd_inv (length (ds_ios D)) t"
    and "(dd_run_step (length (ds_ios D)) L ^^ k) (D1, submitted (new_calls D D1)) t"
    and "ds_opts (fst t) = ds_opts D" and "ds_output (fst t) = ds_output D" and "ds_bufs (fst t) = ds_bufs D"
    using D1 by simp_all
qed

text \<open>
  C7. The copy engine counts its requests exactly, and no completion is undefined. Along every run of a
  copy without hole skipping, or of a file with it, with errors and interruption at any point, \<open>outstanding\<close> is the number of
  units in flight and no unit is in flight twice. The completion of a unit in flight fails none of the
  assertions on the counter; and when the output has a block size, the ring a free entry and the clock is
  in range, it is handled to its end: nothing is divided by zero and no null pointer is used.
\<close>

theorem dd_outstanding_exact:
  assumes "dd_ready D es" and "start_units L es 0 D = Inr D1" and "dd_lib_ok L"
    and "(dd_step L ^^ k) (D1, submitted (new_calls D D1)) (D2, fl)"
  shows "unat (ds_outstanding D2) = length fl \<and> distinct fl \<and>
    (\<forall>i \<in> set fl. \<forall>e. dd_complete_poll L e i D2 \<noteq> Inl Assertion_failed \<and>
      (tg_block_size (ds_output D) \<noteq> 0 \<and> e_sqe e \<and> clock_ok e D2 \<longrightarrow> (\<exists>D3. dd_complete_poll L e i D2 = Inr D3)))"
proof -
  note r = ready_run(2,5) [OF assms(1,2,4)]
  have o: "ds_outstanding D2 \<noteq> 0" "sync_seek D2" if "i \<in> set fl" for i
    using r(1) that by (auto simp: dd_inv_def)
  have "dd_complete_poll L e i D2 \<noteq> Inl Assertion_failed" if "i \<in> set fl" for i e
    by (rule complete_no_assert [OF o [OF that]])
  moreover have "\<exists>D3. dd_complete_poll L e i D2 = Inr D3"
    if "i \<in> set fl" "tg_block_size (ds_output D) \<noteq> 0" "e_sqe e" "clock_ok e D2" for i e
    using complete_defined [OF o [OF that(1)] _ assms(3) that(3,4)] that(2) r(2) by simp
  ultimately show ?thesis
    using r(1) by (simp add: dd_inv_def)
qed

text \<open>
  C6. The copy tool leaves exactly once, and not while a request is in flight. Take a copy without hole
  skipping, or of a file with it, whose start loop did not stop the application itself. Along every run:
  the application has been stopped once since the job was ready if nothing is in flight any more, and not
  at all before; and a run without hole skipping cannot go on forever: it has at most as many completions
  as the measure of its start, four times the bytes to copy plus the stages ahead. Runs do not include the
  failure of \<open>io_getevents\<close>: it stops the application once more at whatever point it comes, whether or
  not requests are in flight.
\<close>

theorem dd_leaves_once:
  assumes "dd_ready D es" and "start_units L es 0 D = Inr D1" and "dd_lib_ok L"
    and "stops (new_calls D D1) = 0"
    and "(dd_step L ^^ k) (D1, submitted (new_calls D D1)) (D2, fl)"
  shows "stops (ds_calls D2) = stops (ds_calls D) + (if fl = [] then 1 else 0) \<and>
    (\<not> sparse (ds_opts D) \<longrightarrow> k \<le> dd_rank (D1, submitted (new_calls D D1))) \<and>
    (\<forall>rc < 0. \<exists>D3. dd_aio_poll L rc evs D2 = Inr D3 \<and> stops (ds_calls D3) = Suc (stops (ds_calls D2)))"
proof -
  let ?s = "(D1, submitted (new_calls D D1))" and ?n = "length (ds_ios D)"
  note r = ready_run [OF assms(1,2)]
  have inv: "dd_inv ?n (D, [])"
    using assms(1) by (auto simp: dd_ready_def dd_inv_def)
  from start_inv [OF assms(2) inv] assms(1,4) obtain cs where
    cs: "submitted (new_calls D D1) \<noteq> []" "ds_calls D1 = ds_calls D @ cs"
    by (auto simp: dd_ready_def)
  then have s1: "stops (ds_calls D1) = stops (ds_calls D)"
    using assms(4) by (simp add: new_calls_def)
  have "k \<le> dd_rank ?s" if dense: "\<not> sparse (ds_opts D)"
  proof (cases k)
    case (Suc m)
    have "(dd_dense_step ?n L ^^ k) ?s (D2, fl)"
      using run_dense [OF assms(5) r(1) [OF assms(5)] assms(3)] r(4) [of 0 ?s] dense by simp
    with Suc obtain u where u: "(dd_dense_step ?n L ^^ m) ?s u" "dd_dense_step ?n L u (D2, fl)" by auto
    have "snd u \<noteq> []"
      using u(2) step_inv [of L "fst u" "snd u" D2 fl ?n] by (simp add: dd_dense_step_def dd_run_step_def)
    with Suc dd_dense.run_rank [OF u(1)] dd_dense.step_rank [OF u(2)] cs(1) show ?thesis by fastforce
  qed simp
  moreover have "stops (ds_calls D2) = stops (ds_calls D) + (if fl = [] then 1 else 0)"
    using dd_flow.run_answers [OF relpowp_imp_rtranclp [OF r(3) [OF assms(5)]]] cs(1) s1 by auto
  moreover have "stops (ds_calls (dd_exit rc D2)) = Suc (stops (ds_calls D2))" for rc
    using exit_trace [of rc D2] exit_calls [of rc D2] by auto
  ultimately show ?thesis
    by (auto simp: dd_aio_poll_def)
qed

section \<open>A concrete run\<close>

definition demo_started :: dd_job where
  "demo_started = projr (start_units demo_lib [demo_env] 0 demo_job)"

definition demo_written :: dd_job where
  "demo_written = projr (dd_complete_poll demo_lib demo_env 0 demo_started)"

definition demo_done :: dd_job where
  "demo_done = projr (dd_complete_poll demo_lib demo_env 0 demo_written)"

lemma demo_ready: "dd_ready demo_job [demo_env]"
  by (simp add: dd_ready_def sync_seek_def demo_job_def demo_copy_opts_def)

lemma demo_start: "start_units demo_lib [demo_env] 0 demo_job = Inr demo_started"
  by code_simp

lemma demo_in_flight: "submitted (new_calls demo_job demo_started) = [0]"
  by code_simp

lemma demo_run: "(dd_step demo_lib ^^ 2) (demo_started, submitted (new_calls demo_job demo_started)) (demo_done, [])"
proof -
  have "dd_step demo_lib (demo_started, [0])
      (demo_written, remove1 0 [0] @ submitted (new_calls demo_started demo_written))"
  proof (rule dd_step.complete)
    show "dd_complete_poll demo_lib demo_env 0 (note_error 0 demo_started) = Inr demo_written"
      by code_simp
  qed simp_all
  moreover have "remove1 0 [0] @ submitted (new_calls demo_started demo_written) = [0]"
    by code_simp
  moreover have "dd_step demo_lib (demo_written, [0])
      (demo_done, remove1 0 [0] @ submitted (new_calls demo_written demo_done))"
  proof (rule dd_step.complete)
    show "dd_complete_poll demo_lib demo_env 0 (note_error 0 demo_written) = Inr demo_done"
      by code_simp
  qed simp_all
  moreover have "remove1 0 [0] @ submitted (new_calls demo_written demo_done) = []"
    by code_simp
  ultimately show ?thesis
    by (auto simp: numeral_2_eq_2 demo_in_flight)
qed

theorem dd_outstanding_exact_witness:
  "ds_outstanding demo_started = 1 \<and> (\<exists>D3. dd_complete_poll demo_lib demo_env 0 demo_started = Inr D3)"
proof -
  have r: "(dd_step demo_lib ^^ 0) (demo_started, submitted (new_calls demo_job demo_started)) (demo_started, [0])"
    by (simp add: demo_in_flight)
  have "clock_ok demo_env demo_started" "e_sqe demo_env" "tg_block_size (ds_output demo_job) \<noteq> 0"
    "ds_outstanding demo_started = 1"
    by (code_simp, simp_all add: demo_env_def demo_job_def demo_target_def) code_simp
  with dd_outstanding_exact [OF demo_ready demo_start demo_lib_ok r] show ?thesis
    by simp
qed

theorem dd_leaves_once_witness: "stops (ds_calls demo_done) = stops (ds_calls demo_job) + 1"
proof -
  have "stops (new_calls demo_job demo_started) = 0"
    by code_simp
  from dd_leaves_once [OF demo_ready demo_start demo_lib_ok this demo_run] show ?thesis
    by simp
qed

end
