(* ===== verification/Dd_Setup.thy ===== *)
theory Dd_Setup
  imports Dd_Run
begin

text \<open>
  The copy tool from its command line to the first requests: \<open>parse_args\<close>, the checks of \<open>main\<close>, the
  opening of files and block devices, the flags, the stages of \<open>dd_run\<close> and \<open>dd_free\<close>. What the kernel,
  libaio, liburing and SPDK return is the record \<open>dd_setup_env\<close>.
\<close>

section \<open>The outside\<close>

record dd_setup_env =
  s_open :: "string \<Rightarrow> u32 \<Rightarrow> int"
  s_errno :: int
  s_blocklen :: "int \<Rightarrow> u32"
  s_size :: "int \<Rightarrow> u64"
  s_bdev_open :: "string \<Rightarrow> int \<times> nat"
  s_channel :: "nat \<Rightarrow> nat option"
  s_block_size :: "nat \<Rightarrow> u32"
  s_num_blocks :: "nat \<Rightarrow> u64"
  s_fstat :: "int \<Rightarrow> bool option"
  s_calloc :: bool
  s_malloc :: "nat \<Rightarrow> nat option"
  s_ring_init :: "bool \<times> int"
  s_register_files :: int
  s_calloc_iovs :: bool
  s_register_buffers :: int
  s_now :: "int \<times> int"
  s_envs :: "nat \<Rightarrow> dd_env"

text \<open>Multiplication in \<open>int64_t\<close>.\<close>

definition c_mul64 :: "int \<Rightarrow> int \<Rightarrow> int c_result" where
  "c_mul64 a b = (if - (2 ^ 63) \<le> a * b \<and> a * b < 2 ^ 63 then Inr (a * b) else Inl Signed_overflow)"

section \<open>Flags\<close>

text \<open>Open flags of Linux on x86-64.\<close>

abbreviation O_RDWR :: u32 where "O_RDWR \<equiv> 0x2"
abbreviation O_CREAT :: u32 where "O_CREAT \<equiv> 0x40"
abbreviation O_NOCTTY :: u32 where "O_NOCTTY \<equiv> 0x100"
abbreviation O_TRUNC :: u32 where "O_TRUNC \<equiv> 0x200"
abbreviation O_APPEND :: u32 where "O_APPEND \<equiv> 0x400"
abbreviation O_NONBLOCK :: u32 where "O_NONBLOCK \<equiv> 0x800"
abbreviation O_DSYNC :: u32 where "O_DSYNC \<equiv> 0x1000"
abbreviation O_DIRECT :: u32 where "O_DIRECT \<equiv> 0x4000"
abbreviation O_DIRECTORY :: u32 where "O_DIRECTORY \<equiv> 0x10000"
abbreviation O_NOFOLLOW :: u32 where "O_NOFOLLOW \<equiv> 0x20000"
abbreviation O_NOATIME :: u32 where "O_NOATIME \<equiv> 0x40000"
abbreviation O_SYNC :: u32 where "O_SYNC \<equiv> 0x101000"

definition g_flags :: "(string \<times> u32) list" where
  "g_flags = [(''append'', O_APPEND), (''direct'', O_DIRECT), (''directory'', O_DIRECTORY), (''dsync'', O_DSYNC),
     (''noatime'', O_NOATIME), (''noctty'', O_NOCTTY), (''nofollow'', O_NOFOLLOW), (''nonblock'', O_NONBLOCK),
     (''sync'', O_SYNC)]"

text \<open>
  \<open>strsep\<close> with the delimiter comma: the token, and what is left, \<open>None\<close> after the last token. It writes
  a NUL over the comma, so that the string the caller keeps ends after its first token.
\<close>

definition strsep :: "string \<Rightarrow> string \<times> string option" where
  "strsep s = (let t = takeWhile (\<lambda>c. c \<noteq> CHR '','') s in
     (t, if length t < length s then Some (drop (Suc (length t)) s) else None))"

lemma strsep_shorter: "strsep s = (t, Some r) \<Longrightarrow> length r < length s"
  by (auto simp: strsep_def Let_def split: if_splits)

text \<open>The loop: the flags, or \<open>None\<close> at the first unknown one.\<close>

function parse_loop :: "u32 \<Rightarrow> string \<Rightarrow> u32 option" where
  "parse_loop flags s =
     (case strsep s of (t, rest) \<Rightarrow>
        (case map_of g_flags t of
           None \<Rightarrow> None
         | Some f \<Rightarrow> (case rest of None \<Rightarrow> Some (flags OR f) | Some r \<Rightarrow> parse_loop (flags OR f) r)))"
  by pat_completeness auto

termination
  by (relation "measure (\<lambda>(flags, s). length s)") (auto dest: strsep_shorter [OF sym])

declare parse_loop.simps [simp del]

definition first_token :: "string \<Rightarrow> string" where
  "first_token s = fst (strsep s)"

text \<open>
  \<open>parse_flags\<close> on one of the two flag strings of the options: the flags, and the job, which has been
  told to leave at an unknown flag. The caller cuts its string to the first token.
\<close>

definition parse_flags :: "string option \<Rightarrow> dd_job \<Rightarrow> u32 \<times> dd_job" where
  "parse_flags file_flags D =
     (case file_flags of
        None \<Rightarrow> (0, D)
      | Some s \<Rightarrow> (case parse_loop 0 s of None \<Rightarrow> (0, dd_exit (- EINVAL) D) | Some f \<Rightarrow> (f, D)))"

definition parse_input_flags :: "dd_job \<Rightarrow> u32 \<times> dd_job" where
  "parse_input_flags D =
     (let (f, D1) = parse_flags (input_file_flags (ds_opts D)) D in
      (f, D1\<lparr>ds_opts := (ds_opts D1)\<lparr>input_file_flags := map_option first_token (input_file_flags (ds_opts D))\<rparr>\<rparr>))"

definition parse_output_flags :: "dd_job \<Rightarrow> u32 \<times> dd_job" where
  "parse_output_flags D =
     (let (f, D1) = parse_flags (output_file_flags (ds_opts D)) D in
      (f, D1\<lparr>ds_opts := (ds_opts D1)\<lparr>output_file_flags := map_option first_token (output_file_flags (ds_opts D))\<rparr>\<rparr>))"

section \<open>Opening\<close>

definition open_flags :: "u32 \<Rightarrow> bool \<Rightarrow> u32" where
  "open_flags flags is_input =
     (let f1 = flags OR O_RDWR;
          f2 = (if \<not> is_input \<and> f1 AND O_DIRECTORY = 0 then f1 OR O_CREAT else f1) in
      if \<not> is_input \<and> f2 AND O_APPEND = 0 then f2 OR O_TRUNC else f2)"

text \<open>The two limits on the queue depth: what is left of the target, and the count of units.\<close>

definition limit_by_size :: "dd_lib \<Rightarrow> u64 \<Rightarrow> u64 \<Rightarrow> spdk_dd_opts \<Rightarrow> spdk_dd_opts c_result" where
  "limit_by_size L tsize skip opts =
     (let unit = word_of_int (io_unit_size opts) :: u64 in
      if unit = 0 then Inl Div_by_zero
      else Inr (opts\<lparr>queue_depth := ucast (l_min L (ucast (queue_depth opts)) (tsize div unit - skip + 1))\<rparr>))"

definition limit_by_count :: "dd_lib \<Rightarrow> spdk_dd_opts \<Rightarrow> spdk_dd_opts" where
  "limit_by_count L opts =
     (if io_unit_count opts \<noteq> 0
      then opts\<lparr>queue_depth := word_of_int (l_imin L (uint (queue_depth opts)) (io_unit_count opts))\<rparr> else opts)"

definition dd_open_file ::
  "dd_lib \<Rightarrow> dd_setup_env \<Rightarrow> string \<Rightarrow> u32 \<Rightarrow> u64 \<Rightarrow> bool \<Rightarrow> dd_target \<Rightarrow> dd_job \<Rightarrow> (int \<times> dd_target \<times> dd_job) c_result" where
  "dd_open_file L E fname flags0 skip is_input target D =
     (let flags = open_flags flags0 is_input;
          fd = s_open E fname flags;
          D1 = emit [Dd_open fname flags fd] D;
          target1 = target\<lparr>tg_type := DD_TARGET_TYPE_FILE, tg_fd := fd\<rparr> in
      if fd < 0 then Inr (fd, target1, D1)
      else c_bind (if s_size E fd = 0 then c_bind (c_mul64 (io_unit_size (ds_opts D1)) (io_unit_count (ds_opts D1)))
                                            (\<lambda>t. Inr (word_of_int t))
                   else Inr (s_size E fd)) (\<lambda>tsize.
        let target2 = target1\<lparr>tg_block_size := word_of_int (l_max L (uint (s_blocklen E fd)) 1), tg_total_size := tsize\<rparr> in
        c_bind (if is_input then limit_by_size L tsize skip (ds_opts D1) else Inr (ds_opts D1)) (\<lambda>opts.
          Inr (0, target2, D1\<lparr>ds_opts := limit_by_count L opts\<rparr>))))"

definition dd_open_bdev ::
  "dd_lib \<Rightarrow> dd_setup_env \<Rightarrow> string \<Rightarrow> u64 \<Rightarrow> dd_target \<Rightarrow> dd_job \<Rightarrow> (int \<times> dd_target \<times> dd_job) c_result" where
  "dd_open_bdev L E name skip target D =
     (let (rc, desc) = s_bdev_open E name;
          D1 = emit [Dd_bdev_open name rc] D;
          target1 = target\<lparr>tg_type := DD_TARGET_TYPE_BDEV\<rparr> in
      if rc < 0 then Inr (rc, target1, D1)
      else let ch = s_channel E desc;
               target2 = target1\<lparr>tg_desc := Some desc, tg_open := True, tg_ch := ch\<rparr>;
               D2 = emit [Dd_get_channel ch] D1 in
        if ch = None then Inr (- ENOMEM, target2, emit [Dd_bdev_close (Some desc)] D2)
        else let tsize = s_num_blocks E desc * ucast (s_block_size E desc);
                 target3 = target2\<lparr>tg_block_size := s_block_size E desc, tg_total_size := tsize\<rparr> in
          c_bind (limit_by_size L tsize skip (ds_opts D2)) (\<lambda>opts.
            Inr (0, target3, D2\<lparr>ds_opts := limit_by_count L opts\<rparr>)))"

section \<open>The stages of \<open>dd_run\<close>\<close>

text \<open>A stage gives the job and whether \<open>dd_run\<close> goes on; it has left the application otherwise.\<close>

type_synonym dd_stage = "dd_job \<Rightarrow> (bool \<times> dd_job) c_result"

definition go_on :: "dd_job \<Rightarrow> (bool \<times> dd_job) c_result" where
  "go_on D = Inr (True, D)"

definition leave :: "int \<Rightarrow> dd_job \<Rightarrow> (bool \<times> dd_job) c_result" where
  "leave rc D = Inr (False, dd_exit rc D)"

definition then_stage :: "dd_stage \<Rightarrow> dd_stage \<Rightarrow> dd_stage" where
  "then_stage f g D = c_bind (f D) (\<lambda>(go, D'). if go then g D' else Inr (False, D'))"

definition run_input :: "dd_lib \<Rightarrow> dd_setup_env \<Rightarrow> dd_stage" where
  "run_input L E D =
     (let opts = ds_opts D in
      case input_file opts of
        Some f \<Rightarrow>
          let (flags, D1) = parse_input_flags D in
          c_bind (dd_open_file L E f flags (input_offset opts) True (ds_input D1) D1) (\<lambda>(rc, t, D2).
            let D3 = D2\<lparr>ds_input := t\<rparr> in
            if rc < 0 then leave (- s_errno E) D3 else go_on D3)
      | None \<Rightarrow>
          (case input_bdev opts of
             Some b \<Rightarrow>
               c_bind (dd_open_bdev L E b (input_offset opts) (ds_input D) D) (\<lambda>(rc, t, D2).
                 let D3 = D2\<lparr>ds_input := t\<rparr> in
                 if rc < 0 then leave rc D3 else go_on D3)
           | None \<Rightarrow> go_on D))"

definition write_size :: "dd_job \<Rightarrow> u64 c_result" where
  "write_size D = c_bind (c_mul64 (io_unit_count (ds_opts D)) (io_unit_size (ds_opts D))) (\<lambda>w. Inr (word_of_int w))"

definition run_check_input :: "dd_stage" where
  "run_check_input D0 =
     c_bind (write_size D0) (\<lambda>w.
       let D = D0\<lparr>ds_input := (ds_input D0)\<lparr>tg_pos := read_region_start D0\<rparr>\<rparr>;
           opts = ds_opts D; pos = tg_pos (ds_input D); tsize = tg_total_size (ds_input D) in
       if input_bdev opts \<noteq> None \<and> tsize < pos then leave (- ENOSPC) D
       else if io_unit_count opts \<noteq> 0 \<and> input_bdev opts \<noteq> None \<and> tsize < w + pos then leave (- ENOSPC) D
       else let D1 = D\<lparr>ds_copy_size := (if io_unit_count opts \<noteq> 0 then w else tsize - pos)\<rparr> in
         go_on (D1\<lparr>ds_output := (ds_output D1)\<lparr>tg_pos := write_region_start D1\<rparr>\<rparr>))"

definition run_output :: "dd_lib \<Rightarrow> dd_setup_env \<Rightarrow> dd_stage" where
  "run_output L E D =
     (let opts = ds_opts D in
      case output_file opts of
        Some f \<Rightarrow>
          let (flags, D1) = parse_output_flags D in
          c_bind (dd_open_file L E f flags (output_offset opts) False (ds_output D1) D1) (\<lambda>(rc, t, D2).
            let D3 = D2\<lparr>ds_output := t\<rparr> in
            if rc < 0 then leave (- s_errno E) D3 else go_on D3)
      | None \<Rightarrow>
          (case output_bdev opts of
             Some b \<Rightarrow>
               c_bind (dd_open_bdev L E b (output_offset opts) (ds_output D) D) (\<lambda>(rc, t, D2).
                 let D3 = D2\<lparr>ds_output := t\<rparr> in
                 if rc < 0 then leave rc D3
                 else if tg_total_size t < tg_pos t then leave (- ENOSPC) D3
                 else c_bind (write_size D3) (\<lambda>w.
                   if io_unit_count (ds_opts D3) \<noteq> 0 \<and> tg_total_size t < w + tg_pos t then leave (- ENOSPC) D3
                   else go_on D3))
           | None \<Rightarrow> go_on D))"

definition run_block_sizes :: "dd_stage" where
  "run_block_sizes D =
     (let unit = io_unit_size (ds_opts D); ibs = uint (tg_block_size (ds_input D)) in
      if unit < uint (tg_block_size (ds_output D)) \<or> unit < ibs then leave (- EINVAL) D
      else if input_bdev (ds_opts D) = None then go_on D
      else if ibs = 0 then Inl Div_by_zero
      else if unit mod ibs \<noteq> 0 then leave (- EINVAL) D
      else go_on D)"

text \<open>The buffers of the units from \<open>i\<close> to the queue depth, up to the first that cannot be allocated.\<close>

fun alloc_units :: "dd_setup_env \<Rightarrow> nat \<Rightarrow> nat \<Rightarrow> bool \<times> nat option list" where
  "alloc_units E i 0 = (True, [])"
| "alloc_units E i (Suc k) =
     (case s_malloc E i of
        None \<Rightarrow> (False, replicate (Suc k) None)
      | Some b \<Rightarrow> (case alloc_units E (Suc i) k of (ok, bs) \<Rightarrow> (ok, Some b # bs)))"

definition new_io :: "u64 \<Rightarrow> nat option \<Rightarrow> dd_io" where
  "new_io len b = \<lparr>dio_offset = 0, dio_length = (if b = None then 0 else len), dio_type = DD_POPULATE\<rparr>"

definition run_units :: "dd_setup_env \<Rightarrow> dd_stage" where
  "run_units E D =
     (if \<not> s_calloc E then leave (- ENOMEM) D
      else let (ok, bs) = alloc_units E 0 (unat (queue_depth (ds_opts D)));
               D1 = D\<lparr>ds_bufs := Some bs, ds_ios := map (new_io (word_of_int (io_unit_size (ds_opts D)))) bs\<rparr> in
        if ok then go_on D1 else leave (- ENOMEM) D1)"

definition dd_is_blk :: "dd_setup_env \<Rightarrow> int \<Rightarrow> bool" where
  "dd_is_blk E fd = (case s_fstat E fd of None \<Rightarrow> False | Some b \<Rightarrow> b)"

abbreviation IORING_SETUP_IOPOLL :: u32 where "IORING_SETUP_IOPOLL \<equiv> 1"
abbreviation IORING_SETUP_SQPOLL :: u32 where "IORING_SETUP_SQPOLL \<equiv> 2"

text \<open>Ring creation, called without CPU affinity: whether the call was made, and the status.\<close>

definition dd_uring_init :: "dd_setup_env \<Rightarrow> u32 \<Rightarrow> dd_job \<Rightarrow> (bool \<times> int) \<times> dd_job" where
  "dd_uring_init E flags D =
     (s_ring_init E,
      if fst (s_ring_init E) then emit [Dd_ring_init (queue_depth (ds_opts D) * 2) flags (snd (s_ring_init E))] D else D)"

definition dd_register_files :: "dd_setup_env \<Rightarrow> dd_job \<Rightarrow> int \<times> dd_job" where
  "dd_register_files E D =
     (let (fds1, D1) = (if input_file (ds_opts D) \<noteq> None
                        then ([tg_fd (ds_input D)], D\<lparr>ds_input := (ds_input D)\<lparr>tg_idx := 0\<rparr>\<rparr>) else ([], D));
          (fds2, D2) = (if output_file (ds_opts D) \<noteq> None
                        then (fds1 @ [tg_fd (ds_output D1)],
                              D1\<lparr>ds_output := (ds_output D1)\<lparr>tg_idx := length fds1\<rparr>\<rparr>) else (fds1, D1)) in
      (s_register_files E, emit [Dd_register_files fds2 (s_register_files E)] D2))"

definition dd_register_buffers :: "dd_setup_env \<Rightarrow> dd_job \<Rightarrow> int \<times> dd_job" where
  "dd_register_buffers E D =
     (if \<not> s_calloc_iovs E then (- ENOMEM, D)
      else (s_register_buffers E, emit [Dd_register_buffers (queue_depth (ds_opts D)) (s_register_buffers E)] D))"

definition run_uring :: "dd_setup_env \<Rightarrow> dd_stage" where
  "run_uring E D0 =
     (let (f1, Da) = parse_input_flags D0;
          (f2, Db) = parse_output_flags Da;
          ring_flags = (if f1 AND f2 AND O_DIRECT \<noteq> 0 \<and> dd_is_blk E (tg_fd (ds_input Db)) \<and>
                           dd_is_blk E (tg_fd (ds_output Db))
                        then IORING_SETUP_IOPOLL else IORING_SETUP_SQPOLL);
          ((called, rc), D) = dd_uring_init E ring_flags (emit [Dd_register_io_poller] Db) in
      if \<not> called \<or> rc \<noteq> 0 then leave rc D
      else let (rc1, D1) = dd_register_files E (D\<lparr>ds_ring_active := True\<rparr>) in
        if rc1 \<noteq> 0 then leave rc1 D1
        else let (rc2, D2) = dd_register_buffers E D1 in
          if rc2 \<noteq> 0 then leave rc2 D2 else go_on D2)"

definition run_backend :: "dd_setup_env \<Rightarrow> dd_stage" where
  "run_backend E D =
     (if input_file (ds_opts D) = None \<and> output_file (ds_opts D) = None then go_on D
      else if \<not> aio (ds_opts D) then run_uring E D
      else go_on (emit [Dd_register_io_poller, Dd_io_setup (queue_depth (ds_opts D))] D))"

text \<open>The status poller and the first requests; \<open>s_envs\<close> is what the outside answers to each unit.\<close>

definition start_envs :: "dd_setup_env \<Rightarrow> dd_job \<Rightarrow> dd_env list" where
  "start_envs E D = map (s_envs E) [0..<unat (queue_depth (ds_opts D))]"

definition run_prepare :: "dd_setup_env \<Rightarrow> dd_stage" where
  "run_prepare E D = go_on (emit [Dd_register_status_poller] (D\<lparr>ds_start_time := s_now E, ds_seek_queue := []\<rparr>))"

definition dd_setup :: "dd_lib \<Rightarrow> dd_setup_env \<Rightarrow> dd_stage" where
  "dd_setup L E =
     then_stage (run_input L E) (then_stage run_check_input (then_stage (run_output L E)
       (then_stage run_block_sizes (then_stage (run_units E) (then_stage (run_backend E) (run_prepare E))))))"

definition dd_run :: "dd_lib \<Rightarrow> dd_setup_env \<Rightarrow> dd_job \<Rightarrow> (bool \<times> dd_job) c_result" where
  "dd_run L E = then_stage (dd_setup L E)
     (\<lambda>D. c_bind (start_units L (start_envs E D) 0 D) go_on)"

section \<open>The command line\<close>

datatype dd_cmdline_opts =
    DD_OPTION_IF | DD_OPTION_OF | DD_OPTION_IFLAGS | DD_OPTION_OFLAGS | DD_OPTION_IB | DD_OPTION_OB
  | DD_OPTION_SKIP | DD_OPTION_SEEK | DD_OPTION_BS | DD_OPTION_QD | DD_OPTION_COUNT
  | DD_OPTION_AIO | DD_OPTION_SPARSE

text \<open>The table of long options: the name, whether it takes an argument, and the value.\<close>

definition g_cmdline_opts :: "(string \<times> bool \<times> dd_cmdline_opts) list" where
  "g_cmdline_opts =
     [(''if'', True, DD_OPTION_IF), (''of'', True, DD_OPTION_OF), (''iflag'', True, DD_OPTION_IFLAGS),
      (''oflag'', True, DD_OPTION_OFLAGS), (''ib'', True, DD_OPTION_IB), (''ob'', True, DD_OPTION_OB),
      (''skip'', True, DD_OPTION_SKIP), (''seek'', True, DD_OPTION_SEEK), (''bs'', True, DD_OPTION_BS),
      (''qd'', True, DD_OPTION_QD), (''count'', True, DD_OPTION_COUNT), (''aio'', False, DD_OPTION_AIO),
      (''sparse'', False, DD_OPTION_SPARSE)]"

definition g_opts :: spdk_dd_opts where
  "g_opts = \<lparr>input_file = None, output_file = None, input_file_flags = None, output_file_flags = None,
     input_bdev = None, output_bdev = None, input_offset = 0, output_offset = 0, io_unit_size = 4096,
     io_unit_count = 0, queue_depth = 2, aio = False, sparse = False\<rparr>"

text \<open>
  \<open>strtol\<close> stands for \<open>spdk_strtol\<close> in base 10. An option that is none of these is \<open>None\<close>; the result is 1
  after the usage message. \<open>strdup\<close> is taken to succeed.
\<close>

fun parse_args :: "(string \<Rightarrow> int) \<Rightarrow> dd_cmdline_opts option \<Rightarrow> string \<Rightarrow> spdk_dd_opts \<Rightarrow> int \<times> spdk_dd_opts" where
  "parse_args strtol (Some DD_OPTION_IF) a opts = (0, opts\<lparr>input_file := Some a\<rparr>)"
| "parse_args strtol (Some DD_OPTION_OF) a opts = (0, opts\<lparr>output_file := Some a\<rparr>)"
| "parse_args strtol (Some DD_OPTION_IFLAGS) a opts = (0, opts\<lparr>input_file_flags := Some a\<rparr>)"
| "parse_args strtol (Some DD_OPTION_OFLAGS) a opts = (0, opts\<lparr>output_file_flags := Some a\<rparr>)"
| "parse_args strtol (Some DD_OPTION_IB) a opts = (0, opts\<lparr>input_bdev := Some a\<rparr>)"
| "parse_args strtol (Some DD_OPTION_OB) a opts = (0, opts\<lparr>output_bdev := Some a\<rparr>)"
| "parse_args strtol (Some DD_OPTION_SKIP) a opts = (0, opts\<lparr>input_offset := word_of_int (strtol a)\<rparr>)"
| "parse_args strtol (Some DD_OPTION_SEEK) a opts = (0, opts\<lparr>output_offset := word_of_int (strtol a)\<rparr>)"
| "parse_args strtol (Some DD_OPTION_BS) a opts = (0, opts\<lparr>io_unit_size := strtol a\<rparr>)"
| "parse_args strtol (Some DD_OPTION_QD) a opts = (0, opts\<lparr>queue_depth := word_of_int (strtol a)\<rparr>)"
| "parse_args strtol (Some DD_OPTION_COUNT) a opts = (0, opts\<lparr>io_unit_count := strtol a\<rparr>)"
| "parse_args strtol (Some DD_OPTION_AIO) a opts = (0, opts\<lparr>aio := True\<rparr>)"
| "parse_args strtol (Some DD_OPTION_SPARSE) a opts = (0, opts\<lparr>sparse := True\<rparr>)"
| "parse_args strtol None a opts = (1, opts)"

text \<open>The checks of \<open>main\<close>, in their order; each ends the program with \<open>EINVAL\<close>.\<close>

definition main_check :: "spdk_dd_opts \<Rightarrow> int" where
  "main_check opts =
     (if input_file opts \<noteq> None \<and> input_bdev opts \<noteq> None then EINVAL
      else if output_file opts \<noteq> None \<and> output_bdev opts \<noteq> None then EINVAL
      else if input_file opts = None \<and> input_bdev opts = None then EINVAL
      else if output_file opts = None \<and> output_bdev opts = None then EINVAL
      else if io_unit_size opts \<le> 0 then EINVAL
      else if io_unit_count opts < 0 then EINVAL
      else if output_file opts = None \<and> output_file_flags opts \<noteq> None then EINVAL
      else if input_file opts = None \<and> input_file_flags opts \<noteq> None then EINVAL
      else 0)"

text \<open>
  \<open>main\<close>: \<open>rc\<close> is what \<open>spdk_app_parse_args\<close> returned, \<open>fail\<close> and \<open>help\<close> the two values it is compared with,
  \<open>started\<close> what \<open>spdk_app_start\<close> returns after \<open>dd_run\<close>. The result is the exit status, and whether the
  application was started (then \<open>dd_free\<close> follows).
\<close>

definition dd_main :: "int \<Rightarrow> int \<Rightarrow> int \<Rightarrow> spdk_dd_opts \<Rightarrow> int \<Rightarrow> int \<times> bool" where
  "dd_main fail help rc opts started =
     (if rc = fail \<or> rc = help then (rc, False)
      else if main_check opts \<noteq> 0 then (main_check opts, False)
      else (started, True))"

text \<open>The zeroed job.\<close>

definition zero_target :: dd_target where
  "zero_target = \<lparr>tg_type = DD_TARGET_TYPE_FILE, tg_fd = 0, tg_idx = 0, tg_desc = None, tg_ch = None,
     tg_block_size = 0, tg_pos = 0, tg_total_size = 0, tg_open = False\<rparr>"

definition g_job :: "spdk_dd_opts \<Rightarrow> dd_job" where
  "g_job opts = \<lparr>ds_opts = opts, ds_input = zero_target, ds_output = zero_target, ds_ios = [], ds_outstanding = 0,
     ds_copy_size = 0, ds_seek_queue = [], ds_start_time = (0, 0), ds_total_bytes = 0, ds_incremental_bytes = 0,
     ds_error = 0, ds_interrupt = False, ds_bufs = None, ds_ring_active = False, ds_calls = []\<rparr>"

text \<open>What \<open>dd_free\<close> releases.\<close>

datatype dd_release =
    Free_string string
  | Ring_unregister_files
  | Ring_exit
  | Aio_destroy
  | Free_buf "nat option"
  | Free_ios

definition free_string :: "string option \<Rightarrow> dd_release list" where
  "free_string s = (case s of None \<Rightarrow> [] | Some x \<Rightarrow> [Free_string x])"

definition dd_free :: "dd_job \<Rightarrow> dd_release list c_result" where
  "dd_free D =
     (let opts = ds_opts D;
          strings = concat (map free_string [input_file opts, output_file opts, input_bdev opts, output_bdev opts,
                                             input_file_flags opts, output_file_flags opts]);
          backend = (if tg_type (ds_input D) = DD_TARGET_TYPE_FILE \<or> tg_type (ds_output D) = DD_TARGET_TYPE_FILE
                     then if \<not> aio opts then if ds_ring_active D then [Ring_unregister_files, Ring_exit] else []
                          else [Aio_destroy]
                     else []) in
      case ds_bufs D of
        None \<Rightarrow> Inr (strings @ backend)
      | Some bs \<Rightarrow>
          if length bs < unat (queue_depth opts) then Inl Out_of_bounds
          else Inr (strings @ backend @ map Free_buf (take (unat (queue_depth opts)) bs) @ [Free_ios]))"

text \<open>Every option has exactly one name.\<close>

lemma cmdline_opts_complete:
  "distinct (map fst g_cmdline_opts)" "length (filter (\<lambda>e. snd (snd e) = opt) g_cmdline_opts) = 1"
proof -
  show "distinct (map fst g_cmdline_opts)"
    by code_simp
  show "length (filter (\<lambda>e. snd (snd e) = opt) g_cmdline_opts) = 1"
    by (cases opt) (simp_all add: g_cmdline_opts_def)
qed

end
