(* ===== verification/Dd_Stages.thy ===== *)
theory Dd_Stages
  imports Dd_Setup
begin

text \<open>
  The setup of the copy tool: what a setup that succeeds has prepared, how one that fails leaves, that
  the regions lie inside the devices, and what the flags mean.
\<close>

section \<open>What every stage keeps\<close>

text \<open>The options that say what to copy; only the queue depth and the flag strings change.\<close>

definition request :: "spdk_dd_opts \<Rightarrow> spdk_dd_opts" where
  "request opts = opts\<lparr>queue_depth := 0, input_file_flags := None, output_file_flags := None\<rparr>"

lemma request_fields:
  assumes "request a = request b"
  shows "input_file a = input_file b" "output_file a = output_file b" "input_bdev a = input_bdev b"
    "output_bdev a = output_bdev b" "input_offset a = input_offset b" "output_offset a = output_offset b"
    "io_unit_size a = io_unit_size b" "io_unit_count a = io_unit_count b" "aio a = aio b" "sparse a = sparse b"
proof -
  have "input_file (request a) = input_file (request b)" "output_file (request a) = output_file (request b)"
    "input_bdev (request a) = input_bdev (request b)" "output_bdev (request a) = output_bdev (request b)"
    "input_offset (request a) = input_offset (request b)" "output_offset (request a) = output_offset (request b)"
    "io_unit_size (request a) = io_unit_size (request b)" "io_unit_count (request a) = io_unit_count (request b)"
    "aio (request a) = aio (request b)" "sparse (request a) = sparse (request b)"
    using assms by simp_all
  then show "input_file a = input_file b" "output_file a = output_file b" "input_bdev a = input_bdev b"
    "output_bdev a = output_bdev b" "input_offset a = input_offset b" "output_offset a = output_offset b"
    "io_unit_size a = io_unit_size b" "io_unit_count a = io_unit_count b" "aio a = aio b" "sparse a = sparse b"
    by (simp_all add: request_def)
qed

definition keeps :: "dd_job \<Rightarrow> dd_job \<Rightarrow> bool" where
  "keeps D D' \<longleftrightarrow> request (ds_opts D') = request (ds_opts D) \<and> ds_outstanding D' = ds_outstanding D \<and>
     ds_error D' = ds_error D \<and> ds_interrupt D' = ds_interrupt D \<and>
     (0 \<le> io_unit_count (ds_opts D) \<longrightarrow> queue_depth (ds_opts D') \<le> queue_depth (ds_opts D)) \<and>
     (\<exists>cs. ds_calls D' = ds_calls D @ cs \<and> submitted cs = [])"

lemma keeps_refl [simp]: "keeps D D"
  by (simp add: keeps_def)

lemma keeps_new: "keeps D D' \<Longrightarrow> ds_calls D' = ds_calls D @ new_calls D D'"
  by (auto simp: keeps_def new_calls_def)

lemma new_calls_trans:
  assumes "keeps D D1" and "keeps D1 D2"
  shows "new_calls D D2 = new_calls D D1 @ new_calls D1 D2"
proof -
  obtain cs cs' where "ds_calls D1 = ds_calls D @ cs" "ds_calls D2 = ds_calls D1 @ cs'"
    using assms by (auto simp: keeps_def)
  then show ?thesis
    by (simp add: new_calls_def)
qed

lemma keeps_trans:
  assumes "keeps D D1" and "keeps D1 D2"
  shows "keeps D D2"
proof -
  obtain cs cs' where cs: "ds_calls D1 = ds_calls D @ cs" "submitted cs = []"
    "ds_calls D2 = ds_calls D1 @ cs'" "submitted cs' = []"
    using assms by (auto simp: keeps_def)
  have q: "queue_depth (ds_opts D2) \<le> queue_depth (ds_opts D)" if "0 \<le> io_unit_count (ds_opts D)"
  proof -
    have "io_unit_count (ds_opts D1) = io_unit_count (ds_opts D)"
      using assms(1) request_fields(8) [of "ds_opts D1" "ds_opts D"] by (simp add: keeps_def)
    then show ?thesis
      using assms that by (auto simp: keeps_def)
  qed
  have "\<exists>cs. ds_calls D2 = ds_calls D @ cs \<and> submitted cs = []"
    using cs by (intro exI [of _ "cs @ cs'"]) simp
  with assms q show ?thesis
    by (simp add: keeps_def)
qed

text \<open>A stage that goes on has kept the request; one that does not has left the application.\<close>

definition stage_ok :: "dd_stage \<Rightarrow> bool" where
  "stage_ok f \<longleftrightarrow> (\<forall>D go D'. f D = Inr (go, D') \<longrightarrow> keeps D D' \<and> (\<not> go \<longrightarrow> 0 < stops (new_calls D D')))"

lemma then_stage_ok:
  assumes "stage_ok f" and "stage_ok g"
  shows "stage_ok (then_stage f g)"
  unfolding stage_ok_def
proof (intro allI impI)
  fix D go D'
  assume "then_stage f g D = Inr (go, D')"
  then obtain go1 D1 where D1: "f D = Inr (go1, D1)" "(if go1 then g D1 else Inr (False, D1)) = Inr (go, D')"
    by (auto simp: then_stage_def)
  note k1 = assms(1) [unfolded stage_ok_def, rule_format, OF D1(1)]
  show "keeps D D' \<and> (\<not> go \<longrightarrow> 0 < stops (new_calls D D'))"
  proof (cases go1)
    case True
    with D1(2) assms(2) have k2: "keeps D1 D'" "\<not> go \<longrightarrow> 0 < stops (new_calls D1 D')"
      by (auto simp: stage_ok_def)
    have "new_calls D D' = new_calls D D1 @ new_calls D1 D'"
      using k1 k2(1) by (intro new_calls_trans) simp_all
    with k1 k2 keeps_trans show ?thesis by auto
  next
    case False
    with D1(2) k1 show ?thesis by auto
  qed
qed

lemma keeps_emit: "submitted cs = [] \<Longrightarrow> keeps D (emit cs D)"
  by (simp add: keeps_def)

lemma exit_keeps: "keeps D (dd_exit rc D)"
proof -
  obtain cs where "ds_calls (dd_exit rc D) = ds_calls D @ cs"
    using exit_trace by blast
  with exit_calls [OF this] show ?thesis
    by (auto simp: keeps_def)
qed

lemma leave_ok:
  assumes "leave rc X = Inr (go, D')" and "keeps D X"
  shows "\<not> go \<and> keeps D D' \<and> 0 < stops (new_calls D D')"
proof -
  have D': "D' = dd_exit rc X" "\<not> go"
    using assms(1) by (auto simp: leave_def)
  obtain cs where cs: "ds_calls (dd_exit rc X) = ds_calls X @ cs"
    using exit_trace by blast
  have "new_calls X D' = cs"
    using cs by (simp add: D' new_calls_def)
  with new_calls_trans [OF assms(2) exit_keeps [of X rc]] have "new_calls D D' = new_calls D X @ cs"
    by (simp add: D')
  with D' assms(2) exit_keeps [of X rc] exit_calls [OF cs] show ?thesis
    by (auto intro: keeps_trans)
qed

lemma go_on_ok: "go_on X = Inr (go, D') \<longleftrightarrow> go \<and> D' = X"
  by (auto simp: go_on_def)

text \<open>The options after the limits.\<close>

lemma limit_by_size_effect:
  assumes "limit_by_size L tsize skip opts = Inr opts'" and "dd_lib_ok L"
  shows "request opts' = request opts \<and> queue_depth opts' \<le> queue_depth opts \<and>
    input_file_flags opts' = input_file_flags opts \<and> output_file_flags opts' = output_file_flags opts"
proof -
  let ?m = "min (ucast (queue_depth opts)) (tsize div word_of_int (io_unit_size opts) - skip + 1) :: u64"
  have o: "opts' = opts\<lparr>queue_depth := ucast ?m\<rparr>"
    using assms by (auto simp: limit_by_size_def Let_def dd_lib_ok_def split: if_splits)
  have "unat ?m \<le> unat (queue_depth opts)"
    by (simp add: min_def word_le_nat_alt)
  moreover have "unat (ucast ?m :: u32) \<le> unat ?m"
    by (simp add: unsigned_ucast_eq take_bit_nat_less_eq_self)
  ultimately show ?thesis
    by (simp add: o request_def word_le_nat_alt)
qed

lemma limit_by_count_effect:
  assumes "dd_lib_ok L"
  shows "request (limit_by_count L opts) = request opts"
    and "0 \<le> io_unit_count opts \<Longrightarrow> queue_depth (limit_by_count L opts) \<le> queue_depth opts"
    and "0 < io_unit_count opts \<Longrightarrow> uint (queue_depth (limit_by_count L opts)) \<le> io_unit_count opts"
    and "input_file_flags (limit_by_count L opts) = input_file_flags opts"
    and "output_file_flags (limit_by_count L opts) = output_file_flags opts"
proof -
  let ?m = "min (uint (queue_depth opts)) (io_unit_count opts)"
  have m: "uint (word_of_int ?m :: u32) = ?m" if "0 \<le> io_unit_count opts"
  proof -
    have "0 \<le> ?m" "?m < 2 ^ 32"
      using that unsigned_less [of "queue_depth opts", where 'a = int] by auto
    then show ?thesis
      by (simp add: unsigned_of_int take_bit_int_eq_self)
  qed
  show "queue_depth (limit_by_count L opts) \<le> queue_depth opts" if "0 \<le> io_unit_count opts"
    using m [OF that] assms by (simp add: limit_by_count_def dd_lib_ok_def word_le_def)
  show "uint (queue_depth (limit_by_count L opts)) \<le> io_unit_count opts" if "0 < io_unit_count opts"
    using m that assms by (simp add: limit_by_count_def dd_lib_ok_def)
qed (simp_all add: limit_by_count_def request_def)


lemma emit_setup [simp]:
  "ds_ring_active (emit cs D) = ds_ring_active D"
  "ds_start_time (emit cs D) = ds_start_time D"
  by (simp_all add: emit_def)

text \<open>Opening and flag parsing touch only the options and the trace.\<close>

definition only_opts :: "dd_job \<Rightarrow> dd_job \<Rightarrow> bool" where
  "only_opts D D' \<longleftrightarrow> ds_input D' = ds_input D \<and> ds_output D' = ds_output D \<and> ds_ios D' = ds_ios D \<and>
     ds_copy_size D' = ds_copy_size D \<and> ds_bufs D' = ds_bufs D \<and> ds_ring_active D' = ds_ring_active D"

lemma only_opts_simps [simp]: "only_opts D D" "only_opts D (emit cs D)" "only_opts D (D\<lparr>ds_opts := opts\<rparr>)"
  by (simp_all add: only_opts_def emit_def)

lemma only_opts_trans: "only_opts D D1 \<Longrightarrow> only_opts D1 D2 \<Longrightarrow> only_opts D D2"
  by (simp add: only_opts_def)

lemma parse_flags_effect:
  assumes "parse_flags ff D = (f, D')"
  shows "keeps D D' \<and> only_opts D D' \<and> ds_opts D' = ds_opts D"
  using assms exit_keeps [of D "- EINVAL"]
  by (auto simp: parse_flags_def only_opts_def dd_exit_def emit_def split: option.splits)

lemma keeps_opts:
  assumes "keeps D X" and "request opts = request (ds_opts X)" and "queue_depth opts = queue_depth (ds_opts X)"
  shows "keeps D (X\<lparr>ds_opts := opts\<rparr>)"
  using assms by (simp add: keeps_def)

lemma parse_input_flags_effect:
  assumes "parse_input_flags D = (f, D')"
  shows "keeps D D' \<and> only_opts D D' \<and> queue_depth (ds_opts D') = queue_depth (ds_opts D)"
proof -
  obtain D1 where D1: "parse_flags (input_file_flags (ds_opts D)) D = (f, D1)"
    and D': "D' = D1\<lparr>ds_opts := (ds_opts D1)\<lparr>input_file_flags := map_option first_token (input_file_flags (ds_opts D))\<rparr>\<rparr>"
    using assms by (auto simp: parse_input_flags_def split: prod.splits)
  from parse_flags_effect [OF D1] show ?thesis
    unfolding D' by (auto intro!: keeps_opts only_opts_trans [of D D1] simp: request_def)
qed

lemma parse_output_flags_effect:
  assumes "parse_output_flags D = (f, D')"
  shows "keeps D D' \<and> only_opts D D' \<and> queue_depth (ds_opts D') = queue_depth (ds_opts D)"
proof -
  obtain D1 where D1: "parse_flags (output_file_flags (ds_opts D)) D = (f, D1)"
    and D': "D' = D1\<lparr>ds_opts := (ds_opts D1)\<lparr>output_file_flags := map_option first_token (output_file_flags (ds_opts D))\<rparr>\<rparr>"
    using assms by (auto simp: parse_output_flags_def split: prod.splits)
  from parse_flags_effect [OF D1] show ?thesis
    unfolding D' by (auto intro!: keeps_opts only_opts_trans [of D D1] simp: request_def)
qed

text \<open>The count, when it is set, bounds the queue depth from the first opening on.\<close>

definition depth_ok :: "spdk_dd_opts \<Rightarrow> bool" where
  "depth_ok opts \<longleftrightarrow> 0 < io_unit_count opts \<longrightarrow> uint (queue_depth opts) \<le> io_unit_count opts"

lemma depth_ok_mono: "keeps D D' \<Longrightarrow> depth_ok (ds_opts D) \<Longrightarrow> depth_ok (ds_opts D')"
  using request_fields(8) [of "ds_opts D'" "ds_opts D"] by (auto simp: keeps_def depth_ok_def word_le_def)

lemma limits_effect:
  assumes "request opts = request (ds_opts D)" and "queue_depth opts \<le> queue_depth (ds_opts D)" and "dd_lib_ok L"
  shows "keeps D (D\<lparr>ds_opts := limit_by_count L opts\<rparr>) \<and> depth_ok (limit_by_count L opts)"
proof -
  note c = limit_by_count_effect [OF assms(3), of opts]
  have "io_unit_count opts = io_unit_count (ds_opts D)"
    "io_unit_count (limit_by_count L opts) = io_unit_count opts"
    using request_fields(8) assms(1) c(1) by blast+
  with c assms(1,2) show ?thesis
    by (auto simp: keeps_def depth_ok_def intro: order_trans)
qed

lemma open_file_effect:
  assumes "dd_open_file L E fname flags skip inp t D = Inr (rc, t', D')" and "dd_lib_ok L"
  shows "keeps D D' \<and> only_opts D D' \<and> tg_pos t' = tg_pos t \<and> tg_type t' = DD_TARGET_TYPE_FILE \<and>
    stops (new_calls D D') = 0 \<and> (0 \<le> rc \<longrightarrow> depth_ok (ds_opts D') \<and> tg_block_size t' \<noteq> 0)"
proof -
  let ?fd = "s_open E fname (open_flags flags inp)"
  let ?D1 = "emit [Dd_open fname (open_flags flags inp) ?fd] D"
  have k1: "keeps D ?D1"
    by (simp add: keeps_emit)
  show ?thesis
  proof (cases "?fd < 0")
    case True
    with assms(1) k1 show ?thesis
      by (auto simp: dd_open_file_def Let_def new_calls_def)
  next
    case False
    with assms(1) obtain opts n where
      o: "(if inp then limit_by_size L n skip (ds_opts ?D1) else Inr (ds_opts ?D1)) = Inr opts"
      and D': "D' = ?D1\<lparr>ds_opts := limit_by_count L opts\<rparr>"
      and t: "t' = t\<lparr>tg_type := DD_TARGET_TYPE_FILE, tg_fd := ?fd,
        tg_block_size := word_of_int (l_max L (uint (s_blocklen E ?fd)) 1), tg_total_size := n\<rparr>"
      by (auto simp: dd_open_file_def Let_def simp del: emit_simps)
    then have t': "tg_pos t' = tg_pos t" "tg_type t' = DD_TARGET_TYPE_FILE"
        "tg_block_size t' = word_of_int (l_max L (uint (s_blocklen E ?fd)) 1)"
      by simp_all
    have "request opts = request (ds_opts ?D1) \<and> queue_depth opts \<le> queue_depth (ds_opts ?D1)"
      using o limit_by_size_effect [OF _ assms(2)] by (auto split: if_splits)
    then have k2: "keeps ?D1 D'" "depth_ok (ds_opts D')"
      using limits_effect [of opts ?D1 L] assms(2) D' by auto
    have "uint (word_of_int (max (uint (s_blocklen E ?fd)) 1) :: u32) = max (uint (s_blocklen E ?fd)) 1"
      using unsigned_less [of "s_blocklen E ?fd", where 'a = int]
      by (simp add: unsigned_of_int take_bit_int_eq_self max_def)
    then have "tg_block_size t' \<noteq> 0"
      using t'(3) assms(2) by (auto simp: dd_lib_ok_def)
    with t' k2 keeps_trans [OF k1 k2(1)] show ?thesis
      by (auto simp: D' new_calls_def only_opts_def emit_def)
  qed
qed

lemma open_bdev_effect:
  assumes "dd_open_bdev L E name skip t D = Inr (rc, t', D')" and "dd_lib_ok L"
  shows "keeps D D' \<and> only_opts D D' \<and> tg_pos t' = tg_pos t \<and> tg_type t' = DD_TARGET_TYPE_BDEV \<and>
    stops (new_calls D D') = 0 \<and> (0 \<le> rc \<longrightarrow> depth_ok (ds_opts D') \<and> tg_open t')"
proof -
  obtain rc0 desc where b: "s_bdev_open E name = (rc0, desc)"
    by fastforce
  let ?D1 = "emit [Dd_bdev_open name rc0] D"
  let ?D2 = "emit [Dd_get_channel (s_channel E desc)] ?D1"
  have k1: "keeps D ?D1" "keeps ?D1 ?D2"
    by (simp_all add: keeps_emit)
  note k2 = keeps_trans [OF this]
  consider "rc0 < 0" | "0 \<le> rc0" "s_channel E desc = None" | "0 \<le> rc0" "s_channel E desc \<noteq> None"
    by linarith
  then show ?thesis
  proof cases
    case 1
    with assms(1) k1(1) b show ?thesis
      by (auto simp: dd_open_bdev_def Let_def new_calls_def)
  next
    case 2
    have "keeps D (emit [Dd_bdev_close (Some desc)] ?D2)"
      using k2 keeps_emit [of "[Dd_bdev_close (Some desc)]" ?D2] keeps_trans by auto
    with assms(1) 2 b show ?thesis
      by (auto simp: dd_open_bdev_def Let_def new_calls_def only_opts_def emit_def)
  next
    case 3
    with assms(1) b obtain opts where
      o: "limit_by_size L (tg_total_size t') skip (ds_opts ?D2) = Inr opts"
      and D': "D' = ?D2\<lparr>ds_opts := limit_by_count L opts\<rparr>"
      and t': "tg_pos t' = tg_pos t" "tg_type t' = DD_TARGET_TYPE_BDEV" "tg_open t'"
      by (auto simp: dd_open_bdev_def Let_def)
    have "keeps ?D2 D' \<and> depth_ok (ds_opts D')"
      using limits_effect [of opts ?D2 L] limit_by_size_effect [OF o assms(2)] assms(2) D' by auto
    with t' keeps_trans [OF k2] show ?thesis
      by (auto simp: D' new_calls_def only_opts_def emit_def)
  qed
qed

section \<open>The stages\<close>

lemma keeps_updates [simp]:
  "keeps D (X\<lparr>ds_input := t\<rparr>) = keeps D X" "keeps D (X\<lparr>ds_output := t\<rparr>) = keeps D X"
  "keeps D (X\<lparr>ds_copy_size := n\<rparr>) = keeps D X" "keeps D (X\<lparr>ds_bufs := bs\<rparr>) = keeps D X"
  "keeps D (X\<lparr>ds_ios := ios\<rparr>) = keeps D X" "keeps D (X\<lparr>ds_ring_active := b\<rparr>) = keeps D X"
  "keeps D (X\<lparr>ds_start_time := st\<rparr>) = keeps D X" "keeps D (X\<lparr>ds_seek_queue := q\<rparr>) = keeps D X"
  by (simp_all add: keeps_def)

lemma stage_okI:
  assumes "\<And>D go D'. f D = Inr (go, D') \<Longrightarrow> keeps D D' \<and> (\<not> go \<longrightarrow> 0 < stops (new_calls D D'))"
  shows "stage_ok f"
  using assms by (simp add: stage_ok_def)

lemma stage_okD:
  assumes "stage_ok f" and "f D = Inr (go, D')"
  shows "keeps D D'" and "\<not> go \<Longrightarrow> 0 < stops (new_calls D D')"
  using assms by (auto simp: stage_ok_def)

text \<open>A stage that ends in one of the two ways.\<close>

lemma ends_ok:
  assumes "(if bad then leave rc X else go_on Y) = Inr (go, D')" and "keeps D X" and "keeps D Y"
  shows "keeps D D' \<and> (\<not> go \<longrightarrow> 0 < stops (new_calls D D'))"
  using assms leave_ok [of rc X go D' D] by (auto simp: go_on_ok split: if_splits)

lemma run_input_ok:
  assumes "dd_lib_ok L"
  shows "stage_ok (run_input L E)"
proof (rule stage_okI)
  fix D go D'
  assume st: "run_input L E D = Inr (go, D')"
  show "keeps D D' \<and> (\<not> go \<longrightarrow> 0 < stops (new_calls D D'))"
  proof (cases "input_file (ds_opts D)")
    case (Some f)
    obtain flags D1 where p: "parse_input_flags D = (flags, D1)" by fastforce
    with st Some obtain rc t D2 where
      o: "dd_open_file L E f flags (input_offset (ds_opts D)) True (ds_input D1) D1 = Inr (rc, t, D2)"
      and e: "(if rc < 0 then leave (- s_errno E) (D2\<lparr>ds_input := t\<rparr>) else go_on (D2\<lparr>ds_input := t\<rparr>)) = Inr (go, D')"
      by (auto simp: run_input_def Let_def)
    have "keeps D D2"
      using parse_input_flags_effect [OF p] open_file_effect [OF o assms] keeps_trans by blast
    with ends_ok [OF e] show ?thesis by simp
  next
    case None
    show ?thesis
    proof (cases "input_bdev (ds_opts D)")
      case (Some b)
      with st None obtain rc t D2 where
        o: "dd_open_bdev L E b (input_offset (ds_opts D)) (ds_input D) D = Inr (rc, t, D2)"
        and e: "(if rc < 0 then leave rc (D2\<lparr>ds_input := t\<rparr>) else go_on (D2\<lparr>ds_input := t\<rparr>)) = Inr (go, D')"
        by (auto simp: run_input_def Let_def)
      with ends_ok [OF e, of D] open_bdev_effect [OF o assms] show ?thesis by simp
    qed (use st None in \<open>simp add: run_input_def go_on_ok\<close>)
  qed
qed

lemma run_check_input_ok: "stage_ok run_check_input"
proof (rule stage_okI)
  fix D go D'
  assume st: "run_check_input D = Inr (go, D')"
  let ?D = "D\<lparr>ds_input := (ds_input D)\<lparr>tg_pos := read_region_start D\<rparr>\<rparr>"
  have l: "leave rc ?D = Inr (go, D') \<Longrightarrow> keeps D D' \<and> (\<not> go \<longrightarrow> 0 < stops (new_calls D D'))" for rc
    using leave_ok [of rc ?D go D' D] by simp
  from st l show "keeps D D' \<and> (\<not> go \<longrightarrow> 0 < stops (new_calls D D'))"
    by (auto simp: run_check_input_def Let_def go_on_ok split: if_splits)
qed

lemma run_output_ok:
  assumes "dd_lib_ok L"
  shows "stage_ok (run_output L E)"
proof (rule stage_okI)
  fix D go D'
  assume st: "run_output L E D = Inr (go, D')"
  show "keeps D D' \<and> (\<not> go \<longrightarrow> 0 < stops (new_calls D D'))"
  proof (cases "output_file (ds_opts D)")
    case (Some f)
    obtain flags D1 where p: "parse_output_flags D = (flags, D1)" by fastforce
    with st Some obtain rc t D2 where
      o: "dd_open_file L E f flags (output_offset (ds_opts D)) False (ds_output D1) D1 = Inr (rc, t, D2)"
      and e: "(if rc < 0 then leave (- s_errno E) (D2\<lparr>ds_output := t\<rparr>) else go_on (D2\<lparr>ds_output := t\<rparr>)) = Inr (go, D')"
      by (auto simp: run_output_def Let_def)
    have "keeps D D2"
      using parse_output_flags_effect [OF p] open_file_effect [OF o assms] keeps_trans by blast
    with ends_ok [OF e] show ?thesis by simp
  next
    case None
    show ?thesis
    proof (cases "output_bdev (ds_opts D)")
      case (Some b)
      with st None obtain rc t D2 where
        o: "dd_open_bdev L E b (output_offset (ds_opts D)) (ds_output D) D = Inr (rc, t, D2)"
        and e: "D' = D2\<lparr>ds_output := t\<rparr> \<and> go \<or> (\<exists>rc. leave rc (D2\<lparr>ds_output := t\<rparr>) = Inr (go, D'))"
        by (auto simp: run_output_def Let_def go_on_ok split: if_splits)
      have k: "keeps D (D2\<lparr>ds_output := t\<rparr>)"
        using open_bdev_effect [OF o assms] by simp
      with e leave_ok [OF _ k] show ?thesis by auto
    qed (use st None in \<open>simp add: run_output_def go_on_ok\<close>)
  qed
qed

lemma run_block_sizes_ok: "stage_ok run_block_sizes"
proof (rule stage_okI)
  fix D go D'
  assume "run_block_sizes D = Inr (go, D')"
  with leave_ok [of _ D go D' D] show "keeps D D' \<and> (\<not> go \<longrightarrow> 0 < stops (new_calls D D'))"
    by (auto simp: run_block_sizes_def Let_def go_on_ok split: if_splits)
qed

lemma run_units_ok: "stage_ok (run_units E)"
proof (rule stage_okI)
  fix D go D'
  assume st: "run_units E D = Inr (go, D')"
  obtain ok bs where a: "alloc_units E 0 (unat (queue_depth (ds_opts D))) = (ok, bs)" by fastforce
  let ?D1 = "D\<lparr>ds_bufs := Some bs, ds_ios := map (new_io (word_of_int (io_unit_size (ds_opts D)))) bs\<rparr>"
  show "keeps D D' \<and> (\<not> go \<longrightarrow> 0 < stops (new_calls D D'))"
    using st a leave_ok [of _ D go D' D] leave_ok [of _ ?D1 go D' D]
    by (auto simp: run_units_def Let_def go_on_ok split: if_splits)
qed

text \<open>The ring: the flags may cut the flag strings, the file targets get their indices.\<close>

definition same_target :: "dd_target \<Rightarrow> dd_target \<Rightarrow> bool" where
  "same_target t t' \<longleftrightarrow> t'\<lparr>tg_idx := 0\<rparr> = t\<lparr>tg_idx := 0\<rparr>"

lemma same_target_idx [simp]: "same_target t (t'\<lparr>tg_idx := i\<rparr>) = same_target t t'" "same_target t t"
  by (simp_all add: same_target_def)

lemma same_target_fields:
  assumes "same_target t t'"
  shows "tg_pos t' = tg_pos t" "tg_total_size t' = tg_total_size t" "tg_block_size t' = tg_block_size t"
    "tg_type t' = tg_type t"
proof -
  have "tg_pos (t'\<lparr>tg_idx := 0\<rparr>) = tg_pos (t\<lparr>tg_idx := 0\<rparr>)"
    "tg_total_size (t'\<lparr>tg_idx := 0\<rparr>) = tg_total_size (t\<lparr>tg_idx := 0\<rparr>)"
    "tg_block_size (t'\<lparr>tg_idx := 0\<rparr>) = tg_block_size (t\<lparr>tg_idx := 0\<rparr>)"
    "tg_type (t'\<lparr>tg_idx := 0\<rparr>) = tg_type (t\<lparr>tg_idx := 0\<rparr>)"
    using assms by (simp_all only: same_target_def)
  then show "tg_pos t' = tg_pos t" "tg_total_size t' = tg_total_size t" "tg_block_size t' = tg_block_size t"
    "tg_type t' = tg_type t" by simp_all
qed

definition same_job :: "dd_job \<Rightarrow> dd_job \<Rightarrow> bool" where
  "same_job D X \<longleftrightarrow> keeps D X \<and> queue_depth (ds_opts X) = queue_depth (ds_opts D) \<and>
     same_target (ds_input D) (ds_input X) \<and> same_target (ds_output D) (ds_output X) \<and>
     ds_copy_size X = ds_copy_size D \<and> ds_ios X = ds_ios D \<and> ds_bufs X = ds_bufs D"

lemma same_job_refl [simp]: "same_job D D"
  by (simp add: same_job_def)

lemma same_job_emit: "same_job D X \<Longrightarrow> submitted cs = [] \<Longrightarrow> same_job D (emit cs X)"
  using keeps_trans [OF _ keeps_emit] by (simp add: same_job_def)

lemma same_job_updates [simp]:
  "same_job D (X\<lparr>ds_ring_active := b\<rparr>) = same_job D X"
  "same_job D (X\<lparr>ds_input := (ds_input X)\<lparr>tg_idx := i\<rparr>\<rparr>) = same_job D X"
  "same_job D (X\<lparr>ds_output := (ds_output X)\<lparr>tg_idx := i\<rparr>\<rparr>) = same_job D X"
  by (simp_all add: same_job_def)

lemma parse_both_same:
  assumes "parse_input_flags D = (f1, Da)" and "parse_output_flags Da = (f2, Db)"
  shows "same_job D Db"
  using parse_input_flags_effect [OF assms(1)] parse_output_flags_effect [OF assms(2)] keeps_trans [of D Da Db]
  by (simp add: same_job_def only_opts_def)

lemma register_files_same:
  assumes "dd_register_files E X = (rc, D')" and "same_job D X"
  shows "same_job D D'"
  using assms
  by (auto simp: dd_register_files_def Let_def split: if_splits prod.splits intro!: same_job_emit)
    (auto simp: same_job_def)

lemma uring_parts:
  assumes "run_uring E D = Inr (go, D')"
  shows "\<exists>X. same_job D X \<and> (go_on X = Inr (go, D') \<or> (\<exists>rc. leave rc X = Inr (go, D')))"
proof -
  obtain f1 Da where a: "parse_input_flags D = (f1, Da)" by fastforce
  obtain f2 Db where b: "parse_output_flags Da = (f2, Db)" by fastforce
  define Dc where "Dc = emit [Dd_register_io_poller] Db"
  obtain called rc Dd where i: "dd_uring_init E (if f1 AND f2 AND O_DIRECT \<noteq> 0 \<and> dd_is_blk E (tg_fd (ds_input Db)) \<and>
      dd_is_blk E (tg_fd (ds_output Db)) then IORING_SETUP_IOPOLL else IORING_SETUP_SQPOLL) Dc = ((called, rc), Dd)"
    by (metis surj_pair)
  obtain rc1 De where f: "dd_register_files E (Dd\<lparr>ds_ring_active := True\<rparr>) = (rc1, De)" by fastforce
  obtain rc2 Df where g: "dd_register_buffers E De = (rc2, Df)" by fastforce
  have d: "same_job D Dd"
    using i same_job_emit [OF parse_both_same [OF a b]]
    by (auto simp: dd_uring_init_def Dc_def same_job_emit split: if_splits)
  then have e: "same_job D De"
    using register_files_same [OF f] by simp
  then have "same_job D Df"
    using g by (auto simp: dd_register_buffers_def same_job_emit split: if_splits)
  moreover have "leave rc Dd = Inr (go, D') \<or> leave rc1 De = Inr (go, D') \<or> leave rc2 Df = Inr (go, D') \<or>
      go_on Df = Inr (go, D')"
    using assms a b i f g by (auto simp: run_uring_def Let_def Dc_def [symmetric] split: if_splits)
  ultimately show ?thesis
    using d e by blast
qed

lemma run_backend_parts:
  assumes "run_backend E D = Inr (go, D')"
  shows "\<exists>X. same_job D X \<and> (go_on X = Inr (go, D') \<or> (\<exists>rc. leave rc X = Inr (go, D')))"
proof (cases "run_uring E D = Inr (go, D')")
  case True
  then show ?thesis by (rule uring_parts)
next
  case False
  with assms have "go" "same_job D D'"
    by (auto simp: run_backend_def go_on_ok same_job_emit split: if_splits)
  then show ?thesis
    by (auto simp: go_on_ok)
qed

lemma run_backend_ok: "stage_ok (run_backend E)"
proof (rule stage_okI)
  fix D go D'
  assume "run_backend E D = Inr (go, D')"
  from run_backend_parts [OF this] obtain X where
    "keeps D X" "go_on X = Inr (go, D') \<or> (\<exists>rc. leave rc X = Inr (go, D'))"
    by (auto simp: same_job_def)
  with leave_ok [of _ X go D' D] show "keeps D D' \<and> (\<not> go \<longrightarrow> 0 < stops (new_calls D D'))"
    by (auto simp: go_on_ok)
qed

lemma run_prepare_ok: "stage_ok (run_prepare E)"
proof (rule stage_okI)
  fix D go D'
  assume "run_prepare E D = Inr (go, D')"
  then have "go" "D' = emit [Dd_register_status_poller] (D\<lparr>ds_start_time := s_now E, ds_seek_queue := []\<rparr>)"
    by (simp_all add: run_prepare_def go_on_ok)
  then show "keeps D D' \<and> (\<not> go \<longrightarrow> 0 < stops (new_calls D D'))"
    by (simp add: keeps_def)
qed

lemma dd_setup_ok:
  assumes "dd_lib_ok L"
  shows "stage_ok (dd_setup L E)"
  unfolding dd_setup_def
  by (intro then_stage_ok run_input_ok run_check_input_ok run_output_ok run_block_sizes_ok run_units_ok
      run_backend_ok run_prepare_ok assms)

section \<open>A setup that succeeds\<close>

lemma then_stage_True:
  "then_stage f g D = Inr (True, D') \<longleftrightarrow> (\<exists>D1. f D = Inr (True, D1) \<and> g D1 = Inr (True, D'))"
  by (auto simp: then_stage_def split: if_splits)

lemma leave_not_True [simp]: "leave rc X \<noteq> Inr (True, D')"
  by (simp add: leave_def)

lemma check_input_True:
  assumes "run_check_input D = Inr (True, D')"
  obtains w where "write_size D = Inr w" "ds_opts D' = ds_opts D"
    "ds_input D' = (ds_input D)\<lparr>tg_pos := read_region_start D\<rparr>"
    "ds_output D' = (ds_output D)\<lparr>tg_pos := write_region_start D\<rparr>"
    "ds_copy_size D' = (if io_unit_count (ds_opts D) \<noteq> 0 then w else tg_total_size (ds_input D) - read_region_start D)"
    "input_bdev (ds_opts D) \<noteq> None \<longrightarrow> read_region_start D \<le> tg_total_size (ds_input D) \<and>
       (io_unit_count (ds_opts D) \<noteq> 0 \<longrightarrow> w + read_region_start D \<le> tg_total_size (ds_input D))"
  using assms
  by (auto simp: run_check_input_def Let_def go_on_ok write_region_start_def not_less split: if_splits)

lemma run_output_True:
  assumes "run_output L E D = Inr (True, D')" and "dd_lib_ok L"
    and "(output_file (ds_opts D) = None) \<noteq> (output_bdev (ds_opts D) = None)"
  shows "ds_input D' = ds_input D \<and> ds_copy_size D' = ds_copy_size D \<and> tg_pos (ds_output D') = tg_pos (ds_output D) \<and>
    depth_ok (ds_opts D') \<and> (output_file (ds_opts D) \<noteq> None \<longrightarrow> tg_block_size (ds_output D') \<noteq> 0) \<and>
    (output_bdev (ds_opts D) \<noteq> None \<longrightarrow> tg_pos (ds_output D') \<le> tg_total_size (ds_output D') \<and>
       (io_unit_count (ds_opts D) \<noteq> 0 \<longrightarrow> (\<exists>w. write_size D = Inr w \<and>
          w + tg_pos (ds_output D') \<le> tg_total_size (ds_output D'))))"
proof (cases "output_file (ds_opts D)")
  case (Some f)
  obtain flags D1 where p: "parse_output_flags D = (flags, D1)" by fastforce
  with assms(1) Some obtain rc t D2 where
    o: "dd_open_file L E f flags (output_offset (ds_opts D)) False (ds_output D1) D1 = Inr (rc, t, D2)"
    and D': "0 \<le> rc" "D' = D2\<lparr>ds_output := t\<rparr>"
    by (auto simp: run_output_def Let_def go_on_ok split: if_splits)
  with parse_output_flags_effect [OF p] open_file_effect [OF o assms(2)] Some assms(3) show ?thesis
    by (auto simp: only_opts_def)
next
  case None
  then obtain b where b: "output_bdev (ds_opts D) = Some b"
    using assms(3) by auto
  with assms(1) None obtain rc t D2 w where
    o: "dd_open_bdev L E b (output_offset (ds_opts D)) (ds_output D) D = Inr (rc, t, D2)"
    and D': "0 \<le> rc" "D' = D2\<lparr>ds_output := t\<rparr>" "tg_pos t \<le> tg_total_size t" "write_size (D2\<lparr>ds_output := t\<rparr>) = Inr w"
      "io_unit_count (ds_opts D2) \<noteq> 0 \<longrightarrow> w + tg_pos t \<le> tg_total_size t"
    by (auto simp: run_output_def Let_def go_on_ok not_less split: if_splits)
  note e = open_bdev_effect [OF o assms(2)]
  have "request (ds_opts D2) = request (ds_opts D)"
    using e by (simp add: keeps_def)
  note rf = request_fields [OF this]
  have "write_size D = Inr w"
    using D'(4) rf by (simp add: write_size_def)
  with e D' None b rf show ?thesis
    by (auto simp: only_opts_def)
qed

lemma alloc_units_True:
  "alloc_units E i k = (True, bs) \<Longrightarrow> length bs = k \<and> None \<notin> set bs"
  by (induction E i k arbitrary: bs rule: alloc_units.induct) (auto split: option.splits prod.splits)

lemma run_units_True:
  assumes "run_units E D = Inr (True, D')"
  shows "ds_opts D' = ds_opts D \<and> ds_input D' = ds_input D \<and> ds_output D' = ds_output D \<and>
    ds_copy_size D' = ds_copy_size D \<and> length (ds_ios D') = unat (queue_depth (ds_opts D)) \<and>
    (\<forall>io \<in> set (ds_ios D'). dio_length io = word_of_int (io_unit_size (ds_opts D)))"
proof -
  obtain ok bs where a: "alloc_units E 0 (unat (queue_depth (ds_opts D))) = (ok, bs)" by fastforce
  with assms have "ok" and
    D': "D' = D\<lparr>ds_bufs := Some bs, ds_ios := map (new_io (word_of_int (io_unit_size (ds_opts D)))) bs\<rparr>"
    by (auto simp: run_units_def Let_def go_on_ok split: if_splits)
  with a alloc_units_True [of E 0 _ bs] have "length bs = unat (queue_depth (ds_opts D))" "None \<notin> set bs"
    by auto
  then show ?thesis
    unfolding D' by (auto simp: new_io_def)
qed

lemma run_block_sizes_True:
  assumes "run_block_sizes D = Inr (True, D')"
  shows "D' = D \<and> uint (tg_block_size (ds_output D)) \<le> io_unit_size (ds_opts D) \<and>
    uint (tg_block_size (ds_input D)) \<le> io_unit_size (ds_opts D) \<and>
    (input_bdev (ds_opts D) \<noteq> None \<longrightarrow> tg_block_size (ds_input D) \<noteq> 0 \<and>
       uint (tg_block_size (ds_input D)) dvd io_unit_size (ds_opts D))"
  using assms
  by (auto simp: run_block_sizes_def Let_def go_on_ok not_less split: if_splits)

lemma run_backend_True:
  assumes "run_backend E D = Inr (True, D')"
  shows "same_job D D'"
  using run_backend_parts [OF assms] by (auto simp: go_on_ok)

text \<open>What \<open>main\<close> lets through.\<close>

lemma main_check_0:
  assumes "main_check opts = 0"
  shows "(input_file opts = None) \<noteq> (input_bdev opts = None)" "(output_file opts = None) \<noteq> (output_bdev opts = None)"
    "0 < io_unit_size opts" "0 \<le> io_unit_count opts"
    "input_file_flags opts \<noteq> None \<longrightarrow> input_file opts \<noteq> None"
    "output_file_flags opts \<noteq> None \<longrightarrow> output_file opts \<noteq> None"
  using assms by (auto simp: main_check_def split: if_splits)

text \<open>What a setup that goes on has prepared.\<close>

definition prepared :: "spdk_dd_opts \<Rightarrow> dd_job \<Rightarrow> bool" where
  "prepared opts D \<longleftrightarrow>
     ds_outstanding D = 0 \<and> ds_error D = 0 \<and> \<not> ds_interrupt D \<and> submitted (ds_calls D) = [] \<and>
     length (ds_ios D) = unat (queue_depth (ds_opts D)) \<and>
     (\<forall>io \<in> set (ds_ios D). dio_length io = word_of_int (io_unit_size opts)) \<and>
     queue_depth (ds_opts D) \<le> queue_depth opts \<and> depth_ok (ds_opts D) \<and>
     tg_pos (ds_input D) = read_region_start D \<and> tg_pos (ds_output D) = write_region_start D \<and>
     uint (tg_block_size (ds_input D)) \<le> io_unit_size opts \<and> uint (tg_block_size (ds_output D)) \<le> io_unit_size opts \<and>
     (\<exists>w. write_size D = Inr w \<and>
        ds_copy_size D = (if io_unit_count opts \<noteq> 0 then w else tg_total_size (ds_input D) - tg_pos (ds_input D)) \<and>
        (input_bdev opts \<noteq> None \<longrightarrow> tg_block_size (ds_input D) \<noteq> 0 \<and> tg_pos (ds_input D) \<le> tg_total_size (ds_input D) \<and>
           (io_unit_count opts \<noteq> 0 \<longrightarrow> w + tg_pos (ds_input D) \<le> tg_total_size (ds_input D))) \<and>
        (output_bdev opts \<noteq> None \<longrightarrow> tg_pos (ds_output D) \<le> tg_total_size (ds_output D) \<and>
           (io_unit_count opts \<noteq> 0 \<longrightarrow> w + tg_pos (ds_output D) \<le> tg_total_size (ds_output D))) \<and>
        (output_file opts \<noteq> None \<longrightarrow> tg_block_size (ds_output D) \<noteq> 0))"

lemma request_region:
  assumes "request (ds_opts D') = request (ds_opts D)"
  shows "read_region_start D' = read_region_start D" "write_region_start D' = write_region_start D"
    "write_size D' = write_size D"
  using request_fields [OF assms] by (simp_all add: read_region_start_def write_region_start_def write_size_def)

lemma keeps_request: "keeps D D' \<Longrightarrow> request (ds_opts D') = request (ds_opts D)"
  by (simp add: keeps_def)

text \<open>The targets and the region, after the output is open.\<close>

definition region_set :: "spdk_dd_opts \<Rightarrow> dd_job \<Rightarrow> bool" where
  "region_set opts D \<longleftrightarrow>
     tg_pos (ds_input D) = read_region_start D \<and> tg_pos (ds_output D) = write_region_start D \<and> depth_ok (ds_opts D) \<and>
     (\<exists>w. write_size D = Inr w \<and>
        ds_copy_size D = (if io_unit_count opts \<noteq> 0 then w else tg_total_size (ds_input D) - tg_pos (ds_input D)) \<and>
        (input_bdev opts \<noteq> None \<longrightarrow> tg_pos (ds_input D) \<le> tg_total_size (ds_input D) \<and>
           (io_unit_count opts \<noteq> 0 \<longrightarrow> w + tg_pos (ds_input D) \<le> tg_total_size (ds_input D))) \<and>
        (output_bdev opts \<noteq> None \<longrightarrow> tg_pos (ds_output D) \<le> tg_total_size (ds_output D) \<and>
           (io_unit_count opts \<noteq> 0 \<longrightarrow> w + tg_pos (ds_output D) \<le> tg_total_size (ds_output D))) \<and>
        (output_file opts \<noteq> None \<longrightarrow> tg_block_size (ds_output D) \<noteq> 0))"

lemma open_stages:
  assumes "dd_lib_ok L" and "main_check opts = 0" and "request (ds_opts D1) = request opts"
    and "run_check_input D1 = Inr (True, D2)" and "run_output L E D2 = Inr (True, D3)"
  shows "region_set opts D3"
proof -
  have req: "request (ds_opts D2) = request opts" "request (ds_opts D3) = request opts"
    using keeps_request [OF stage_okD(1) [OF run_check_input_ok assms(4)]]
      keeps_request [OF stage_okD(1) [OF run_output_ok [OF assms(1)] assms(5)]] assms(3) by simp_all
  note rf1 = request_fields [OF assms(3)] and rf2 = request_fields [OF req(1)]
  have rs: "read_region_start D1 = read_region_start D3" "write_region_start D1 = write_region_start D3"
    "write_size D1 = write_size D3" "write_size D2 = write_size D3"
    using request_region [of D1 D3] request_region [of D2 D3] req assms(3) by simp_all
  obtain w where c: "write_size D3 = Inr w"
    "ds_input D2 = (ds_input D1)\<lparr>tg_pos := read_region_start D3\<rparr>"
    "ds_output D2 = (ds_output D1)\<lparr>tg_pos := write_region_start D3\<rparr>"
    "ds_copy_size D2 = (if io_unit_count opts \<noteq> 0 then w else tg_total_size (ds_input D1) - read_region_start D3)"
    "input_bdev opts \<noteq> None \<longrightarrow> read_region_start D3 \<le> tg_total_size (ds_input D1) \<and>
       (io_unit_count opts \<noteq> 0 \<longrightarrow> w + read_region_start D3 \<le> tg_total_size (ds_input D1))"
    using check_input_True [OF assms(4), unfolded rs rf1] by blast
  note o = run_output_True [OF assms(5,1), unfolded rf2 rs, OF main_check_0(2) [OF assms(2)]]
  show ?thesis
    unfolding region_set_def using o c by (intro conjI exI [of _ w]) auto
qed

lemma back_stages:
  assumes "run_block_sizes D3 = Inr (True, D3')" and "run_units E D3' = Inr (True, D4)"
    and "run_backend E D4 = Inr (True, D5)" and "run_prepare E D5 = Inr (True, D)"
  shows "same_target (ds_input D3) (ds_input D)" and "same_target (ds_output D3) (ds_output D)"
    and "queue_depth (ds_opts D) = queue_depth (ds_opts D3)" and "ds_ios D = ds_ios D4"
    and "ds_copy_size D = ds_copy_size D3" and "request (ds_opts D) = request (ds_opts D3)"
proof -
  have D3: "D3' = D3"
    using run_block_sizes_True [OF assms(1)] by simp
  note u = run_units_True [OF assms(2), unfolded D3] and s = run_backend_True [OF assms(3), unfolded same_job_def]
  have p: "D = emit [Dd_register_status_poller] (D5\<lparr>ds_start_time := s_now E, ds_seek_queue := []\<rparr>)"
    using assms(4) by (simp add: run_prepare_def go_on_ok)
  show "same_target (ds_input D3) (ds_input D)" and "same_target (ds_output D3) (ds_output D)"
    and "queue_depth (ds_opts D) = queue_depth (ds_opts D3)" and "ds_ios D = ds_ios D4"
    and "ds_copy_size D = ds_copy_size D3" and "request (ds_opts D) = request (ds_opts D3)"
    using s u p keeps_request [of D4 D5] by simp_all
qed

lemma start_stages:
  assumes "run_block_sizes D3 = Inr (True, D3')" and "run_units E D3' = Inr (True, D4)"
    and "run_backend E D4 = Inr (True, D5)" and "run_prepare E D5 = Inr (True, D)"
    and "request (ds_opts D3) = request opts" and "region_set opts D3"
  shows "region_set opts D \<and> length (ds_ios D) = unat (queue_depth (ds_opts D)) \<and>
     (\<forall>io \<in> set (ds_ios D). dio_length io = word_of_int (io_unit_size opts)) \<and>
     uint (tg_block_size (ds_input D)) \<le> io_unit_size opts \<and> uint (tg_block_size (ds_output D)) \<le> io_unit_size opts \<and>
     (input_bdev opts \<noteq> None \<longrightarrow> tg_block_size (ds_input D) \<noteq> 0)"
proof -
  note rf = request_fields [OF assms(5)] and q = back_stages [OF assms(1-4)]
  note b = run_block_sizes_True [OF assms(1), unfolded rf] and u = run_units_True [OF assms(2)]
  note ti = same_target_fields [OF q(1)] and to = same_target_fields [OF q(2)]
  have dk: "depth_ok (ds_opts D) = depth_ok (ds_opts D3)"
    using q(3) request_fields(8) [OF q(6)] by (simp add: depth_ok_def)
  have "region_set opts D"
    using assms(6) unfolding region_set_def dk ti to q(5) request_region [OF q(6)] .
  with b u q(3,4) ti to rf show ?thesis by simp
qed

text \<open>The stages of a setup that goes on, and the request along them.\<close>

lemma setup_stages:
  assumes "dd_lib_ok L" and "dd_setup L E (g_job opts) = Inr (True, D)"
  shows "\<exists>D1 D2 D3 D3' D4 D5. run_input L E (g_job opts) = Inr (True, D1) \<and> run_check_input D1 = Inr (True, D2) \<and>
    run_output L E D2 = Inr (True, D3) \<and> run_block_sizes D3 = Inr (True, D3') \<and> run_units E D3' = Inr (True, D4) \<and>
    run_backend E D4 = Inr (True, D5) \<and> run_prepare E D5 = Inr (True, D) \<and>
    request (ds_opts D1) = request opts \<and> request (ds_opts D2) = request opts \<and> request (ds_opts D3) = request opts"
proof -
  from assms(2) obtain D1 D2 D3 D3' D4 D5 where
    st: "run_input L E (g_job opts) = Inr (True, D1)" "run_check_input D1 = Inr (True, D2)"
    "run_output L E D2 = Inr (True, D3)" "run_block_sizes D3 = Inr (True, D3')" "run_units E D3' = Inr (True, D4)"
    "run_backend E D4 = Inr (True, D5)" "run_prepare E D5 = Inr (True, D)"
    by (auto simp: dd_setup_def then_stage_True)
  have "request (ds_opts D1) = request opts" "request (ds_opts D2) = request (ds_opts D1)"
    "request (ds_opts D3) = request (ds_opts D2)"
    using keeps_request [OF stage_okD(1) [OF run_input_ok [OF assms(1)] st(1)]]
      keeps_request [OF stage_okD(1) [OF run_check_input_ok st(2)]]
      keeps_request [OF stage_okD(1) [OF run_output_ok [OF assms(1)] st(3)]]
    by (simp_all add: g_job_def)
  with st show ?thesis
    by (intro exI [of _ D1] exI [of _ D2] exI [of _ D3] exI [of _ D3'] exI [of _ D4] exI [of _ D5]) simp
qed

lemma setup_prepared:
  assumes "dd_lib_ok L" and "main_check opts = 0" and "dd_setup L E (g_job opts) = Inr (True, D)"
  shows "request (ds_opts D) = request opts \<and> prepared opts D"
proof -
  from setup_stages [OF assms(1,3)] obtain D1 D2 D3 D3' D4 D5 where
    st: "run_check_input D1 = Inr (True, D2)" "run_output L E D2 = Inr (True, D3)"
    "run_block_sizes D3 = Inr (True, D3')" "run_units E D3' = Inr (True, D4)"
    "run_backend E D4 = Inr (True, D5)" "run_prepare E D5 = Inr (True, D)"
    and req: "request (ds_opts D1) = request opts" "request (ds_opts D3) = request opts"
    by blast
  have keep: "keeps (g_job opts) D"
    using stage_okD(1) [OF dd_setup_ok [OF assms(1)] assms(3)] .
  have "region_set opts D3"
    using open_stages [OF assms(1,2) req(1) st(1,2)] .
  note s = start_stages [OF st(3-6) req(2) this]
  have "ds_outstanding D = 0" "ds_error D = 0" "\<not> ds_interrupt D" "submitted (ds_calls D) = []"
    "queue_depth (ds_opts D) \<le> queue_depth opts" "request (ds_opts D) = request opts"
    using keep main_check_0(4) [OF assms(2)] by (auto simp: keeps_def g_job_def)
  with s show ?thesis
    unfolding prepared_def region_set_def by blast
qed

lemma write_size_bound:
  assumes "write_size D = Inr w" and "0 \<le> io_unit_count (ds_opts D)" and "0 < io_unit_size (ds_opts D)"
  shows "unat w = nat (io_unit_count (ds_opts D) * io_unit_size (ds_opts D))" and "unat w < 2 ^ 63"
    and "io_unit_count (ds_opts D) * io_unit_size (ds_opts D) < 2 ^ 63"
proof -
  let ?p = "io_unit_count (ds_opts D) * io_unit_size (ds_opts D)"
  have p: "0 \<le> ?p" "?p < 2 ^ 63" and w: "w = word_of_int ?p"
    using assms by (auto simp: write_size_def c_mul64_def split: if_splits)
  have "uint (word_of_int z :: u64) = z" if "0 \<le> z" "z < 2 ^ 63" for z :: int
    using that by (simp add: unsigned_of_int take_bit_int_eq_self)
  with p w have "uint w = ?p" by metis
  then have u: "int (unat w) = ?p"
    by simp
  then show "unat w = nat ?p"
    by linarith
  have "int (unat w) < int (2 ^ 63)"
    using u p(2) by simp
  then show "unat w < 2 ^ 63"
    by (simp only: of_nat_less_iff)
  show "?p < 2 ^ 63"
    by (rule p(2))
qed

lemma sum_inside:
  assumes "w + p \<le> (n :: u64)" and "p \<le> n" and "unat w < 2 ^ 63" and "unat n < 2 ^ 63"
  shows "unat p + unat w \<le> unat n"
proof -
  have "unat p < 2 ^ 63"
    using assms(2,4) by (simp add: word_le_nat_alt)
  then have "unat (w + p) = unat w + unat p"
    using assms(3) by (intro unat_add_exact) simp
  with assms(1) show ?thesis
    by (simp add: word_le_nat_alt)
qed

lemma input_inside:
  assumes "prepared opts D" and "request (ds_opts D) = request opts" and "main_check opts = 0"
    and "input_bdev opts \<noteq> None" and "unat (tg_total_size (ds_input D)) < 2 ^ 63"
  shows "unat (read_region_start D) + unat (ds_copy_size D) \<le> unat (tg_total_size (ds_input D))"
proof -
  let ?i = "ds_input D"
  note rf = request_fields [OF assms(2)] and mc = main_check_0 [OF assms(3)]
  from assms(1,4) obtain w where w: "write_size D = Inr w"
    "ds_copy_size D = (if io_unit_count opts \<noteq> 0 then w else tg_total_size ?i - tg_pos ?i)"
    "tg_pos ?i \<le> tg_total_size ?i" "io_unit_count opts \<noteq> 0 \<longrightarrow> w + tg_pos ?i \<le> tg_total_size ?i"
    and pos: "tg_pos ?i = read_region_start D"
    unfolding prepared_def by blast
  have "unat w < 2 ^ 63"
    using write_size_bound(2) [OF w(1), unfolded rf, OF mc(4,3)] .
  from sum_inside [OF _ w(3) this assms(5)] w pos show ?thesis
    by (simp add: unat_sub word_le_nat_alt)
qed

text \<open>
  C9. The setup of the copy tool. When the command line has passed the checks of \<open>main\<close> and every stage of
  the setup goes on, the job is about the request as given: nothing has been submitted and nothing is
  outstanding; there is one unit per level of the queue depth, each with the length of an I/O unit; the
  depth is at most what was asked for and at most the count; both positions are at the start of their
  regions; no block is larger than a unit; the product of count and unit size did not overflow and is
  the size to copy, which without a count is what follows the position in the input.
\<close>

theorem dd_setup_prepares:
  assumes "dd_lib_ok L" and "main_check opts = 0" and "dd_setup L E (g_job opts) = Inr (True, D)"
  shows "request (ds_opts D) = request opts \<and> submitted (ds_calls D) = [] \<and> ds_outstanding D = 0 \<and> ds_error D = 0 \<and>
    length (ds_ios D) = unat (queue_depth (ds_opts D)) \<and>
    (\<forall>io \<in> set (ds_ios D). dio_length io = word_of_int (io_unit_size opts)) \<and>
    queue_depth (ds_opts D) \<le> queue_depth opts \<and>
    (io_unit_count opts \<noteq> 0 \<longrightarrow> uint (queue_depth (ds_opts D)) \<le> io_unit_count opts) \<and>
    tg_pos (ds_input D) = input_offset opts * word_of_int (io_unit_size opts) \<and>
    tg_pos (ds_output D) = output_offset opts * word_of_int (io_unit_size opts) \<and>
    uint (tg_block_size (ds_input D)) \<le> io_unit_size opts \<and> uint (tg_block_size (ds_output D)) \<le> io_unit_size opts \<and>
    io_unit_count opts * io_unit_size opts < 2 ^ 63 \<and>
    (io_unit_count opts \<noteq> 0 \<longrightarrow> unat (ds_copy_size D) = nat (io_unit_count opts * io_unit_size opts)) \<and>
    (io_unit_count opts = 0 \<longrightarrow> ds_copy_size D = tg_total_size (ds_input D) - tg_pos (ds_input D))"
proof -
  have p: "prepared opts D" and req: "request (ds_opts D) = request opts"
    using setup_prepared [OF assms] by blast+
  note rf = request_fields [OF req] and mc = main_check_0 [OF assms(2)]
  from p obtain w where w: "write_size D = Inr w"
    "ds_copy_size D = (if io_unit_count opts \<noteq> 0 then w else tg_total_size (ds_input D) - tg_pos (ds_input D))"
    unfolding prepared_def by blast
  note wb = write_size_bound [OF w(1), unfolded rf, OF mc(4,3)]
  have depth: "io_unit_count opts \<noteq> 0 \<longrightarrow> uint (queue_depth (ds_opts D)) \<le> io_unit_count opts"
    using p mc(4) by (simp add: prepared_def depth_ok_def rf)
  have pos: "tg_pos (ds_input D) = input_offset opts * word_of_int (io_unit_size opts)"
    "tg_pos (ds_output D) = output_offset opts * word_of_int (io_unit_size opts)"
    using p by (simp_all add: prepared_def read_region_start_def write_region_start_def rf)
  have "ds_outstanding D = 0" "ds_error D = 0" "submitted (ds_calls D) = []"
    "length (ds_ios D) = unat (queue_depth (ds_opts D))"
    "\<forall>io \<in> set (ds_ios D). dio_length io = word_of_int (io_unit_size opts)"
    "queue_depth (ds_opts D) \<le> queue_depth opts" "uint (tg_block_size (ds_input D)) \<le> io_unit_size opts"
    "uint (tg_block_size (ds_output D)) \<le> io_unit_size opts"
    using p unfolding prepared_def by blast+
  with req depth pos w(2) wb show ?thesis by simp
qed

text \<open>
  C21. The regions lie inside the devices. For devices of less than 2 ^ 63 bytes, after a setup that goes
  on: the region read from an input block device ends inside it; with a count, the region written to an
  output block device ends inside it too.
\<close>

theorem dd_region_inside:
  assumes "dd_lib_ok L" and "main_check opts = 0" and "dd_setup L E (g_job opts) = Inr (True, D)"
    and "unat (tg_total_size (ds_input D)) < 2 ^ 63" and "unat (tg_total_size (ds_output D)) < 2 ^ 63"
  shows "(input_bdev opts \<noteq> None \<longrightarrow>
      unat (read_region_start D) + unat (ds_copy_size D) \<le> unat (tg_total_size (ds_input D))) \<and>
    (output_bdev opts \<noteq> None \<and> io_unit_count opts \<noteq> 0 \<longrightarrow>
      unat (write_region_start D) + unat (ds_copy_size D) \<le> unat (tg_total_size (ds_output D)))"
proof -
  have p: "prepared opts D" and req: "request (ds_opts D) = request opts"
    using setup_prepared [OF assms(1-3)] by blast+
  note rf = request_fields [OF req] and mc = main_check_0 [OF assms(2)]
  let ?o = "ds_output D"
  from p obtain w where w: "write_size D = Inr w" "io_unit_count opts \<noteq> 0 \<longrightarrow> ds_copy_size D = w"
    "output_bdev opts \<noteq> None \<longrightarrow> tg_pos ?o \<le> tg_total_size ?o \<and>
       (io_unit_count opts \<noteq> 0 \<longrightarrow> w + tg_pos ?o \<le> tg_total_size ?o)"
    and pos: "tg_pos ?o = write_region_start D"
    unfolding prepared_def by auto
  have "unat w < 2 ^ 63"
    using write_size_bound(2) [OF w(1), unfolded rf, OF mc(4,3)] .
  then have "unat (write_region_start D) + unat (ds_copy_size D) \<le> unat (tg_total_size ?o)"
    if "output_bdev opts \<noteq> None" "io_unit_count opts \<noteq> 0"
    using that w(2,3) pos sum_inside [OF _ _ _ assms(5), of w "tg_pos ?o"] by simp
  with input_inside [OF p req assms(2) _ assms(4)] show ?thesis by blast
qed

text \<open>
  C22. A setup that fails leaves the application. When \<open>dd_run\<close> returns before it starts the copy, on any
  of its checks or failed calls, it has stopped the application, and it has submitted no request.
\<close>

theorem dd_run_early_return:
  assumes "dd_lib_ok L" and "dd_run L E (g_job opts) = Inr (False, D)"
  shows "0 < stops (ds_calls D) \<and> submitted (ds_calls D) = []"
proof -
  have "dd_setup L E (g_job opts) = Inr (False, D)"
    using assms(2) by (auto simp: dd_run_def then_stage_def go_on_ok split: if_splits)
  note s = stage_okD [OF dd_setup_ok [OF assms(1)] this]
  have "ds_calls D = new_calls (g_job opts) D"
    using keeps_new [OF s(1)] by (simp add: g_job_def)
  with s show ?thesis
    by (auto simp: keeps_def g_job_def)
qed

section \<open>A concrete setup\<close>

definition demo_setup_env :: dd_setup_env where
  "demo_setup_env = \<lparr>s_open = (\<lambda>_ _. - 1), s_errno = 2, s_blocklen = (\<lambda>_. 0), s_size = (\<lambda>_. 0),
     s_bdev_open = (\<lambda>name. (0, if name = ''in'' then 1 else 2)), s_channel = Some, s_block_size = (\<lambda>_. 512),
     s_num_blocks = (\<lambda>_. 1), s_fstat = (\<lambda>_. None), s_calloc = True, s_malloc = Some, s_ring_init = (True, 0),
     s_register_files = 0, s_calloc_iovs = True, s_register_buffers = 0, s_now = (0, 0), s_envs = (\<lambda>_. demo_env)\<rparr>"

definition demo_set_up :: dd_job where
  "demo_set_up = snd (projr (dd_setup demo_lib demo_setup_env (g_job demo_copy_opts)))"

lemma demo_setup: "dd_setup demo_lib demo_setup_env (g_job demo_copy_opts) = Inr (True, demo_set_up)"
  by code_simp

lemma demo_main: "main_check demo_copy_opts = 0"
  by code_simp

theorem dd_setup_prepares_witness:
  "length (ds_ios demo_set_up) = unat (queue_depth (ds_opts demo_set_up)) \<and> ds_outstanding demo_set_up = 0"
  using dd_setup_prepares [OF demo_lib_ok demo_main demo_setup] by blast

theorem dd_region_inside_witness:
  "unat (read_region_start demo_set_up) + unat (ds_copy_size demo_set_up) \<le> unat (tg_total_size (ds_input demo_set_up))"
proof -
  have "unat (tg_total_size (ds_input demo_set_up)) = 512" "unat (tg_total_size (ds_output demo_set_up)) = 512"
    by code_simp+
  then have t: "unat (tg_total_size (ds_input demo_set_up)) < 2 ^ 63" "unat (tg_total_size (ds_output demo_set_up)) < 2 ^ 63"
    by simp_all
  have "input_bdev demo_copy_opts \<noteq> None"
    by (simp add: demo_copy_opts_def)
  with dd_region_inside [OF demo_lib_ok demo_main demo_setup t] show ?thesis by blast
qed

text \<open>No memory for the units.\<close>

definition demo_fails :: dd_job where
  "demo_fails = snd (projr (dd_run demo_lib (demo_setup_env\<lparr>s_calloc := False\<rparr>) (g_job demo_copy_opts)))"

lemma demo_run_fails:
  "dd_run demo_lib (demo_setup_env\<lparr>s_calloc := False\<rparr>) (g_job demo_copy_opts) = Inr (False, demo_fails)"
  by code_simp

theorem dd_run_early_return_witness: "0 < stops (ds_calls demo_fails) \<and> submitted (ds_calls demo_fails) = []"
  by (rule dd_run_early_return [OF demo_lib_ok demo_run_fails])

end
