(* ===== verification/Dd_Copy.thy ===== *)
theory Dd_Copy
  imports Dd_Run
begin

text \<open>
  What a run of the copy engine does to the data. The devices are modelled by what they promise: a request
  that was accepted is carried out in full, as one step, at some time before it completes. Under this
  promise the invariant of a run says which bytes each unit holds and which bytes of the output have been
  written; at the end the region of the output is the region of the input, and nothing else has changed.
\<close>

section \<open>Devices that keep their promise\<close>

text \<open>The last request for unit \<open>i\<close> that was accepted: its stage, its offset and its length.\<close>

fun first_request :: "nat \<Rightarrow> dd_call list \<Rightarrow> (dd_submit_type \<times> nat \<times> nat) option" where
  "first_request i [] = None"
| "first_request i (Dd_submit j ty be off len rc # cs) =
     (if j = i \<and> rc = 0 then Some (ty, unat off, unat len) else first_request i cs)"
| "first_request i (_ # cs) = first_request i cs"

definition last_request :: "nat \<Rightarrow> dd_call list \<Rightarrow> (dd_submit_type \<times> nat \<times> nat) option" where
  "last_request i cs = first_request i (rev cs)"

text \<open>The bytes of the output, and of the buffer of each unit; the input does not change.\<close>

record dd_data =
  dt_out :: buf
  dt_buf :: "nat \<Rightarrow> buf"

definition patch :: "nat \<Rightarrow> nat \<Rightarrow> buf \<Rightarrow> buf \<Rightarrow> buf" where
  "patch off len src old = (\<lambda>x. if off \<le> x \<and> x < off + len then src (x - off) else old x)"

definition carry_out :: "buf \<Rightarrow> nat \<Rightarrow> dd_call list \<Rightarrow> dd_data \<Rightarrow> dd_data" where
  "carry_out inp i cs M =
     (case last_request i cs of
        None \<Rightarrow> M
      | Some (ty, off, len) \<Rightarrow>
          (case ty of
             DD_READ \<Rightarrow>
               M\<lparr>dt_buf := (dt_buf M)(i := patch 0 len (\<lambda>k. inp (off + k)) (dt_buf M i))\<rparr>
           | DD_POPULATE \<Rightarrow>
               M\<lparr>dt_buf := (dt_buf M)(i := patch 0 len (\<lambda>k. dt_out M (off + k)) (dt_buf M i))\<rparr>
           | DD_WRITE \<Rightarrow> M\<lparr>dt_out := patch off len (dt_buf M i) (dt_out M)\<rparr>))"

text \<open>
  Runs with data. \<open>dn\<close> are the units whose request has been carried out and has not completed yet. A
  completion is the one of \<open>dd_step\<close>, for a unit in \<open>dn\<close>.
\<close>

inductive dd_io_step ::
  "dd_lib \<Rightarrow> buf \<Rightarrow> dd_job \<times> nat list \<times> nat set \<times> dd_data \<Rightarrow> dd_job \<times> nat list \<times> nat set \<times> dd_data \<Rightarrow> bool"
  for L inp where
  carried: "i \<in> set fl \<Longrightarrow> i \<notin> dn \<Longrightarrow>
    dd_io_step L inp (D, fl, dn, M) (D, fl, insert i dn, carry_out inp i (ds_calls D) M)"
| completed: "(dd_tick L)\<^sup>*\<^sup>* D D0 \<Longrightarrow> i \<in> set fl \<Longrightarrow> i \<in> dn \<Longrightarrow>
    dd_complete_poll L e i (note_error err D0) = Inr D' \<Longrightarrow>
    dd_io_step L inp (D, fl, dn, M) (D', remove1 i fl @ submitted (new_calls D D'), dn - {i}, M)"

section \<open>Geometry\<close>

definition in_lo :: "dd_job \<Rightarrow> nat" where
  "in_lo D = unat (read_region_start D)"

definition out_lo :: "dd_job \<Rightarrow> nat" where
  "out_lo D = unat (write_region_start D)"

definition region_len :: "dd_job \<Rightarrow> nat" where
  "region_len D = unat (ds_copy_size D)"

definition out_bs :: "dd_job \<Rightarrow> nat" where
  "out_bs D = unat (tg_block_size (ds_output D))"

definition unit_len :: "dd_job \<Rightarrow> nat" where
  "unit_len D = unat (word_of_int (io_unit_size (ds_opts D)) :: u64)"

definition in_pos :: "dd_job \<Rightarrow> nat" where
  "in_pos D = unat (tg_pos (ds_input D))"

text \<open>Where byte \<open>y\<close> of the input goes.\<close>

definition out_place :: "dd_job \<Rightarrow> nat \<Rightarrow> nat" where
  "out_place D y = out_lo D + (y - in_lo D)"

definition round_up :: "nat \<Rightarrow> nat \<Rightarrow> nat" where
  "round_up bs n = (n + bs - 1) div bs * bs"

text \<open>
  The regions and the padding of the last block lie inside the 64-bit address range, and units are whole
  output blocks of less than 4 GiB.
\<close>

definition region_ok :: "dd_job \<Rightarrow> bool" where
  "region_ok D \<longleftrightarrow> in_lo D + region_len D + 2 ^ 32 \<le> 2 ^ 64 \<and> out_lo D + region_len D + 2 ^ 32 \<le> 2 ^ 64 \<and>
     0 < out_bs D \<and> unit_len D mod out_bs D = 0 \<and> unit_len D < 2 ^ 32"

definition io_off :: "dd_io \<Rightarrow> nat" where
  "io_off io = unat (dio_offset io)"

definition io_len :: "dd_io \<Rightarrow> nat" where
  "io_len io = unat (dio_length io)"

definition covers :: "dd_io \<Rightarrow> nat \<Rightarrow> bool" where
  "covers io y \<longleftrightarrow> io_off io \<le> y \<and> y < io_off io + io_len io"

text \<open>The request that a unit has in flight, and the range it has claimed.\<close>

definition unit_request :: "dd_job \<Rightarrow> dd_io \<Rightarrow> dd_submit_type \<times> nat \<times> nat" where
  "unit_request D io =
     (if dio_type io = DD_READ then (DD_READ, io_off io, io_len io)
      else (dio_type io, out_place D (io_off io), round_up (out_bs D) (io_len io)))"

definition unit_ok :: "dd_job \<Rightarrow> dd_io \<Rightarrow> bool" where
  "unit_ok D io \<longleftrightarrow> in_lo D \<le> io_off io \<and> 0 < io_len io \<and> io_len io \<le> unit_len D \<and>
     io_off io + io_len io \<le> in_pos D \<and>
     (io_len io mod out_bs D = 0 \<or> io_off io + io_len io = in_lo D + region_len D)"

text \<open>
  The invariant of the claims, for the set \<open>F\<close> of the units in flight: the claimed ranges are disjoint parts
  of the region, and the last request of each unit is the one for its range and stage.
\<close>

definition geo_inv :: "dd_job \<Rightarrow> nat set \<Rightarrow> bool" where
  "geo_inv D F \<longleftrightarrow> region_ok D \<and> in_lo D \<le> in_pos D \<and> in_pos D \<le> in_lo D + region_len D \<and>
     (\<forall>i < length (ds_ios D). io_len (ds_ios D ! i) \<le> unit_len D \<and>
        (in_pos D \<noteq> in_lo D + region_len D \<longrightarrow>
           io_len (ds_ios D ! i) \<noteq> 0 \<and> io_len (ds_ios D ! i) mod out_bs D = 0)) \<and>
     (\<forall>i \<in> F. i < length (ds_ios D) \<and> unit_ok D (ds_ios D ! i) \<and>
        last_request i (ds_calls D) = Some (unit_request D (ds_ios D ! i))) \<and>
     (\<forall>i \<in> F. \<forall>j \<in> F. i \<noteq> j \<longrightarrow> (\<forall>y. \<not> (covers (ds_ios D ! i) y \<and> covers (ds_ios D ! j) y)))"

text \<open>
  The invariant of the data. The buffer of a unit holds the input's bytes of its range from the time its
  read has been carried out, and behind them what the output held there at first. A byte that has been
  claimed is in its place, unless a unit that has not been written yet covers it.
\<close>

definition tail_ok :: "buf \<Rightarrow> dd_job \<Rightarrow> dd_data \<Rightarrow> nat \<Rightarrow> bool" where
  "tail_ok out0 D M i \<longleftrightarrow> (let io = ds_ios D ! i in
     \<forall>k. io_len io \<le> k \<and> k < round_up (out_bs D) (io_len io) \<longrightarrow> dt_buf M i k = out0 (out_place D (io_off io) + k))"

definition head_ok :: "buf \<Rightarrow> dd_job \<Rightarrow> dd_data \<Rightarrow> nat \<Rightarrow> bool" where
  "head_ok inp D M i \<longleftrightarrow> (let io = ds_ios D ! i in \<forall>k < io_len io. dt_buf M i k = inp (io_off io + k))"

definition buffer_ok :: "buf \<Rightarrow> buf \<Rightarrow> dd_job \<Rightarrow> nat set \<Rightarrow> dd_data \<Rightarrow> nat \<Rightarrow> bool" where
  "buffer_ok inp out0 D dn M i \<longleftrightarrow>
     (case dio_type (ds_ios D ! i) of
        DD_POPULATE \<Rightarrow> i \<in> dn \<longrightarrow> tail_ok out0 D M i
      | DD_READ \<Rightarrow> tail_ok out0 D M i \<and> (i \<in> dn \<longrightarrow> head_ok inp D M i)
      | DD_WRITE \<Rightarrow> tail_ok out0 D M i \<and> head_ok inp D M i)"

definition written :: "dd_job \<Rightarrow> nat set \<Rightarrow> nat \<Rightarrow> bool" where
  "written D dn i \<longleftrightarrow> dio_type (ds_ios D ! i) = DD_WRITE \<and> i \<in> dn"

definition data_inv :: "buf \<Rightarrow> buf \<Rightarrow> dd_job \<Rightarrow> nat set \<Rightarrow> nat set \<Rightarrow> dd_data \<Rightarrow> bool" where
  "data_inv inp out0 D F dn M \<longleftrightarrow> dn \<subseteq> F \<and> (\<forall>i \<in> F. buffer_ok inp out0 D dn M i) \<and>
     (\<forall>x. x < out_lo D \<or> out_lo D + region_len D \<le> x \<longrightarrow> dt_out M x = out0 x) \<and>
     (\<forall>y. in_lo D \<le> y \<and> y < in_pos D \<longrightarrow>
        (\<exists>i \<in> F. covers (ds_ios D ! i) y \<and> \<not> written D dn i) \<or> dt_out M (out_place D y) = inp y)"

section \<open>Arithmetic\<close>

lemma last_request_new [simp]:
  "last_request i (cs @ [Dd_submit i ty be off len 0]) = Some (ty, unat off, unat len)"
  by (simp add: last_request_def)

lemma first_request_skip: "\<forall>c \<in> set xs. \<not> submit_of i c \<Longrightarrow> first_request i (xs @ cs) = first_request i cs"
  by (induction i xs rule: first_request.induct) auto

lemma last_request_skip: "\<forall>c \<in> set xs. \<not> submit_of i c \<Longrightarrow> last_request i (cs @ xs) = last_request i cs"
  by (simp add: last_request_def first_request_skip)

lemma request_len_small: "unat len < 2 ^ 32 \<Longrightarrow> request_len be len = len"
proof -
  assume "unat len < 2 ^ 32"
  then have "unat (ucast (ucast len :: u32) :: u64) = unat len"
    by (simp add: unsigned_ucast_eq unsigned_take_bit_eq take_bit_nat_eq_self)
  then show ?thesis
    by (simp add: request_len_def word_unat_eq_iff)
qed

lemma round_up_exact: "0 < bs \<Longrightarrow> n mod bs = 0 \<Longrightarrow> round_up bs n = n"
proof -
  assume b: "0 < bs" "n mod bs = 0"
  then obtain q where q: "n = q * bs"
    by (metis mod_0_imp_dvd dvd_def mult.commute)
  have "(bs - 1 + q * bs) div bs = q + (bs - 1) div bs"
    using b(1) by (intro div_mult_self1) simp
  then have "(q * bs + (bs - 1)) div bs = q"
    using b(1) by (simp only: add.commute [of "q * bs"]) simp
  moreover have "q * bs + bs - 1 = q * bs + (bs - 1)"
    using b(1) by simp
  ultimately show ?thesis
    by (simp add: round_up_def q)
qed

lemma round_up_bounds:
  assumes "0 < bs"
  shows "n \<le> round_up bs n" and "round_up bs n < n + bs"
proof -
  have "round_up bs n = n + bs - 1 - (n + bs - 1) mod bs"
    by (simp add: round_up_def minus_mod_eq_div_mult)
  moreover have "(n + bs - 1) mod bs \<le> bs - 1"
    using mod_less_divisor [OF assms, of "n + bs - 1"] by simp
  ultimately show "n \<le> round_up bs n" and "round_up bs n < n + bs"
    using assms by linarith+
qed

lemma round_up_within:
  assumes "0 < bs" and "n \<le> u" and "u mod bs = 0"
  shows "round_up bs n \<le> u"
proof -
  have "(n + bs - 1) div bs \<le> (u + bs - 1) div bs"
    using assms(2) by (intro div_le_mono) simp
  then have "round_up bs n \<le> round_up bs u"
    by (simp add: round_up_def)
  with round_up_exact [OF assms(1,3)] show ?thesis by simp
qed

text \<open>Rounding up to whole blocks does not shorten a request.\<close>

lemma padded_exact:
  assumes "padded L len bs = Inr plen" and "dd_lib_ok L" and "unat len + 2 ^ 32 \<le> 2 ^ 64"
  shows "unat plen = (unat len + unat bs - 1) div unat bs * unat bs" and "0 < unat bs"
proof -
  let ?b = "unat bs"
  have b: "bs \<noteq> 0" "0 < ?b" "?b < 2 ^ 32" and p: "plen = l_ceil_div L len (ucast bs) * ucast bs"
    using assms(1) unsigned_less [of bs, where 'a = nat] by (auto simp: padded_def unat_gt_0 split: if_splits)
  show "0 < ?b"
    by (rule b(2))
  have nz: "(ucast bs :: u64) \<noteq> 0"
  proof
    assume "(ucast bs :: u64) = 0"
    then have "unat (ucast bs :: u64) = unat (0 :: u64)"
      by (rule arg_cong)
    with b(2) show False by simp
  qed
  have q: "unat (l_ceil_div L len (ucast bs)) = (unat len + ?b - 1) div ?b"
    using assms(2,3) b nz by (simp add: dd_lib_ok_def)
  have "(unat len + ?b - 1) div ?b * ?b \<le> unat len + ?b - 1"
    by (rule div_times_less_eq_dividend)
  also have "\<dots> < 2 ^ 64"
    using b(2,3) assms(3) by linarith
  finally show "unat plen = (unat len + ?b - 1) div ?b * ?b"
    unfolding p using q by (subst unat_mult_exact) simp_all
qed

text \<open>The padded request of a unit, as it is submitted.\<close>

lemma padded_request:
  assumes "padded L len (tg_block_size (ds_output D)) = Inr plen" and "dd_lib_ok L" and "region_ok D"
    and "unat len \<le> unit_len D"
  shows "unat (request_len be plen) = round_up (out_bs D) (unat len)"
proof -
  have p: "unat plen = round_up (out_bs D) (unat len)"
    using padded_exact(1) [OF assms(1,2)] assms(3,4) by (simp add: round_up_def out_bs_def region_ok_def)
  have "round_up (out_bs D) (unat len) < 2 ^ 32"
    using round_up_within [of "out_bs D" "unat len" "unit_len D"] assms(3,4) by (simp add: region_ok_def)
  with p show ?thesis
    by (simp add: request_len_small)
qed

text \<open>The place of an offset inside the region, computed on words.\<close>

lemma out_place_word:
  assumes "region_ok D" and "in_lo D \<le> unat off" and "unat off \<le> in_lo D + region_len D"
  shows "unat (write_region_start D + (off - read_region_start D)) = out_place D (unat off)"
proof -
  have "unat (off - read_region_start D) = unat off - in_lo D"
    using assms(2) by (simp add: unat_sub word_le_nat_alt in_lo_def)
  moreover have "unat (write_region_start D) + (unat off - in_lo D) < 2 ^ 64"
    using assms unfolding region_ok_def out_lo_def by linarith
  ultimately show ?thesis
    by (subst unat_add_exact) (simp_all add: out_place_def out_lo_def)
qed

lemma remaining_geo:
  assumes "in_lo D \<le> in_pos D" and "in_pos D \<le> in_lo D + region_len D"
  shows "unat (remaining D) = in_lo D + region_len D - in_pos D"
proof -
  let ?p = "tg_pos (ds_input D)" and ?r = "read_region_start D"
  have "unat (?p - ?r) = in_pos D - in_lo D"
    using assms by (simp add: unat_sub word_le_nat_alt in_lo_def in_pos_def)
  moreover have "?p - ?r \<le> ds_copy_size D"
    using assms calculation by (simp add: word_le_nat_alt region_len_def)
  ultimately show ?thesis
    using assms by (simp add: remaining_def unat_sub region_len_def)
qed

section \<open>What keeps the invariants\<close>

definition same_region :: "dd_job \<Rightarrow> dd_job \<Rightarrow> bool" where
  "same_region D D' \<longleftrightarrow> ds_opts D' = ds_opts D \<and> ds_output D' = ds_output D \<and>
     ds_copy_size D' = ds_copy_size D \<and> length (ds_ios D') = length (ds_ios D)"

lemma same_region_frame: "frame D D' \<Longrightarrow> same_region D D'"
  by (simp add: frame_def same_region_def)

lemma same_region_calm: "calm D D' \<Longrightarrow> same_region D D'"
  by (simp add: calm_def same_region_def)

lemma same_region_simps:
  assumes "same_region D D'"
  shows "in_lo D' = in_lo D" "out_lo D' = out_lo D" "region_len D' = region_len D" "out_bs D' = out_bs D"
    "unit_len D' = unit_len D" "length (ds_ios D') = length (ds_ios D)" "region_ok D' = region_ok D"
    "out_place D' = out_place D" "unit_request D' = unit_request D"
proof -
  show s: "in_lo D' = in_lo D" "out_lo D' = out_lo D" "region_len D' = region_len D" "out_bs D' = out_bs D"
    "unit_len D' = unit_len D" "length (ds_ios D') = length (ds_ios D)"
    using assms by (simp_all add: same_region_def in_lo_def out_lo_def region_len_def out_bs_def unit_len_def
        read_region_start_def write_region_start_def)
  show "region_ok D' = region_ok D" "out_place D' = out_place D" "unit_request D' = unit_request D"
    by (simp_all add: region_ok_def out_place_def unit_request_def fun_eq_iff s)
qed

lemma geo_keep:
  assumes inv: "geo_inv D F" and sr: "same_region D D'" and pos: "in_pos D' = in_pos D"
    and ios: "\<And>i. i \<in> F \<Longrightarrow> ds_ios D' ! i = ds_ios D ! i"
    and cs: "ds_calls D' = ds_calls D @ cs" "\<And>c i. c \<in> set cs \<Longrightarrow> i \<in> F \<Longrightarrow> \<not> submit_of i c"
    and lens: "\<And>i. i < length (ds_ios D) \<Longrightarrow> io_len (ds_ios D' ! i) \<le> unit_len D \<and>
      (in_pos D \<noteq> in_lo D + region_len D \<longrightarrow>
         io_len (ds_ios D' ! i) \<noteq> 0 \<and> io_len (ds_ios D' ! i) mod out_bs D = 0)"
  shows "geo_inv D' F"
proof -
  note s = same_region_simps [OF sr]
  have lr: "last_request i (ds_calls D') = last_request i (ds_calls D)" if "i \<in> F" for i
    unfolding cs(1) using cs(2) that by (intro last_request_skip) blast
  have units: "\<forall>i \<in> F. i < length (ds_ios D') \<and> unit_ok D' (ds_ios D' ! i) \<and>
      last_request i (ds_calls D') = Some (unit_request D' (ds_ios D' ! i))"
    using inv by (auto simp: geo_inv_def unit_ok_def s pos ios lr)
  have disj: "\<forall>i \<in> F. \<forall>j \<in> F. i \<noteq> j \<longrightarrow> (\<forall>y. \<not> (covers (ds_ios D' ! i) y \<and> covers (ds_ios D' ! j) y))"
    using inv ios by (auto simp: geo_inv_def)
  show ?thesis
    using inv units disj lens unfolding geo_inv_def s pos by blast
qed

lemma geo_drop: "geo_inv D F \<Longrightarrow> F' \<subseteq> F \<Longrightarrow> geo_inv D F'"
  unfolding geo_inv_def by blast

lemma buffer_ok_cong:
  assumes sr: "same_region D D'" and io: "ds_ios D' ! i = ds_ios D ! i" and dn: "i \<in> dn' \<longleftrightarrow> i \<in> dn"
  shows "buffer_ok inp out0 D' dn' M i = buffer_ok inp out0 D dn M i"
proof -
  have "tail_ok out0 D' M i = tail_ok out0 D M i" "head_ok inp D' M i = head_ok inp D M i"
    by (simp_all add: tail_ok_def head_ok_def same_region_simps [OF sr] io)
  then show ?thesis
    by (simp add: buffer_ok_def io dn split: dd_submit_type.split)
qed

lemma data_keep:
  assumes inv: "data_inv inp out0 D F dn M" and sr: "same_region D D'" and pos: "in_pos D' = in_pos D"
    and ios: "\<And>i. i \<in> F \<Longrightarrow> ds_ios D' ! i = ds_ios D ! i"
  shows "data_inv inp out0 D' F dn M"
proof -
  note s = same_region_simps [OF sr]
  have b: "buffer_ok inp out0 D' dn M i = buffer_ok inp out0 D dn M i" if "i \<in> F" for i
    using buffer_ok_cong [OF sr ios [OF that]] by blast
  have c: "(\<exists>i \<in> F. covers (ds_ios D' ! i) y \<and> \<not> written D' dn i) \<longleftrightarrow>
      (\<exists>i \<in> F. covers (ds_ios D ! i) y \<and> \<not> written D dn i)" for y
    using ios by (auto simp: written_def)
  show ?thesis
    using inv b unfolding data_inv_def s pos c by blast
qed

text \<open>A unit whose write has been carried out may leave.\<close>

lemma data_drop:
  assumes "data_inv inp out0 D F dn M" and "written D dn i"
  shows "data_inv inp out0 D (F - {i}) (dn - {i}) M"
proof -
  have b: "buffer_ok inp out0 D (dn - {i}) M j = buffer_ok inp out0 D dn M j" if "j \<in> F - {i}" for j
    using that by (auto simp: buffer_ok_def split: dd_submit_type.splits)
  have w: "written D (dn - {i}) j = written D dn j" if "j \<noteq> i" for j
    using that by (simp add: written_def)
  have c: "(\<exists>j \<in> F. covers (ds_ios D ! j) y \<and> \<not> written D dn j) \<Longrightarrow>
      (\<exists>j \<in> F - {i}. covers (ds_ios D ! j) y \<and> \<not> written D (dn - {i}) j)" for y
    using assms(2) w by (metis Diff_iff singletonD)
  show ?thesis
    using assms(1) b c unfolding data_inv_def by blast
qed

text \<open>A populated unit issues its read, a unit that has been read issues its write.\<close>

lemma geo_advance:
  assumes inv: "geo_inv D F" and i: "i \<in> F" and sr: "same_region D D'" and pos: "in_pos D' = in_pos D"
    and ios: "ds_ios D' = (ds_ios D)[i := (ds_ios D ! i)\<lparr>dio_type := ty\<rparr>]"
    and cs: "ds_calls D' = ds_calls D @ [Dd_submit i ty be off len 0]"
    and rq: "(ty, unat off, unat len) = unit_request D ((ds_ios D ! i)\<lparr>dio_type := ty\<rparr>)"
  shows "geo_inv D' F"
proof -
  note s = same_region_simps [OF sr]
  have il: "i < length (ds_ios D)"
    using inv i by (simp add: geo_inv_def)
  have io: "ds_ios D' ! j = (if j = i then (ds_ios D ! i)\<lparr>dio_type := ty\<rparr> else ds_ios D ! j)" for j
    using il by (simp add: ios)
  have lens: "io_len (ds_ios D' ! j) = io_len (ds_ios D ! j)" "io_off (ds_ios D' ! j) = io_off (ds_ios D ! j)" for j
    by (simp_all add: io io_len_def io_off_def)
  have cov: "covers (ds_ios D' ! j) = covers (ds_ios D ! j)" for j
    by (rule ext) (simp add: covers_def lens)
  have lr: "last_request j (ds_calls D') = last_request j (ds_calls D)" if "j \<noteq> i" for j
    unfolding cs using that by (intro last_request_skip) simp
  have units: "\<forall>j \<in> F. j < length (ds_ios D') \<and> unit_ok D' (ds_ios D' ! j) \<and>
      last_request j (ds_calls D') = Some (unit_request D' (ds_ios D' ! j))"
  proof
    fix j assume j: "j \<in> F"
    then have "j < length (ds_ios D') \<and> unit_ok D' (ds_ios D' ! j)"
      using inv by (simp add: geo_inv_def unit_ok_def s pos lens)
    moreover have "last_request j (ds_calls D') = Some (unit_request D' (ds_ios D' ! j))"
    proof (cases "j = i")
      case True
      then show ?thesis by (simp add: cs io s rq)
    next
      case False
      with inv j show ?thesis by (simp add: geo_inv_def lr io s)
    qed
    ultimately show "j < length (ds_ios D') \<and> unit_ok D' (ds_ios D' ! j) \<and>
        last_request j (ds_calls D') = Some (unit_request D' (ds_ios D' ! j))" by blast
  qed
  show ?thesis
    using inv units unfolding geo_inv_def s pos cov lens by blast
qed

lemma data_advance:
  assumes inv: "data_inv inp out0 D F dn M" and i: "i \<in> F" "i < length (ds_ios D)" and sr: "same_region D D'"
    and pos: "in_pos D' = in_pos D" and ios: "ds_ios D' = (ds_ios D)[i := (ds_ios D ! i)\<lparr>dio_type := ty\<rparr>]"
    and nw: "\<not> written D dn i" and b: "buffer_ok inp out0 D' (dn - {i}) M i"
  shows "data_inv inp out0 D' F (dn - {i}) M"
proof -
  note s = same_region_simps [OF sr]
  have io: "ds_ios D' ! j = (if j = i then (ds_ios D ! i)\<lparr>dio_type := ty\<rparr> else ds_ios D ! j)" for j
    using i(2) by (simp add: ios)
  have cov: "covers (ds_ios D' ! j) = covers (ds_ios D ! j)" for j
    by (rule ext) (simp add: covers_def io io_len_def io_off_def)
  have bufs: "buffer_ok inp out0 D' (dn - {i}) M j" if "j \<in> F" for j
  proof (cases "j = i")
    case False
    have "buffer_ok inp out0 D dn M j"
      using inv that by (simp add: data_inv_def)
    with False buffer_ok_cong [OF sr, of j "dn - {i}" dn] show ?thesis
      by (simp add: io)
  qed (use b in simp)
  have w: "\<not> written D' (dn - {i}) j" if "\<not> written D dn j" for j
    using that by (auto simp: written_def io)
  have c: "(\<exists>j \<in> F. covers (ds_ios D ! j) y \<and> \<not> written D dn j) \<Longrightarrow>
      (\<exists>j \<in> F. covers (ds_ios D' ! j) y \<and> \<not> written D' (dn - {i}) j)" for y
    using w by (auto simp: cov)
  show ?thesis
    using inv bufs c unfolding data_inv_def s pos by blast
qed

section \<open>A request is carried out\<close>

lemma unit_in_region:
  assumes "geo_inv D F" and "i \<in> F"
  defines "io \<equiv> ds_ios D ! i"
  shows "last_request i (ds_calls D) = Some (unit_request D io)"
    and "in_lo D \<le> io_off io" and "io_off io + io_len io \<le> in_pos D" and "in_pos D \<le> in_lo D + region_len D"
    and "io_len io \<le> k \<Longrightarrow> k < round_up (out_bs D) (io_len io) \<Longrightarrow> io_off io + io_len io = in_lo D + region_len D"
proof -
  have u: "unit_ok D io" "0 < out_bs D"
    using assms by (auto simp: geo_inv_def region_ok_def)
  show "last_request i (ds_calls D) = Some (unit_request D io)" "in_pos D \<le> in_lo D + region_len D"
    using assms by (auto simp: geo_inv_def)
  show "in_lo D \<le> io_off io" "io_off io + io_len io \<le> in_pos D"
    using u(1) by (auto simp: unit_ok_def)
  show "io_off io + io_len io = in_lo D + region_len D"
    if "io_len io \<le> k" "k < round_up (out_bs D) (io_len io)"
    using u round_up_exact [OF u(2), of "io_len io"] that by (auto simp: unit_ok_def)
qed

lemma written_insert: "j \<noteq> i \<Longrightarrow> written D (insert i dn) j = written D dn j"
  by (simp add: written_def)

lemma carry_reads:
  assumes geo: "geo_inv D F" and inv: "data_inv inp out0 D F dn M" and i: "i \<in> F" "i \<notin> dn"
    and ty: "dio_type (ds_ios D ! i) \<noteq> DD_WRITE"
  shows "data_inv inp out0 D F (insert i dn) (carry_out inp i (ds_calls D) M)"
proof -
  let ?io = "ds_ios D ! i" and ?M = "carry_out inp i (ds_calls D) M"
  note u = unit_in_region [OF geo i(1)]
  have other: "dt_buf ?M j = dt_buf M j" if "j \<noteq> i" for j
    using ty that
    by (auto simp: carry_out_def u(1) unit_request_def split: option.splits dd_submit_type.splits)
  have out: "dt_out ?M = dt_out M"
    using ty by (auto simp: carry_out_def u(1) unit_request_def split: option.splits dd_submit_type.splits)
  have beyond: "dt_out M (out_place D (io_off ?io) + k) = out0 (out_place D (io_off ?io) + k)"
    if "io_len ?io \<le> k" "k < round_up (out_bs D) (io_len ?io)" for k
  proof -
    have "out_lo D + region_len D \<le> out_place D (io_off ?io) + k"
      using u(2) u(5) [OF that] that(1) by (simp add: out_place_def)
    with inv show ?thesis by (simp add: data_inv_def)
  qed
  have own: "buffer_ok inp out0 D (insert i dn) ?M i"
  proof (cases "dio_type ?io")
    case DD_POPULATE
    then show ?thesis
      using beyond by (auto simp: buffer_ok_def tail_ok_def carry_out_def u(1) unit_request_def patch_def Let_def)
  next
    case DD_READ
    then have "tail_ok out0 D M i"
      using inv i by (auto simp: data_inv_def buffer_ok_def)
    with DD_READ show ?thesis
      by (auto simp: buffer_ok_def tail_ok_def head_ok_def carry_out_def u(1) unit_request_def patch_def Let_def)
  qed (use ty in simp)
  have bufs: "\<forall>j \<in> F. buffer_ok inp out0 D (insert i dn) ?M j"
  proof
    fix j assume j: "j \<in> F"
    show "buffer_ok inp out0 D (insert i dn) ?M j"
    proof (cases "j = i")
      case False
      have "buffer_ok inp out0 D dn M j"
        using inv j by (simp add: data_inv_def)
      with False show ?thesis
        by (simp add: buffer_ok_def tail_ok_def head_ok_def other split: dd_submit_type.splits)
    qed (use own in simp)
  qed
  have "written D (insert i dn) j = written D dn j" for j
    using ty by (auto simp: written_def)
  with inv i(1) bufs show ?thesis
    unfolding data_inv_def by (auto simp: out)
qed

lemma carry_write:
  assumes geo: "geo_inv D F" and inv: "data_inv inp out0 D F dn M" and i: "i \<in> F" "i \<notin> dn"
    and ty: "dio_type (ds_ios D ! i) = DD_WRITE"
  shows "data_inv inp out0 D F (insert i dn) (carry_out inp i (ds_calls D) M)"
proof -
  let ?io = "ds_ios D ! i" and ?M = "carry_out inp i (ds_calls D) M"
  let ?o = "io_off ?io" and ?n = "io_len ?io" and ?r = "round_up (out_bs D) (io_len ?io)"
  note u = unit_in_region [OF geo i(1)]
  have M: "dt_buf ?M = dt_buf M" "dt_out ?M = patch (out_place D ?o) ?r (dt_buf M i) (dt_out M)"
    using ty by (simp_all add: carry_out_def u(1) unit_request_def)
  have own: "tail_ok out0 D M i" "head_ok inp D M i"
    using inv i(1) ty by (auto simp: data_inv_def buffer_ok_def)
  have nr: "?n \<le> ?r"
    using geo by (intro round_up_bounds(1)) (simp add: geo_inv_def region_ok_def)
  have bufs: "\<forall>j \<in> F. buffer_ok inp out0 D (insert i dn) ?M j"
  proof
    fix j assume "j \<in> F"
    then have "buffer_ok inp out0 D dn M j"
      using inv by (simp add: data_inv_def)
    with ty show "buffer_ok inp out0 D (insert i dn) ?M j"
      by (cases "j = i") (auto simp: buffer_ok_def tail_ok_def head_ok_def M(1) split: dd_submit_type.splits)
  qed
  have outside: "dt_out ?M x = out0 x" if x: "x < out_lo D \<or> out_lo D + region_len D \<le> x" for x
  proof (cases "out_place D ?o \<le> x \<and> x < out_place D ?o + ?r")
    case True
    let ?k = "x - out_place D ?o"
    have "?n \<le> ?k" "?k < ?r"
      using True x u(2-4) by (auto simp: out_place_def)
    then have "dt_buf M i ?k = out0 (out_place D ?o + ?k)"
      using own(1) by (simp add: tail_ok_def Let_def)
    with True show ?thesis
      by (simp add: M(2) patch_def)
  next
    case False
    then show ?thesis
      using inv x unfolding M(2) patch_def data_inv_def by auto
  qed
  have cov: "(\<exists>j \<in> F. covers (ds_ios D ! j) y \<and> \<not> written D (insert i dn) j) \<or> dt_out ?M (out_place D y) = inp y"
    if y: "in_lo D \<le> y" "y < in_pos D" for y
  proof (cases "covers ?io y")
    case True
    then have k: "y - ?o < ?n" "out_place D y = out_place D ?o + (y - ?o)"
      using u(2) by (auto simp: covers_def out_place_def)
    then have "dt_out ?M (out_place D y) = dt_buf M i (y - ?o)"
      using nr by (simp add: M(2) patch_def)
    also have "\<dots> = inp (?o + (y - ?o))"
      using own(2) k(1) by (simp add: head_ok_def Let_def)
    finally show ?thesis
      using True by (simp add: covers_def)
  next
    case False
    from inv y consider j where "j \<in> F" "covers (ds_ios D ! j) y" "\<not> written D dn j"
      | "dt_out M (out_place D y) = inp y"
      unfolding data_inv_def by blast
    then show ?thesis
    proof cases
      case 1
      with False written_insert [of j i D dn] show ?thesis by metis
    next
      case 2
      have "\<not> (out_place D ?o \<le> out_place D y \<and> out_place D y < out_place D ?o + ?r)"
      proof
        assume a: "out_place D ?o \<le> out_place D y \<and> out_place D y < out_place D ?o + ?r"
        then have "?o \<le> y" "y - ?o < ?r"
          using y(1) u(2) by (auto simp: out_place_def)
        moreover from this False have "?n \<le> y - ?o"
          by (auto simp: covers_def)
        ultimately have "?o + ?n = in_lo D + region_len D"
          using u(5) by blast
        with u(3,4) y(2) \<open>?n \<le> y - ?o\<close> \<open>?o \<le> y\<close> show False by linarith
      qed
      with 2 show ?thesis by (auto simp: M(2) patch_def)
    qed
  qed
  show ?thesis
    using inv i(1) bufs outside cov unfolding data_inv_def by blast
qed

section \<open>A unit claims the next part of the region\<close>

lemma unat_claim:
  assumes "dd_lib_ok L" and "in_lo D \<le> in_pos D" and "in_pos D \<le> in_lo D + region_len D"
  shows "unat (claim L i D) = min (io_len (ds_ios D ! i)) (in_lo D + region_len D - in_pos D)"
proof -
  have "claim L i D = min (dio_length (ds_ios D ! i)) (remaining D)"
    using assms(1) by (simp add: claim_def dd_lib_ok_def)
  then show ?thesis
    using remaining_geo [OF assms(2,3)] by (simp add: min_def word_le_nat_alt io_len_def)
qed

text \<open>The request with which the claim starts is the one for the claimed range.\<close>

lemma claim_request:
  assumes "dd_lib_ok L" and "region_ok D" and "unat (claim L i D) \<le> unit_len D"
    and "in_lo D \<le> in_pos D" and "in_pos D \<le> in_lo D + region_len D"
    and "if claim L i D mod ucast (tg_block_size (ds_output D)) = 0
      then ty = DD_READ \<and> off = tg_pos (ds_input D) \<and> len = claim L i D
      else ty = DD_POPULATE \<and> padded L (claim L i D) (tg_block_size (ds_output D)) = Inr len \<and>
        off = write_region_start D + (tg_pos (ds_input D) - read_region_start D)"
  shows "(ty, unat off, unat (request_len be len)) = unit_request D (claimed_io L i D ty)"
    and "ty = DD_READ \<and> unat (claim L i D) mod out_bs D = 0 \<or> ty = DD_POPULATE"
proof -
  let ?c = "claim L i D"
  have "unat (ucast (tg_block_size (ds_output D)) :: u64) = out_bs D"
    by (simp add: out_bs_def)
  then have m: "?c mod ucast (tg_block_size (ds_output D)) = 0 \<longleftrightarrow> unat ?c mod out_bs D = 0"
    by (simp add: word_unat_eq_iff unat_mod_distrib)
  have small: "unat ?c < 2 ^ 32"
    using assms(2,3) by (simp add: region_ok_def)
  show "ty = DD_READ \<and> unat ?c mod out_bs D = 0 \<or> ty = DD_POPULATE"
    using assms(6) m by (auto split: if_splits)
  show "(ty, unat off, unat (request_len be len)) = unit_request D (claimed_io L i D ty)"
  proof (cases "?c mod ucast (tg_block_size (ds_output D)) = 0")
    case True
    with assms(6) small show ?thesis
      by (simp add: unit_request_def claimed_io_def io_off_def io_len_def request_len_small)
  next
    case False
    then have p: "ty = DD_POPULATE" "padded L ?c (tg_block_size (ds_output D)) = Inr len"
      "off = write_region_start D + (tg_pos (ds_input D) - read_region_start D)"
      using assms(6) by auto
    have "unat off = out_place D (in_pos D)"
      unfolding p(3) using out_place_word [OF assms(2), of "tg_pos (ds_input D)"] assms(4,5) by (simp add: in_pos_def)
    with p(1) padded_request [OF p(2) assms(1,2,3)] show ?thesis
      by (simp add: unit_request_def claimed_io_def io_off_def io_len_def in_pos_def)
  qed
qed

lemma claim_geo:
  assumes inv: "geo_inv D F" and i: "i \<notin> F" "i < length (ds_ios D)" and sr: "same_region D D'"
    and lib: "dd_lib_ok L" and c0: "claim L i D \<noteq> 0"
    and pos: "ds_input D' = (ds_input D)\<lparr>tg_pos := tg_pos (ds_input D) + claim L i D\<rparr>"
    and ios: "ds_ios D' = (ds_ios D)[i := claimed_io L i D ty]"
    and cs: "ds_calls D' = ds_calls D @ [Dd_submit i ty be off (request_len be len) 0]"
    and rq: "(ty, unat off, unat (request_len be len)) = unit_request D (claimed_io L i D ty)"
  shows "geo_inv D' (insert i F)" and "in_pos D' = in_pos D + unat (claim L i D)"
proof -
  note s = same_region_simps [OF sr]
  let ?e = "in_lo D + region_len D" and ?c = "unat (claim L i D)" and ?n = "io_len (ds_ios D ! i)"
  have p: "in_lo D \<le> in_pos D" "in_pos D \<le> ?e" and r: "region_ok D"
    using inv by (auto simp: geo_inv_def)
  have c: "?c = min ?n (?e - in_pos D)"
    by (rule unat_claim [OF lib p])
  have c1: "0 < ?c"
    using c0 by (simp add: unat_gt_0)
  with c have pe: "in_pos D \<noteq> ?e" and cle: "in_pos D + ?c \<le> ?e"
    using p by auto
  have n: "?n \<le> unit_len D" "?n mod out_bs D = 0"
    using inv i(2) pe by (auto simp: geo_inv_def)
  show pos': "in_pos D' = in_pos D + ?c"
    unfolding in_pos_def pos using cle r by (simp add: region_ok_def in_pos_def unat_add_exact)
  have io: "ds_ios D' ! j = (if j = i then claimed_io L i D ty else ds_ios D ! j)" for j
    using i(2) by (simp add: ios)
  have new: "io_off (claimed_io L i D ty) = in_pos D" "io_len (claimed_io L i D ty) = ?c"
    by (simp_all add: claimed_io_def io_off_def io_len_def in_pos_def)
  have last: "?c mod out_bs D = 0 \<or> in_pos D + ?c = ?e"
    using c n by (auto simp: min_def split: if_splits)
  have lens: "io_len (ds_ios D' ! j) \<le> unit_len D \<and>
      (in_pos D' \<noteq> ?e \<longrightarrow> io_len (ds_ios D' ! j) \<noteq> 0 \<and> io_len (ds_ios D' ! j) mod out_bs D = 0)"
    if "j < length (ds_ios D)" for j
    using inv that n(1) c c1 last pe pos' by (cases "j = i") (auto simp: io new geo_inv_def)
  have units: "j < length (ds_ios D') \<and> unit_ok D' (ds_ios D' ! j) \<and>
      last_request j (ds_calls D') = Some (unit_request D' (ds_ios D' ! j))" if j: "j \<in> insert i F" for j
  proof (cases "j = i")
    case True
    have "unit_ok D' (claimed_io L i D ty)"
      using p(1) c c1 n(1) last by (simp add: unit_ok_def s new pos')
    with True i(2) rq show ?thesis
      by (simp add: io s cs)
  next
    case False
    then have "last_request j (ds_calls D') = last_request j (ds_calls D)"
      unfolding cs by (intro last_request_skip) simp
    with False j inv show ?thesis
      by (auto simp: io s pos' geo_inv_def unit_ok_def)
  qed
  have old: "\<not> (covers (claimed_io L i D ty) y \<and> covers (ds_ios D ! j) y)" if "j \<in> F" for j y
    using inv that by (fastforce simp: geo_inv_def unit_ok_def covers_def new)
  have disj: "\<not> (covers (ds_ios D' ! j) y \<and> covers (ds_ios D' ! k) y)"
    if jk: "j \<in> insert i F" "k \<in> insert i F" "j \<noteq> k" for j k y
  proof -
    consider "j = i" "k \<in> F" | "k = i" "j \<in> F" | "j \<in> F" "k \<in> F" "j \<noteq> i" "k \<noteq> i"
      using jk by blast
    then show ?thesis
    proof cases
      case 1
      then show ?thesis using old jk(3) by (auto simp: io)
    next
      case 2
      then show ?thesis using old jk(3) by (auto simp: io)
    next
      case 3
      with inv jk(3) show ?thesis by (simp add: io geo_inv_def)
    qed
  qed
  show "geo_inv D' (insert i F)"
    unfolding geo_inv_def s
  proof (intro conjI)
    show "in_lo D \<le> in_pos D'" "in_pos D' \<le> ?e"
      using p(1) cle by (simp_all add: pos')
    show "region_ok D"
      by (rule r)
  qed (intro ballI allI impI; (rule lens units [unfolded s] disj); assumption)+
qed

lemma claim_data:
  assumes inv: "data_inv inp out0 D F dn M" and geo: "geo_inv D F" and i: "i \<notin> F" "i < length (ds_ios D)"
    and sr: "same_region D D'" and pos: "in_pos D' = in_pos D + unat (claim L i D)"
    and ios: "ds_ios D' = (ds_ios D)[i := claimed_io L i D ty]"
    and ty: "ty = DD_READ \<and> unat (claim L i D) mod out_bs D = 0 \<or> ty = DD_POPULATE"
  shows "data_inv inp out0 D' (insert i F) dn M"
proof -
  note s = same_region_simps [OF sr]
  have io: "ds_ios D' ! j = (if j = i then claimed_io L i D ty else ds_ios D ! j)" for j
    using i(2) by (simp add: ios)
  have dn: "i \<notin> dn" "dn \<subseteq> F"
    using inv i(1) by (auto simp: data_inv_def)
  have "tail_ok out0 D' M i" if "unat (claim L i D) mod out_bs D = 0"
    using round_up_exact [OF _ that] geo
    by (auto simp: tail_ok_def io s claimed_io_def io_len_def geo_inv_def region_ok_def)
  then have own: "buffer_ok inp out0 D' dn M i"
    using ty dn(1) by (auto simp: buffer_ok_def io claimed_io_def)
  have bufs: "\<forall>j \<in> insert i F. buffer_ok inp out0 D' dn M j"
  proof
    fix j assume j: "j \<in> insert i F"
    show "buffer_ok inp out0 D' dn M j"
    proof (cases "j = i")
      case False
      with j inv buffer_ok_cong [OF sr, of j dn dn inp out0 M] show ?thesis
        by (simp add: io data_inv_def)
    qed (use own in simp)
  qed
  have cov: "(\<exists>j \<in> insert i F. covers (ds_ios D' ! j) y \<and> \<not> written D' dn j) \<or> dt_out M (out_place D y) = inp y"
    if y: "in_lo D \<le> y" "y < in_pos D'" for y
  proof (cases "y < in_pos D")
    case True
    with inv y consider j where "j \<in> F" "covers (ds_ios D ! j) y" "\<not> written D dn j" | "dt_out M (out_place D y) = inp y"
      unfolding data_inv_def by blast
    then show ?thesis
    proof cases
      case 1
      with i(1) have "j \<noteq> i" by auto
      with 1 show ?thesis
        by (intro disjI1 bexI [of _ j]) (simp_all add: io written_def)
    qed simp
  next
    case False
    with y(2) pos have "in_pos D \<le> y" "y < in_pos D + unat (claim L i D)"
      by simp_all
    then have "covers (ds_ios D' ! i) y"
      by (simp add: io covers_def claimed_io_def io_off_def io_len_def in_pos_def)
    then show ?thesis
      using dn(1) by (intro disjI1 bexI [of _ i]) (simp_all add: written_def)
  qed
  show ?thesis
    using inv bufs cov dn(2) unfolding data_inv_def s by auto
qed

text \<open>The whole handler, for a unit that is not in flight.\<close>

lemma populate_copy:
  assumes inv: "geo_inv D F" and lib: "dd_lib_ok L" and i: "i \<notin> F" "i < length (ds_ios D)"
    and st: "dd_target_populate_buffer L e i D = Inr D'" and ok: "\<not> stopped D'"
  shows "geo_inv D' (F \<union> set (submitted (new_calls D D'))) \<and>
    (submitted (new_calls D D') = [] \<longrightarrow> in_pos D' = in_lo D' + region_len D') \<and>
    (\<forall>inp out0 dn M. data_inv inp out0 D F dn M \<longrightarrow>
       data_inv inp out0 D' (F \<union> set (submitted (new_calls D D'))) dn M)"
proof -
  note pe = populate_effect [OF st i(2)]
  have h: "handled i D D'" and ns: "\<not> stopped D" using pe ok by blast+
  have sr: "same_region D D'"
    using h by (auto simp: handled_def intro: same_region_frame)
  note s = same_region_simps [OF sr]
  have p: "in_lo D \<le> in_pos D" "in_pos D \<le> in_lo D + region_len D" and r: "region_ok D"
    using inv by (auto simp: geo_inv_def)
  note c = unat_claim [OF lib p, of i]
  show ?thesis
  proof (cases "claim L i D = 0")
    case True
    then have in': "ds_input D' = ds_input D" "ds_outstanding D' = ds_outstanding D"
      "ds_ios D' = (ds_ios D)[i := claimed_io L i D (dio_type (ds_ios D ! i))]"
      using pe by blast+
    have sub: "submitted (new_calls D D') = []"
      using handled_new [OF h] in'(2) by auto
    have full: "in_pos D = in_lo D + region_len D"
      using True c p inv i(2) by (auto simp: geo_inv_def min_def split: if_splits)
    have pos: "in_pos D' = in_pos D"
      by (simp add: in_pos_def in'(1))
    have others: "ds_ios D' ! j = ds_ios D ! j" if "j \<in> F" for j
      using that i(1) h unfolding handled_def by metis
    obtain cs where cs: "ds_calls D' = ds_calls D @ cs" "\<forall>c \<in> set cs. \<forall>j. submit_of j c \<longrightarrow> j = i"
      using h by (auto simp: handled_def)
    have "geo_inv D' F"
    proof (rule geo_keep [OF inv sr pos others cs(1)])
      show "\<not> submit_of j c" if "c \<in> set cs" "j \<in> F" for c j
        using that cs(2) i(1) by metis
      show "io_len (ds_ios D' ! j) \<le> unit_len D \<and> (in_pos D \<noteq> in_lo D + region_len D \<longrightarrow>
          io_len (ds_ios D' ! j) \<noteq> 0 \<and> io_len (ds_ios D' ! j) mod out_bs D = 0)" if "j < length (ds_ios D)" for j
        using that inv full i(2) True
        by (cases "j = i") (auto simp: in'(3) geo_inv_def claimed_io_def io_len_def)
    qed
    with sub full pos s data_keep [OF _ sr pos others] show ?thesis by simp
  next
    case False
    obtain ty be off len where q: "ds_input D' = (ds_input D)\<lparr>tg_pos := tg_pos (ds_input D) + claim L i D\<rparr>"
      "ds_ios D' = (ds_ios D)[i := claimed_io L i D ty]"
      "ds_calls D' = ds_calls D @ [Dd_submit i ty be off (request_len be len) 0]"
      "if claim L i D mod ucast (tg_block_size (ds_output D)) = 0
       then ty = DD_READ \<and> off = tg_pos (ds_input D) \<and> len = claim L i D
       else ty = DD_POPULATE \<and> padded L (claim L i D) (tg_block_size (ds_output D)) = Inr len \<and>
         off = write_region_start D + (tg_pos (ds_input D) - read_region_start D)"
      using pe False ns ok by blast
    have cle: "unat (claim L i D) \<le> unit_len D"
      using c inv i(2) by (auto simp: geo_inv_def min_def)
    note rq = claim_request [OF lib r cle p q(4)]
    note g = claim_geo [OF inv i sr lib False q(1-3) rq(1)]
    have sub: "submitted (new_calls D D') = [i]"
      using q(3) by (simp add: new_calls_def)
    with g(1) claim_data [OF _ inv i sr g(2) q(2) rq(2)] show ?thesis by simp
  qed
qed

section \<open>A completion\<close>

lemma complete_copy:
  assumes inv: "geo_inv D F" and lib: "dd_lib_ok L" and i: "i \<in> F" and ns: "\<not> sparse (ds_opts D)"
    and st: "dd_complete_poll L e i D = Inr D'" and ok: "\<not> stopped D'"
  shows "geo_inv D' (F - {i} \<union> set (submitted (new_calls D D'))) \<and>
    (submitted (new_calls D D') = [] \<longrightarrow> in_pos D' = in_lo D' + region_len D') \<and>
    (\<forall>inp out0 dn M. data_inv inp out0 D F dn M \<and> i \<in> dn \<longrightarrow>
       data_inv inp out0 D' (F - {i} \<union> set (submitted (new_calls D D'))) (dn - {i}) M)"
proof -
  let ?F = "D\<lparr>ds_outstanding := ds_outstanding D - 1\<rparr>" and ?io = "ds_ios D ! i"
  have il: "i < length (ds_ios D)" "i < length (ds_ios ?F)" using inv i by (auto simp: geo_inv_def)
  have o: "ds_outstanding D \<noteq> 0" and h: "handled i ?F D'"
    using complete_effect [OF st dense_sync [OF ns] il(1)] by auto
  have sr: "same_region D D'" "same_region D ?F"
    using h by (auto simp: handled_def frame_def same_region_def)
  have u: "unit_ok D ?io" "region_ok D"
    using inv i by (auto simp: geo_inv_def)
  have new: "new_calls ?F D' = new_calls D D'"
    by (simp add: new_calls_def)
  have adv: ?thesis
    if ios: "ds_ios D' = (ds_ios D)[i := ?io\<lparr>dio_type := ty\<rparr>]" and pos: "ds_input D' = ds_input D"
      and cs: "ds_calls D' = ds_calls D @ [Dd_submit i ty be off len 0]"
      and rq: "(ty, unat off, unat len) = unit_request D (?io\<lparr>dio_type := ty\<rparr>)"
      and nw: "dio_type ?io \<noteq> DD_WRITE"
      and bf: "\<And>inp out0 dn M. buffer_ok inp out0 D dn M i \<Longrightarrow> i \<in> dn \<Longrightarrow> buffer_ok inp out0 D' (dn - {i}) M i"
    for ty be off len
  proof -
    have pos': "in_pos D' = in_pos D"
      by (simp add: in_pos_def pos)
    have eq: "F - {i} \<union> set (submitted (new_calls D D')) = F" "submitted (new_calls D D') = [i]"
      using i by (auto simp: cs new_calls_def)
    have "data_inv inp out0 D' F (dn - {i}) M" if "data_inv inp out0 D F dn M" "i \<in> dn" for inp out0 dn M
      using that i nw bf by (intro data_advance [OF that(1) i il(1) sr(1) pos' ios])
        (auto simp: data_inv_def written_def)
    with geo_advance [OF inv i sr(1) pos' ios cs rq] show ?thesis
      unfolding eq(1) by (simp add: eq(2))
  qed
  have tails: "tail_ok out0 D' M i = tail_ok out0 D M i" "head_ok inp D' M i = head_ok inp D M i"
    if "ds_ios D' = (ds_ios D)[i := ?io\<lparr>dio_type := ty\<rparr>]" for inp out0 M ty
    using il(1) by (simp_all add: tail_ok_def head_ok_def that same_region_simps [OF sr(1)] io_len_def io_off_def Let_def)
  show ?thesis
  proof (cases "dio_type ?io")
    case DD_POPULATE
    with st o have "dd_target_read e i ?F = Inr D'"
      by (simp add: dd_complete_poll_def)
    note re = read_effect [OF this il(2)]
    then obtain be where p: "ds_ios D' = (ds_ios D)[i := ?io\<lparr>dio_type := DD_READ\<rparr>]" "ds_input D' = ds_input D"
      "ds_calls D' = ds_calls D @ [Dd_submit i DD_READ be (dio_offset ?io) (request_len be (dio_length ?io)) 0]"
      using ok by auto
    have "unat (dio_length ?io) < 2 ^ 32"
      using u by (simp add: unit_ok_def region_ok_def io_len_def)
    then show ?thesis
      by (intro adv [OF p])
        (use DD_POPULATE il(1) tails(1) [OF p(1)] in \<open>auto simp: unit_request_def io_off_def io_len_def
          request_len_small buffer_ok_def p(1)\<close>)
  next
    case DD_READ
    with st o have "dd_target_write L e i ?F = Inr D'"
      by (simp add: dd_complete_poll_def)
    note we = write_effect [OF this il(2)]
    then obtain be plen where p: "ds_ios D' = (ds_ios D)[i := ?io\<lparr>dio_type := DD_WRITE\<rparr>]"
      "ds_input D' = ds_input D" "ds_calls D' = ds_calls D @ [Dd_submit i DD_WRITE be
         (write_region_start D + (dio_offset ?io - read_region_start D)) (request_len be plen) 0]"
      and pl: "padded L (dio_length ?io) (tg_block_size (ds_output D)) = Inr plen"
      using ok by (auto simp: read_region_start_def write_region_start_def)
    have "unat (request_len be plen) = round_up (out_bs D) (io_len ?io)"
      unfolding io_len_def by (rule padded_request [OF pl lib u(2)]) (use u(1) in \<open>simp add: unit_ok_def io_len_def\<close>)
    moreover have "unat (write_region_start D + (dio_offset ?io - read_region_start D)) = out_place D (io_off ?io)"
      unfolding io_off_def
      by (rule out_place_word [OF u(2)]) (use inv u(1) in \<open>auto simp: unit_ok_def io_off_def geo_inv_def\<close>)
    ultimately show ?thesis
      by (intro adv [OF p])
        (use DD_READ il(1) tails [OF p(1)] in \<open>auto simp: unit_request_def io_off_def io_len_def
          buffer_ok_def p(1)\<close>)
  next
    case DD_WRITE
    with st o ns have pb: "dd_target_populate_buffer L e i ?F = Inr D'"
      by (simp add: dd_complete_poll_def dd_target_seek_def)
    have pos: "in_pos ?F = in_pos D"
      by (simp add: in_pos_def)
    have "geo_inv D (F - {i})"
      using inv by (rule geo_drop) blast
    then have "geo_inv ?F (F - {i})"
      by (rule geo_keep [OF _ sr(2) pos, where cs = "[]"]) (use inv in \<open>auto simp: geo_inv_def\<close>)
    note pc = populate_copy [OF this lib _ il(2) pb ok, unfolded new]
    have "data_inv inp out0 ?F (F - {i}) (dn - {i}) M" if "data_inv inp out0 D F dn M" "i \<in> dn" for inp out0 dn M
      by (rule data_keep [OF data_drop [OF that(1)] sr(2) pos])
        (use DD_WRITE that(2) in \<open>simp_all add: written_def\<close>)
    with pc show ?thesis by blast
  qed
qed

text \<open>A completion after ticks, with the units in flight as a list.\<close>

lemma frame_stopped: "frame D D' \<Longrightarrow> stopped D \<Longrightarrow> stopped D'"
  by (auto simp: frame_def stopped_def)

lemma completion_copy:
  assumes ticks: "(dd_tick L)\<^sup>*\<^sup>* D D0" and i: "i \<in> set fl"
    and st: "dd_complete_poll L e i (note_error err D0) = Inr D'"
    and inv: "dd_inv n (D, fl)" and lib: "dd_lib_ok L" and dense: "\<not> sparse (ds_opts D)" and ok: "\<not> stopped D'"
  defines "fl' \<equiv> remove1 i fl @ submitted (new_calls D D')"
  shows "\<not> stopped D" and "geo_inv D (set fl) \<Longrightarrow> geo_inv D' (set fl')"
    and "geo_inv D (set fl) \<Longrightarrow> fl' = [] \<Longrightarrow> in_pos D' = in_lo D' + region_len D'"
    and "geo_inv D (set fl) \<Longrightarrow> data_inv inp out0 D (set fl) dn M \<Longrightarrow> i \<in> dn \<Longrightarrow>
      data_inv inp out0 D' (set fl') (dn - {i}) M"
proof -
  let ?E = "note_error err D0"
  have calm: "calm D ?E"
    using calm_trans [OF ticks_calm [OF ticks] note_error_calm] .
  have E: "\<not> sparse (ds_opts ?E)" "i < length (ds_ios ?E)"
    using calm inv dense i by (auto simp: calm_def dd_inv_def)
  have h: "handled i (?E\<lparr>ds_outstanding := ds_outstanding ?E - 1\<rparr>) D'"
    using complete_effect [OF st dense_sync [OF E(1)] E(2)] by simp
  have "\<not> stopped ?E"
    using h ok frame_stopped [of "?E\<lparr>ds_outstanding := ds_outstanding ?E - 1\<rparr>" D']
    by (auto simp: handled_def stopped_def)
  then show ns: "\<not> stopped D"
    using calm by (auto simp: calm_def)
  obtain cs cs' where cs: "ds_calls ?E = ds_calls D @ cs" "submitted cs = []" "ds_calls D' = ds_calls ?E @ cs'"
    "\<forall>c \<in> set cs. \<forall>j. \<not> submit_of j c"
    using calm h by (auto simp: calm_def handled_def)
  have new: "submitted (new_calls D D') = submitted (new_calls ?E D')"
    using cs by (simp add: new_calls_def)
  have set: "set fl' = set fl - {i} \<union> set (submitted (new_calls ?E D'))"
    using inv by (simp add: fl'_def new dd_inv_def)
  have sr: "same_region D ?E" and pos: "in_pos ?E = in_pos D" and ios: "ds_ios ?E = ds_ios D"
    using same_region_calm [OF calm] calm by (simp_all add: calm_def in_pos_def)
  have geo: "geo_inv ?E (set fl)" if "geo_inv D (set fl)"
    by (rule geo_keep [OF that sr pos _ cs(1)]) (use that ios cs(4) in \<open>auto simp: geo_inv_def\<close>)
  note cc = complete_copy [OF geo lib i E(1) st ok]
  show "geo_inv D' (set fl')" if "geo_inv D (set fl)"
    using cc [OF that] by (simp add: set)
  show "in_pos D' = in_lo D' + region_len D'" if "geo_inv D (set fl)" "fl' = []"
    using cc [OF that(1)] that(2) new by (simp add: fl'_def)
  show "data_inv inp out0 D' (set fl') (dn - {i}) M"
    if "geo_inv D (set fl)" "data_inv inp out0 D (set fl) dn M" "i \<in> dn"
    using cc [OF that(1)] data_keep [OF that(2) sr pos] that(3) ios by (simp add: set)
qed

section \<open>Runs\<close>

text \<open>The invariants hold along a run until an error or an interruption.\<close>

definition run_copy :: "dd_job \<Rightarrow> nat list \<Rightarrow> bool" where
  "run_copy D fl \<longleftrightarrow>
     stopped D \<or> geo_inv D (set fl) \<and> (fl = [] \<longrightarrow> in_pos D = in_lo D + region_len D)"

definition run_data :: "buf \<Rightarrow> buf \<Rightarrow> dd_job \<Rightarrow> nat list \<Rightarrow> nat set \<Rightarrow> dd_data \<Rightarrow> bool" where
  "run_data inp out0 D fl dn M \<longleftrightarrow> run_copy D fl \<and> (stopped D \<or> data_inv inp out0 D (set fl) dn M)"

lemma step_copy:
  assumes st: "dd_step L (D, fl) (D', fl')" and inv: "dd_inv n (D, fl)" and lib: "dd_lib_ok L"
    and dense: "\<not> sparse (ds_opts D)" and cp: "run_copy D fl"
  shows "run_copy D' fl'"
  using st
proof (cases rule: dd_step.cases)
  case (complete D0 i e err)
  show ?thesis
  proof (cases "stopped D'")
    case False
    note c = completion_copy [OF complete(2-4) inv lib dense False]
    show ?thesis
      using c(1-3) cp complete(1) by (auto simp: run_copy_def)
  qed (simp add: run_copy_def)
qed

lemma io_step_step:
  "dd_io_step L inp (D, fl, dn, M) (D', fl', dn', M') \<Longrightarrow> D' = D \<and> fl' = fl \<or> dd_step L (D, fl) (D', fl')"
  by (auto elim!: dd_io_step.cases intro: dd_step.complete)

lemma io_step_data:
  assumes st: "dd_io_step L inp (D, fl, dn, M) (D', fl', dn', M')" and inv: "dd_inv n (D, fl)" and lib: "dd_lib_ok L"
    and dense: "\<not> sparse (ds_opts D)" and cp: "run_data inp out0 D fl dn M"
  shows "run_data inp out0 D' fl' dn' M'"
  using st
proof (cases rule: dd_io_step.cases)
  case (carried i)
  show ?thesis
  proof (cases "stopped D")
    case False
    then have d: "geo_inv D (set fl)" "data_inv inp out0 D (set fl) dn M"
      using cp by (auto simp: run_data_def run_copy_def)
    have "data_inv inp out0 D (set fl) dn' M'"
      using carry_reads [OF d carried(5,6)] carry_write [OF d carried(5,6)] carried(3,4)
      by (cases "dio_type (ds_ios D ! i) = DD_WRITE") auto
    with cp carried(1,2) show ?thesis
      by (simp add: run_data_def)
  qed (use cp carried(1,2) in \<open>simp add: run_data_def\<close>)
next
  case (completed D0 i e err)
  have "run_copy D' fl'"
    using step_copy [OF _ inv lib dense] dd_step.complete [OF completed(4,5,7)] completed(1) cp
    by (simp add: run_data_def)
  moreover have "data_inv inp out0 D' (set fl') dn' M'" if ok: "\<not> stopped D'"
  proof -
    note c = completion_copy [OF completed(4,5,7) inv lib dense ok]
    have "geo_inv D (set fl)" "data_inv inp out0 D (set fl) dn M"
      using cp c(1) by (auto simp: run_data_def run_copy_def)
    from c(4) [OF this completed(6)] completed(1-3) show ?thesis by simp
  qed
  ultimately show ?thesis
    by (auto simp: run_data_def)
qed

lemma start_copy:
  assumes "start_units L es i D = Inr D'" and "stopped D \<or> geo_inv D (set fl)" and "dd_lib_ok L"
    and "dd_inv n (D, fl)" and "i + length es \<le> n" and "\<forall>j \<in> set fl. j < i" and "es \<noteq> []"
    and "\<not> sparse (ds_opts D)"
  shows "run_copy D' (fl @ submitted (new_calls D D')) \<and>
    (\<forall>inp out0 M. stopped D \<or> data_inv inp out0 D (set fl) {} M \<longrightarrow>
       run_data inp out0 D' (fl @ submitted (new_calls D D')) {} M)"
  using assms
proof (induction es arbitrary: i D fl)
  case (Cons e es)
  then obtain D1 where D1: "dd_target_seek L e i D = Inr D1" "start_units L es (Suc i) D1 = Inr D'"
    by auto
  have i: "i < n" "i < length (ds_ios D)" "i \<notin> set fl"
    using Cons.prems by (auto simp: dd_inv_def)
  have pb: "dd_target_populate_buffer L e i D = Inr D1"
    using D1(1) Cons.prems(8) by (simp add: dd_target_seek_def)
  have h: "handled i D D1"
    using populate_effect [OF pb i(2)] by blast
  let ?fl = "fl @ submitted (new_calls D D1)"
  obtain cs where cs: "ds_calls D1 = ds_calls D @ cs" "new_calls D D1 = cs"
    using h by (auto simp: handled_def new_calls_def)
  have inv1: "dd_inv n (D1, ?fl)"
    using handled_inv [OF h Cons.prems(4) i(1,3)] by blast
  have ns: "\<not> stopped D" if "\<not> stopped D1"
    using that h frame_stopped by (auto simp: handled_def)
  note pc = populate_copy [OF _ Cons.prems(3) i(3,2) pb]
  have d1: "stopped D1 \<or> data_inv inp out0 D1 (set ?fl) {} M"
    if "stopped D \<or> data_inv inp out0 D (set fl) {} M" for inp out0 M
    using pc Cons.prems(2) ns that by auto
  have cp1: "stopped D1 \<or> geo_inv D1 (set ?fl)"
    and end1: "stopped D1 \<or> (submitted (new_calls D D1) = [] \<longrightarrow> in_pos D1 = in_lo D1 + region_len D1)"
    using pc Cons.prems(2) ns by auto
  show ?case
  proof (cases "es = []")
    case True
    with D1(2) cp1 end1 d1 show ?thesis by (auto simp: run_copy_def run_data_def)
  next
    case False
    have lt: "\<forall>j \<in> set ?fl. j < Suc i"
      using handled_new [OF h] Cons.prems(6) by auto
    have dense: "\<not> sparse (ds_opts D1)"
      using h Cons.prems(8) by (simp add: handled_def frame_def)
    note ih = Cons.IH [OF D1(2) cp1 Cons.prems(3) inv1 _ lt False dense]
    obtain cs' where "ds_calls D' = ds_calls D1 @ cs'"
      using start_inv [OF D1(2) inv1 _ lt False] Cons.prems(5) by auto
    then have "?fl @ submitted (new_calls D1 D') = fl @ submitted (new_calls D D')"
      using cs by (simp add: new_calls_def)
    with ih Cons.prems(5) have "run_copy D' (fl @ submitted (new_calls D D'))"
      "\<And>inp out0 M. stopped D1 \<or> data_inv inp out0 D1 (set ?fl) {} M \<Longrightarrow>
         run_data inp out0 D' (fl @ submitted (new_calls D D')) {} M"
      by (metis add_Suc_right add_Suc_shift length_Cons)+
    with d1 show ?thesis by blast
  qed
qed simp

text \<open>A job at the start of its region, with a unit of full length for each turn.\<close>

definition at_start :: "dd_job \<Rightarrow> bool" where
  "at_start D \<longleftrightarrow> region_ok D \<and> in_pos D = in_lo D \<and> 0 < unit_len D \<and> \<not> sparse (ds_opts D) \<and>
     (\<forall>io \<in> set (ds_ios D). io_len io = unit_len D)"

lemma at_start_geo: "at_start D \<Longrightarrow> geo_inv D {}"
  by (auto simp: at_start_def geo_inv_def region_ok_def)

lemma ready_copy:
  assumes "dd_ready D es" and "start_units L es 0 D = Inr D1" and "dd_lib_ok L" and "at_start D"
  shows "run_copy D1 (submitted (new_calls D D1))"
    and "run_data inp (dt_out M) D1 (submitted (new_calls D D1)) {} M"
proof -
  have geo: "geo_inv D (set [])"
    using at_start_geo [OF assms(4)] by simp
  have inv: "dd_inv (length (ds_ios D)) (D, [])"
    using assms(1) by (auto simp: dd_ready_def dd_inv_def)
  have "data_inv inp (dt_out M) D {} {} M"
    using assms(4) by (auto simp: data_inv_def at_start_def)
  with start_copy [OF assms(2) disjI2 [OF geo] assms(3) inv] assms(1,4)
  show "run_copy D1 (submitted (new_calls D D1))"
    and "run_data inp (dt_out M) D1 (submitted (new_calls D D1)) {} M"
    by (auto simp: dd_ready_def at_start_def)
qed

lemma step_region:
  assumes "dd_step L (D, fl) (D', fl')" and inv: "dd_inv n (D, fl)"
  shows "same_region D D'"
  using assms(1)
proof (cases rule: dd_step.cases)
  case (complete D0 i e err)
  have calm: "calm D (note_error err D0)"
    using calm_trans [OF ticks_calm [OF complete(2)] note_error_calm] .
  then have "sync_seek (note_error err D0)" "i < length (ds_ios (note_error err D0))"
    using inv complete(3) by (auto simp: calm_def dd_inv_def sync_seek_def)
  from complete_effect [OF complete(4) this] calm show ?thesis
    by (simp add: handled_def frame_def calm_def same_region_def)
qed

section \<open>Requests fit\<close>

text \<open>
  A request that was accepted fits the buffer of its unit, and lies inside the region of its device, up to
  the padding of the last block.
\<close>

fun fits :: "dd_job \<Rightarrow> dd_call \<Rightarrow> bool" where
  "fits D (Dd_submit i ty be off len rc) =
     (rc \<noteq> 0 \<or> unat len \<le> unit_len D \<and>
        (if ty = DD_READ then in_lo D \<le> unat off \<and> unat off + unat len \<le> in_lo D + region_len D
         else out_lo D \<le> unat off \<and> unat off + unat len < out_lo D + region_len D + out_bs D))"
| "fits D _ = True"

definition all_fit :: "dd_job \<Rightarrow> bool" where
  "all_fit D \<longleftrightarrow> (\<forall>c \<in> set (ds_calls D). fits D c)"

lemma fits_cong: "same_region D D' \<Longrightarrow> fits D' c = fits D c"
  using same_region_simps [of D D'] by (cases c) simp_all

lemma unit_request_fits:
  assumes "geo_inv D F" and "i \<in> F" and "last_request i (ds_calls D) = Some (ty, unat off, unat len)"
  shows "fits D (Dd_submit i ty be off len rc)"
proof -
  let ?io = "ds_ios D ! i"
  have r: "region_ok D" "unit_ok D ?io" "in_pos D \<le> in_lo D + region_len D" "unit_request D ?io = (ty, unat off, unat len)"
    using assms by (auto simp: geo_inv_def)
  have u: "in_lo D \<le> io_off ?io" "io_len ?io \<le> unit_len D" "io_off ?io + io_len ?io \<le> in_lo D + region_len D"
    using r(2,3) by (auto simp: unit_ok_def)
  have b: "0 < out_bs D" "unit_len D mod out_bs D = 0"
    using r(1) by (simp_all add: region_ok_def)
  have "round_up (out_bs D) (io_len ?io) \<le> unit_len D" "round_up (out_bs D) (io_len ?io) < io_len ?io + out_bs D"
    using round_up_within [OF b(1) u(2) b(2)] round_up_bounds(2) [OF b(1)] by simp_all
  with r(4) u show ?thesis
    by (auto simp: unit_request_def out_place_def split: if_splits)
qed

lemma accepted_last:
  assumes "submitted cs = [i]" and "Dd_submit j ty be off len 0 \<in> set cs"
  shows "j = i" and "last_request i (cs0 @ cs) = Some (ty, unat off, unat len)"
proof -
  obtain xs ys where cs: "cs = xs @ Dd_submit j ty be off len 0 # ys"
    using assms(2) by (meson split_list)
  with assms(1) show i: "j = i"
    by (auto simp: append_eq_Cons_conv)
  have "first_request i (zs @ us) = first_request i us" if "submitted zs = []" for zs us
    using that by (induction zs rule: submitted.induct) (auto split: if_splits)
  moreover have "submitted (rev zs) = []" if "submitted zs = []" for zs
    using that by (induction zs rule: submitted.induct) (auto split: if_splits)
  moreover have "submitted ys = []"
    using assms(1) cs by (auto simp: append_eq_Cons_conv)
  ultimately show "last_request i (cs0 @ cs) = Some (ty, unat off, unat len)"
    by (simp add: last_request_def cs i)
qed

lemma handled_fits:
  assumes h: "handled i D D'" and fit: "all_fit D"
    and geo: "\<not> stopped D' \<Longrightarrow> \<exists>F. geo_inv D' F \<and> set (submitted (new_calls D D')) \<subseteq> F"
  shows "all_fit D'"
proof -
  obtain cs where cs: "ds_calls D' = ds_calls D @ cs" "new_calls D D' = cs"
    using h by (auto simp: handled_def new_calls_def)
  have sr: "same_region D D'"
    using h by (auto simp: handled_def intro: same_region_frame)
  have "fits D' (Dd_submit j ty be off len 0)" if c: "Dd_submit j ty be off len 0 \<in> set cs" for j ty be off len
  proof -
    have "submitted cs \<noteq> []"
      using c by (induction cs rule: submitted.induct) auto
    with handled_new [OF h] have s: "submitted cs = [i]" "\<not> stopped D'"
      by (auto simp: cs(2))
    then obtain F where F: "geo_inv D' F" "i \<in> F"
      using geo by (auto simp: cs(2))
    from unit_request_fits [OF F] accepted_last [OF s(1) c] show ?thesis
      by (simp add: cs(1))
  qed
  then have "fits D' c" if "c \<in> set cs" for c
    using that by (cases c) (auto; metis)+
  with fit cs(1) fits_cong [OF sr] show ?thesis
    by (auto simp: all_fit_def)
qed

lemma start_fits:
  assumes "start_units L es i D = Inr D'" and "stopped D \<or> geo_inv D (set fl)" and "dd_lib_ok L"
    and "dd_inv n (D, fl)" and "i + length es \<le> n" and "\<forall>j \<in> set fl. j < i"
    and "\<not> sparse (ds_opts D)" and "all_fit D"
  shows "all_fit D'"
  using assms
proof (induction es arbitrary: i D fl)
  case (Cons e es)
  then obtain D1 where D1: "dd_target_seek L e i D = Inr D1" "start_units L es (Suc i) D1 = Inr D'"
    by auto
  have i: "i < n" "i < length (ds_ios D)" "i \<notin> set fl"
    using Cons.prems by (auto simp: dd_inv_def)
  have pb: "dd_target_populate_buffer L e i D = Inr D1"
    using D1(1) Cons.prems(7) by (simp add: dd_target_seek_def)
  have h: "handled i D D1"
    using populate_effect [OF pb i(2)] by blast
  let ?fl = "fl @ submitted (new_calls D D1)"
  have ns: "\<not> stopped D" if "\<not> stopped D1"
    using that h frame_stopped by (auto simp: handled_def)
  have cp1: "stopped D1 \<or> geo_inv D1 (set ?fl)"
    using populate_copy [OF _ Cons.prems(3) i(3,2) pb] Cons.prems(2) ns by auto
  have fit: "all_fit D1"
  proof (rule handled_fits [OF h Cons.prems(8)])
    show "\<exists>F. geo_inv D1 F \<and> set (submitted (new_calls D D1)) \<subseteq> F" if "\<not> stopped D1"
      using cp1 that by (intro exI [of _ "set ?fl"]) simp
  qed
  show ?case
  proof (rule Cons.IH [OF D1(2) cp1 Cons.prems(3) _ _ _ _ fit])
    show "dd_inv n (D1, ?fl)"
      using handled_inv [OF h Cons.prems(4) i(1,3)] by blast
    show "Suc i + length es \<le> n" "\<forall>j \<in> set ?fl. j < Suc i"
      using handled_new [OF h] Cons.prems(5,6) by auto
    show "\<not> sparse (ds_opts D1)"
      using h Cons.prems(7) by (simp add: handled_def frame_def)
  qed
qed simp

lemma step_fits:
  assumes st: "dd_step L (D, fl) (D', fl')" and inv: "dd_inv n (D, fl)" and lib: "dd_lib_ok L"
    and dense: "\<not> sparse (ds_opts D)" and cp: "run_copy D fl" and fit: "all_fit D"
  shows "all_fit D'"
  using st
proof (cases rule: dd_step.cases)
  case (complete D0 i e err)
  let ?E = "note_error err D0"
  have calm: "calm D ?E"
    using calm_trans [OF ticks_calm [OF complete(2)] note_error_calm] .
  then obtain cs where cs: "ds_calls ?E = ds_calls D @ cs" "\<forall>c \<in> set cs. \<forall>j. \<not> submit_of j c" "submitted cs = []"
    by (auto simp: calm_def)
  have "fits ?E c" if "c \<in> set cs" for c
    using cs(2) that by (cases c) auto
  then have fE: "all_fit (?E\<lparr>ds_outstanding := ds_outstanding ?E - 1\<rparr>)"
    using fit cs(1) fits_cong [OF same_region_calm [OF calm]]
      fits_cong [of ?E "?E\<lparr>ds_outstanding := ds_outstanding ?E - 1\<rparr>"]
    by (auto simp: all_fit_def same_region_def)
  have E: "sync_seek ?E" "i < length (ds_ios ?E)"
    using calm inv complete(3) dense by (auto simp: calm_def dd_inv_def sync_seek_def)
  have h: "handled i (?E\<lparr>ds_outstanding := ds_outstanding ?E - 1\<rparr>) D'"
    using complete_effect [OF complete(4) E] by simp
  show ?thesis
  proof (rule handled_fits [OF h fE])
    show "\<exists>F. geo_inv D' F \<and> set (submitted (new_calls (?E\<lparr>ds_outstanding := ds_outstanding ?E - 1\<rparr>) D')) \<subseteq> F"
      if ok: "\<not> stopped D'"
    proof (intro exI conjI)
      show "geo_inv D' (set fl')"
        using step_copy [OF st inv lib dense cp] ok by (simp add: run_copy_def)
      obtain cs' where "ds_calls D' = ds_calls ?E @ cs'"
        using h by (auto simp: handled_def)
      then show "set (submitted (new_calls (?E\<lparr>ds_outstanding := ds_outstanding ?E - 1\<rparr>) D')) \<subseteq> set fl'"
        using complete(1) cs(1,3) by (simp add: new_calls_def)
    qed
  qed
qed

lemma run_fits:
  assumes "dd_ready D es" and "start_units L es 0 D = Inr D1" and "dd_lib_ok L" and "at_start D" and "all_fit D"
    and "(dd_step L ^^ k) (D1, submitted (new_calls D D1)) (D2, fl)"
  shows "all_fit D2 \<and> same_region D D2"
proof -
  let ?n = "length (ds_ios D)"
  have inv: "dd_inv ?n (D, [])"
    using assms(1) by (auto simp: dd_ready_def dd_inv_def)
  have "all_fit D1"
    using start_fits [OF assms(2) _ assms(3) inv] at_start_geo [OF assms(4)] assms(1,4,5)
    by (simp add: dd_ready_def at_start_def)
  have sr1: "same_region D D1"
    using start_frame [OF assms(2)] assms(1) by (simp add: dd_ready_def same_region_frame)
  define s where "s = (D1, submitted (new_calls D D1))"
  have "(dd_step L ^^ k) s t \<Longrightarrow> all_fit (fst t) \<and> run_copy (fst t) (snd t) \<and> same_region D (fst t)" for t
  proof (induction k arbitrary: t)
    case 0
    with \<open>all_fit D1\<close> ready_copy(1) [OF assms(1-4)] sr1 show ?case by (auto simp: s_def)
  next
    case (Suc k)
    then obtain u where u: "(dd_step L ^^ k) s u" "dd_step L u t"
      by auto
    note r = ready_run [OF assms(1,2) u(1) [unfolded s_def]]
    have dense: "\<not> sparse (ds_opts (fst u))"
      using r(4) assms(4) by (simp add: at_start_def)
    have st: "dd_step L (fst u, snd u) (fst t, snd t)"
      using u(2) by simp
    have i: "dd_inv ?n (fst u, snd u)"
      using r(2) by simp
    have ih: "all_fit (fst u)" "run_copy (fst u) (snd u)" "same_region D (fst u)"
      using Suc.IH [OF u(1)] by blast+
    have "same_region (fst u) (fst t)"
      by (rule step_region [OF st i])
    with ih step_fits [OF st i assms(3) dense ih(2,1)] step_copy [OF st i assms(3) dense ih(2)] show ?case
      by (simp add: same_region_def)
  qed
  from this [of "(D2, fl)"] assms(6) show ?thesis
    by (simp add: s_def)
qed

section \<open>The data at the end\<close>

lemma io_run_data:
  assumes "(dd_io_step L inp)\<^sup>*\<^sup>* s t" and "dd_inv n (fst s, fst (snd s))" and "dd_lib_ok L"
    and "\<not> sparse (ds_opts (fst s))" and "run_data inp out0 (fst s) (fst (snd s)) (fst (snd (snd s))) (snd (snd (snd s)))"
  shows "dd_inv n (fst t, fst (snd t)) \<and> ds_opts (fst t) = ds_opts (fst s) \<and> same_region (fst s) (fst t) \<and>
    run_data inp out0 (fst t) (fst (snd t)) (fst (snd (snd t))) (snd (snd (snd t)))"
  using assms(1)
proof (induction rule: rtranclp_induct)
  case base
  with assms show ?case by (simp add: same_region_def)
next
  case (step u v)
  obtain D fl dn M D' fl' dn' M' where uv: "u = (D, fl, dn, M)" "v = (D', fl', dn', M')"
    by (metis surj_pair)
  note ih = step.IH [unfolded uv, simplified]
  have st: "dd_io_step L inp (D, fl, dn, M) (D', fl', dn', M')"
    using step.hyps(2) by (simp add: uv)
  have dense: "\<not> sparse (ds_opts D)"
    using ih assms(4) by simp
  have "dd_inv n (D', fl') \<and> ds_opts D' = ds_opts D \<and> same_region D D'"
    using io_step_step [OF st]
  proof
    assume "D' = D \<and> fl' = fl"
    with ih show ?thesis by (simp add: same_region_def)
  next
    assume ds: "dd_step L (D, fl) (D', fl')"
    with step_inv [OF ds] step_region [OF ds] ih show ?thesis
      by (auto simp: same_region_def)
  qed
  moreover have "run_data inp out0 D' fl' dn' M'"
    using io_step_data [OF st _ assms(3) dense, of n out0] ih by blast
  ultimately show ?case
    using ih by (simp add: uv same_region_def)
qed

text \<open>
  A run that ends with nothing in flight, without error and interruption, has copied the region and
  nothing else.
\<close>

lemma run_copies:
  assumes "dd_ready D es" and "start_units L es 0 D = Inr D1" and "dd_lib_ok L" and "at_start D"
    and "(dd_io_step L inp)\<^sup>*\<^sup>* (D1, submitted (new_calls D D1), {}, M) (D2, [], dn, M2)"
    and "ds_error D2 = 0" and "\<not> ds_interrupt D2"
  shows "dt_out M2 x = (if out_lo D \<le> x \<and> x < out_lo D + region_len D then inp (in_lo D + (x - out_lo D)) else dt_out M x)"
proof -
  let ?n = "length (ds_ios D)"
  have r0: "(dd_step L ^^ 0) (D1, submitted (new_calls D D1)) (D1, submitted (new_calls D D1))"
    by simp
  note rr = ready_run [OF assms(1,2) r0]
  have dense: "\<not> sparse (ds_opts D1)"
    using rr(4) assms(4) by (simp add: at_start_def)
  from io_run_data [OF assms(5), of ?n "dt_out M"] rr(1) assms(3) dense ready_copy(2) [OF assms(1-4)]
  have e: "same_region D1 D2" "run_data inp (dt_out M) D2 [] dn M2"
    by simp_all
  have "same_region D D1"
    using start_frame [OF assms(2)] assms(1) by (simp add: dd_ready_def same_region_frame)
  note s = same_region_simps [OF e(1)] same_region_simps [OF this]
  have d: "data_inv inp (dt_out M) D2 {} dn M2" "in_pos D2 = in_lo D + region_len D"
    using e(2) assms(6,7) by (auto simp: run_data_def run_copy_def stopped_def s)
  show ?thesis
  proof (cases "out_lo D \<le> x \<and> x < out_lo D + region_len D")
    case True
    let ?y = "in_lo D + (x - out_lo D)"
    have "in_lo D2 \<le> ?y" "?y < in_pos D2"
      using d(2) True by (auto simp: s)
    then have "dt_out M2 (out_place D2 ?y) = inp ?y"
      using d(1) unfolding data_inv_def by blast
    with True show ?thesis
      by (simp add: out_place_def s)
  next
    case False
    then have "dt_out M2 x = dt_out M x"
      using d(1) by (auto simp: data_inv_def s)
    with False show ?thesis by auto
  qed
qed

end
