(* ===== verification/Dd_Tool.thy ===== *)
theory Dd_Tool
  imports Dd_Stages Dd_Copy
begin

text \<open>
  The copy tool from its command line to its end: the queue has a positive depth, a run copies what the
  command line asks for, the flags mean what they say.
\<close>

section \<open>The depth of the queue\<close>

lemma unit_word_exact:
  assumes "0 < z" and "z < 2 ^ 63"
  shows "unat (word_of_int z :: u64) = nat z"
proof -
  have "uint (word_of_int z :: u64) = z"
    using assms by (simp add: unsigned_of_int take_bit_int_eq_self)
  then have "int (unat (word_of_int z :: u64)) = z"
    by simp
  then show ?thesis by linarith
qed

lemma limit_by_size_pos:
  assumes "limit_by_size L n skip opts = Inr opts'" and "dd_lib_ok L" and "0 < queue_depth opts"
    and unit: "0 < io_unit_size opts" "io_unit_size opts < 2 ^ 63"
    and "unat skip * nat (io_unit_size opts) \<le> unat n" and "unat n < 2 ^ 63"
  shows "0 < queue_depth opts'"
proof -
  let ?u = "word_of_int (io_unit_size opts) :: u64"
  let ?left = "n div ?u - skip + 1"
  let ?m = "min (ucast (queue_depth opts)) ?left"
  have o: "opts' = opts\<lparr>queue_depth := ucast ?m\<rparr>"
    using assms(1,2) by (auto simp: limit_by_size_def Let_def dd_lib_ok_def split: if_splits)
  have q: "unat (n div ?u) = unat n div nat (io_unit_size opts)"
    using unit by (simp add: unat_div unit_word_exact)
  then have le: "skip \<le> n div ?u"
    using assms(6) unit(1) by (simp add: word_le_nat_alt less_eq_div_iff_mult_less_eq)
  have "unat (n div ?u) < 2 ^ 63"
    using q assms(7) by (metis div_le_dividend order_le_less_trans)
  then have "unat (n div ?u - skip) < 2 ^ 63"
    using le by (simp add: unat_sub)
  then have "unat ?left = unat (n div ?u - skip) + 1"
    using unat_add_exact [of "n div ?u - skip" 1] by simp
  then have "0 < unat ?m"
    using assms(3) by (auto simp: min_def word_less_nat_alt)
  moreover have "unat ?m < 2 ^ 32"
    using unsigned_less [of "queue_depth opts", where 'a = nat] by (auto simp: min_def word_le_nat_alt)
  ultimately have "0 < unat (ucast ?m :: u32)"
    by (simp add: unsigned_ucast_eq take_bit_nat_eq_self)
  then show ?thesis
    by (simp add: o word_less_nat_alt)
qed

lemma limit_by_count_pos:
  assumes "dd_lib_ok L" and "0 < queue_depth opts" and "0 \<le> io_unit_count opts"
  shows "0 < queue_depth (limit_by_count L opts)"
proof -
  let ?m = "min (uint (queue_depth opts)) (io_unit_count opts)"
  have m: "?m < 2 ^ 32"
    using unsigned_less [of "queue_depth opts", where 'a = int] by (simp add: min_less_iff_disj)
  have "0 < ?m" if "io_unit_count opts \<noteq> 0"
    using assms(2,3) that by (simp add: word_less_def)
  then have "0 < uint (word_of_int ?m :: u32)" if "io_unit_count opts \<noteq> 0"
    using m that by (simp add: unsigned_of_int take_bit_int_eq_self)
  with assms(1,2) show ?thesis
    by (auto simp: limit_by_count_def dd_lib_ok_def word_less_def)
qed

text \<open>A target that is opened keeps the depth positive when the region starts inside it.\<close>

definition starts_inside :: "u64 \<Rightarrow> spdk_dd_opts \<Rightarrow> dd_target \<Rightarrow> bool" where
  "starts_inside skip opts t \<longleftrightarrow>
     unat skip * nat (io_unit_size opts) \<le> unat (tg_total_size t) \<and> unat (tg_total_size t) < 2 ^ 63"

definition opts_ok :: "spdk_dd_opts \<Rightarrow> bool" where
  "opts_ok opts \<longleftrightarrow> 0 < io_unit_size opts \<and> io_unit_size opts < 2 ^ 63 \<and> 0 \<le> io_unit_count opts"

lemma open_bdev_depth:
  assumes "dd_open_bdev L E name skip t D = Inr (rc, t', D')" and "0 \<le> rc" and "dd_lib_ok L"
    and "0 < queue_depth (ds_opts D)" and "opts_ok (ds_opts D)" and "starts_inside skip (ds_opts D) t'"
  shows "0 < queue_depth (ds_opts D')"
proof -
  obtain rc0 desc where b: "s_bdev_open E name = (rc0, desc)"
    by fastforce
  with assms(1,2) obtain opts where
    o: "limit_by_size L (tg_total_size t') skip (ds_opts D) = Inr opts"
    and D': "ds_opts D' = limit_by_count L opts"
    by (auto simp: dd_open_bdev_def Let_def split: if_splits)
  have "request opts = request (ds_opts D)"
    using limit_by_size_effect [OF o assms(3)] by blast
  moreover have "0 < queue_depth opts"
    using limit_by_size_pos [OF o assms(3,4)] assms(5,6) by (simp add: opts_ok_def starts_inside_def)
  ultimately show ?thesis
    unfolding D' using assms(3,5) request_fields(8) [of opts "ds_opts D"]
    by (intro limit_by_count_pos) (simp_all add: opts_ok_def)
qed

lemma open_output_file_depth:
  assumes "dd_open_file L E fname flags skip False t D = Inr (rc, t', D')" and "0 \<le> rc" and "dd_lib_ok L"
    and "0 < queue_depth (ds_opts D)" and "opts_ok (ds_opts D)"
  shows "0 < queue_depth (ds_opts D')"
  using assms
  by (auto simp: dd_open_file_def Let_def opts_ok_def split: if_splits intro!: limit_by_count_pos)

lemma open_input_file_depth:
  assumes "dd_open_file L E fname flags skip True t D = Inr (rc, t', D')" and "0 \<le> rc" and "dd_lib_ok L"
    and "0 < queue_depth (ds_opts D)" and "opts_ok (ds_opts D)" and "starts_inside skip (ds_opts D) t'"
  shows "0 < queue_depth (ds_opts D')"
proof -
  from assms(1,2) obtain opts where
    o: "limit_by_size L (tg_total_size t') skip (ds_opts D) = Inr opts"
    and D': "ds_opts D' = limit_by_count L opts"
    by (auto simp: dd_open_file_def Let_def split: if_splits)
  have "request opts = request (ds_opts D)"
    using limit_by_size_effect [OF o assms(3)] by blast
  moreover have "0 < queue_depth opts"
    using limit_by_size_pos [OF o assms(3,4)] assms(5,6) by (simp add: opts_ok_def starts_inside_def)
  ultimately show ?thesis
    unfolding D' using assms(3,5) request_fields(8) [of opts "ds_opts D"]
    by (intro limit_by_count_pos) (simp_all add: opts_ok_def)
qed

lemma run_input_depth:
  assumes "run_input L E D = Inr (True, D')" and "dd_lib_ok L"
    and "0 < queue_depth (ds_opts D)" and "opts_ok (ds_opts D)"
    and "starts_inside (input_offset (ds_opts D)) (ds_opts D) (ds_input D')"
  shows "0 < queue_depth (ds_opts D')"
proof (cases "input_file (ds_opts D)")
  case (Some f)
  obtain flags D1 where p: "parse_input_flags D = (flags, D1)" by fastforce
  with assms(1) Some obtain rc t D2 where
    o: "dd_open_file L E f flags (input_offset (ds_opts D)) True (ds_input D1) D1 = Inr (rc, t, D2)"
    and D': "0 \<le> rc" "D' = D2\<lparr>ds_input := t\<rparr>"
    by (auto simp: run_input_def Let_def go_on_ok split: if_splits)
  have q: "queue_depth (ds_opts D1) = queue_depth (ds_opts D)" "request (ds_opts D1) = request (ds_opts D)"
    using parse_input_flags_effect [OF p] keeps_request by blast+
  have "opts_ok (ds_opts D1)" "starts_inside (input_offset (ds_opts D)) (ds_opts D1) t"
    using assms(4,5) request_fields [OF q(2)] D'(2) by (simp_all add: opts_ok_def starts_inside_def)
  with open_input_file_depth [OF o D'(1) assms(2)] q(1) assms(3) D'(2) show ?thesis by simp
next
  case None
  show ?thesis
  proof (cases "input_bdev (ds_opts D)")
    case (Some b)
    with None assms(1) obtain rc t D2 where
      o: "dd_open_bdev L E b (input_offset (ds_opts D)) (ds_input D) D = Inr (rc, t, D2)"
      and D': "0 \<le> rc" "D' = D2\<lparr>ds_input := t\<rparr>"
      by (auto simp: run_input_def Let_def go_on_ok split: if_splits)
    from open_bdev_depth [OF o D'(1) assms(2-4)] assms(5) D'(2) show ?thesis by simp
  qed (use None assms(1,3) in \<open>simp add: run_input_def go_on_ok\<close>)
qed

lemma run_output_depth:
  assumes "run_output L E D = Inr (True, D')" and "dd_lib_ok L"
    and "0 < queue_depth (ds_opts D)" and "opts_ok (ds_opts D)"
    and "output_file (ds_opts D) = None \<longrightarrow> starts_inside (output_offset (ds_opts D)) (ds_opts D) (ds_output D')"
  shows "0 < queue_depth (ds_opts D')"
proof (cases "output_file (ds_opts D)")
  case (Some f)
  obtain flags D1 where p: "parse_output_flags D = (flags, D1)" by fastforce
  with assms(1) Some obtain rc t D2 where
    o: "dd_open_file L E f flags (output_offset (ds_opts D)) False (ds_output D1) D1 = Inr (rc, t, D2)"
    and D': "0 \<le> rc" "D' = D2\<lparr>ds_output := t\<rparr>"
    by (auto simp: run_output_def Let_def go_on_ok split: if_splits)
  have q: "queue_depth (ds_opts D1) = queue_depth (ds_opts D)" "request (ds_opts D1) = request (ds_opts D)"
    using parse_output_flags_effect [OF p] keeps_request by blast+
  have "opts_ok (ds_opts D1)"
    using assms(4) request_fields [OF q(2)] by (simp add: opts_ok_def)
  with open_output_file_depth [OF o D'(1) assms(2)] q(1) assms(3) D'(2) show ?thesis by simp
next
  case None
  show ?thesis
  proof (cases "output_bdev (ds_opts D)")
    case (Some b)
    with None assms(1) obtain rc t D2 where
      o: "dd_open_bdev L E b (output_offset (ds_opts D)) (ds_output D) D = Inr (rc, t, D2)"
      and D': "0 \<le> rc" "D' = D2\<lparr>ds_output := t\<rparr>"
      by (auto simp: run_output_def Let_def go_on_ok split: if_splits)
    from open_bdev_depth [OF o D'(1) assms(2-4)] assms(5) None D'(2) show ?thesis by simp
  qed (use None assms(1,3) in \<open>simp add: run_output_def go_on_ok\<close>)
qed

lemma setup_depth:
  assumes "dd_lib_ok L" and "main_check opts = 0" and su: "dd_setup L E (g_job opts) = Inr (True, D)"
    and "0 < queue_depth opts" and "io_unit_size opts < 2 ^ 63"
    and "starts_inside (input_offset opts) opts (ds_input D)"
    and "output_bdev opts \<noteq> None \<longrightarrow> starts_inside (output_offset opts) opts (ds_output D)"
  shows "0 < queue_depth (ds_opts D)"
proof -
  note mc = main_check_0 [OF assms(2)]
  from setup_stages [OF assms(1) su] obtain D1 D2 D3 D3' D4 D5 where
    st: "run_input L E (g_job opts) = Inr (True, D1)" "run_check_input D1 = Inr (True, D2)"
    "run_output L E D2 = Inr (True, D3)" "run_block_sizes D3 = Inr (True, D3')" "run_units E D3' = Inr (True, D4)"
    "run_backend E D4 = Inr (True, D5)" "run_prepare E D5 = Inr (True, D)"
    and req: "request (ds_opts D2) = request opts"
    by blast
  note q = back_stages [OF st(4-7)] and rf = request_fields [OF req]
  have o2: "ds_opts D2 = ds_opts D1" and i2: "tg_total_size (ds_input D2) = tg_total_size (ds_input D1)"
    by (rule check_input_True [OF st(2)]; simp)+
  have "ds_input D3 = ds_input D2"
    using run_output_True [OF st(3) assms(1)] mc(2) rf by simp
  then have t: "tg_total_size (ds_input D1) = tg_total_size (ds_input D)"
    "tg_total_size (ds_output D3) = tg_total_size (ds_output D)"
    using same_target_fields [OF q(1)] same_target_fields [OF q(2)] i2 by simp_all
  have g: "ds_opts (g_job opts) = opts"
    by (simp add: g_job_def)
  have u: "opts_ok opts"
    using mc assms(5) by (simp add: opts_ok_def)
  have "0 < queue_depth (ds_opts D1)"
    using run_input_depth [OF st(1) assms(1), unfolded g] assms(4,6) u t(1) by (simp add: starts_inside_def)
  then have "0 < queue_depth (ds_opts D3)"
    using run_output_depth [OF st(3) assms(1)] u rf o2 mc(2) assms(7) t(2)
    by (auto simp: starts_inside_def opts_ok_def)
  with q(3) show ?thesis by simp
qed

text \<open>The offsets of the request, without wrap-around.\<close>

lemma region_start_exact:
  assumes "opts_ok opts" and "request (ds_opts D) = request opts"
  shows "unat (input_offset opts) * nat (io_unit_size opts) < 2 ^ 64 \<Longrightarrow>
      unat (read_region_start D) = unat (input_offset opts) * nat (io_unit_size opts)"
    and "unat (output_offset opts) * nat (io_unit_size opts) < 2 ^ 64 \<Longrightarrow>
      unat (write_region_start D) = unat (output_offset opts) * nat (io_unit_size opts)"
  using request_fields [OF assms(2)] assms(1) unit_word_exact [of "io_unit_size opts"]
  by (simp_all add: read_region_start_def write_region_start_def opts_ok_def unat_mult_exact)

section \<open>The copy, from the command line on\<close>

text \<open>How many bytes the command line asks for, of an input of \<open>n\<close> bytes.\<close>

definition asked :: "spdk_dd_opts \<Rightarrow> nat \<Rightarrow> nat" where
  "asked opts n =
     (if io_unit_count opts \<noteq> 0 then nat (io_unit_count opts * io_unit_size opts)
      else n - unat (input_offset opts) * nat (io_unit_size opts))"

text \<open>The region of an input file; the tool checks that of a block device itself.\<close>

definition file_region :: "spdk_dd_opts \<Rightarrow> nat \<Rightarrow> bool" where
  "file_region opts n \<longleftrightarrow>
     unat (input_offset opts) * nat (io_unit_size opts) \<le> n \<and>
     unat (input_offset opts) * nat (io_unit_size opts) + asked opts n + 2 ^ 32 \<le> 2 ^ 64"

lemma tool_ready:
  assumes "dd_lib_ok L" and "main_check opts = 0" and "dd_setup L E (g_job opts) = Inr (True, D)"
    and "0 < queue_depth opts" and "io_unit_size opts < 2 ^ 63" and "\<not> sparse opts"
    and "input_bdev opts = None \<longrightarrow> file_region opts (unat (tg_total_size (ds_input D)))"
    and "unat (input_offset opts) * nat (io_unit_size opts) < 2 ^ 64"
    and "unat (output_offset opts) * nat (io_unit_size opts) < 2 ^ 64"
    and "unat (tg_total_size (ds_input D)) < 2 ^ 63" and "unat (tg_total_size (ds_output D)) < 2 ^ 63"
  shows "dd_ready D (start_envs E D)" and "tg_pos (ds_input D) = read_region_start D"
    and "\<forall>io \<in> set (ds_ios D). dio_length io \<noteq> 0"
    and "unat (read_region_start D) = unat (input_offset opts) * nat (io_unit_size opts)"
    and "unat (ds_copy_size D) = asked opts (unat (tg_total_size (ds_input D)))"
    and "unat (read_region_start D) + unat (ds_copy_size D) + 2 ^ 32 \<le> 2 ^ 64"
proof -
  have req: "request (ds_opts D) = request opts" and p: "prepared opts D"
    using setup_prepared [OF assms(1-3)] by blast+
  note rf = request_fields [OF req] and mc = main_check_0 [OF assms(2)]
  have u: "opts_ok opts"
    using mc assms(5) by (simp add: opts_ok_def)
  note ex = region_start_exact [OF u req]
  show s: "unat (read_region_start D) = unat (input_offset opts) * nat (io_unit_size opts)"
    using ex(1) assms(8) .
  from p obtain w where w: "write_size D = Inr w"
    "ds_copy_size D = (if io_unit_count opts \<noteq> 0 then w else tg_total_size (ds_input D) - tg_pos (ds_input D))"
    "input_bdev opts \<noteq> None \<longrightarrow> tg_pos (ds_input D) \<le> tg_total_size (ds_input D)"
    "output_bdev opts \<noteq> None \<longrightarrow> tg_pos (ds_output D) \<le> tg_total_size (ds_output D)"
    and pos: "tg_pos (ds_input D) = read_region_start D" "tg_pos (ds_output D) = write_region_start D"
    and ios: "length (ds_ios D) = unat (queue_depth (ds_opts D))" "ds_outstanding D = 0"
      "\<forall>io \<in> set (ds_ios D). dio_length io = word_of_int (io_unit_size opts)"
    unfolding prepared_def by blast
  have le: "tg_pos (ds_input D) \<le> tg_total_size (ds_input D)"
    using w(3) assms(7) s pos(1) by (auto simp: file_region_def word_le_nat_alt)
  note wb = write_size_bound [OF w(1), unfolded rf, OF mc(4,3)]
  have "0 < queue_depth (ds_opts D)"
    using setup_depth [OF assms(1-5)] le w(4) pos ex assms(8-11) by (simp add: starts_inside_def word_le_nat_alt)
  then show "dd_ready D (start_envs E D)"
    using ios assms(6) rf(10) unsigned_less [of "queue_depth (ds_opts D)", where 'a = nat]
    by (auto simp: dd_ready_def sync_seek_def start_envs_def word_less_nat_alt)
  show "tg_pos (ds_input D) = read_region_start D"
    by (rule pos(1))
  have "unat (word_of_int (io_unit_size opts) :: u64) \<noteq> 0"
    using unit_word_exact [OF mc(3) assms(5)] mc(3) by simp
  then have "(word_of_int (io_unit_size opts) :: u64) \<noteq> 0"
    by auto
  with ios(3) show "\<forall>io \<in> set (ds_ios D). dio_length io \<noteq> 0"
    by simp
  show c: "unat (ds_copy_size D) = asked opts (unat (tg_total_size (ds_input D)))"
    using w(2) le wb(1) pos(1) s by (simp add: asked_def unat_sub)
  show "unat (read_region_start D) + unat (ds_copy_size D) + 2 ^ 32 \<le> 2 ^ 64"
  proof (cases "input_bdev opts = None")
    case True
    with assms(7) s c show ?thesis by (simp add: file_region_def)
  next
    case False
    from input_inside [OF p req assms(2) False assms(10)] assms(10) show ?thesis by simp
  qed
qed

text \<open>
  A job that is ready to copy: units are whole output blocks of less than 4 GiB, and the output region
  ends 4 GiB before the end of the 64-bit address range or earlier.
\<close>

lemma tool_at_start:
  assumes "dd_lib_ok L" and "main_check opts = 0" and "dd_setup L E (g_job opts) = Inr (True, D)"
    and "0 < queue_depth opts" and "io_unit_size opts < 2 ^ 32" and "\<not> sparse opts"
    and "input_bdev opts = None \<longrightarrow> file_region opts (unat (tg_total_size (ds_input D)))"
    and "unat (input_offset opts) * nat (io_unit_size opts) < 2 ^ 64"
    and "unat (tg_total_size (ds_input D)) < 2 ^ 63" and "unat (tg_total_size (ds_output D)) < 2 ^ 63"
    and "unat (output_offset opts) * nat (io_unit_size opts) + asked opts (unat (tg_total_size (ds_input D))) + 2 ^ 32 \<le> 2 ^ 64"
    and "nat (io_unit_size opts) mod unat (tg_block_size (ds_output D)) = 0"
  shows "dd_ready D (start_envs E D)" and "at_start D"
    and "in_lo D = unat (input_offset opts) * nat (io_unit_size opts)"
    and "out_lo D = unat (output_offset opts) * nat (io_unit_size opts)"
    and "region_len D = asked opts (unat (tg_total_size (ds_input D)))"
proof -
  have small: "io_unit_size opts < 2 ^ 63" and out: "unat (output_offset opts) * nat (io_unit_size opts) < 2 ^ 64"
    using assms(5,11) by simp_all
  note r = tool_ready [OF assms(1-4) small assms(6-8) out assms(9,10)]
  have req: "request (ds_opts D) = request opts" and p: "prepared opts D"
    using setup_prepared [OF assms(1-3)] by blast+
  note rf = request_fields [OF req] and mc = main_check_0 [OF assms(2)]
  show "dd_ready D (start_envs E D)"
    by (rule r(1))
  have unit: "opts_ok opts" "unat (word_of_int (io_unit_size opts) :: u64) = nat (io_unit_size opts)"
    using mc small unit_word_exact [OF mc(3) small] by (simp_all add: opts_ok_def)
  show lo: "in_lo D = unat (input_offset opts) * nat (io_unit_size opts)"
    and ol: "out_lo D = unat (output_offset opts) * nat (io_unit_size opts)"
    and ln: "region_len D = asked opts (unat (tg_total_size (ds_input D)))"
    using r(4,5) region_start_exact(2) [OF unit(1) req out] by (simp_all add: in_lo_def out_lo_def region_len_def)
  have ul: "unit_len D = nat (io_unit_size opts)"
    using unit(2) rf by (simp add: unit_len_def)
  have bs: "0 < out_bs D" "unit_len D mod out_bs D = 0"
    using assms(12) mc(3) ul by (auto simp: out_bs_def intro!: gr0I)
  have "region_ok D"
    using bs ul assms(5,11) r(6) lo ol ln mc(3)
    by (simp add: region_ok_def in_lo_def region_len_def nat_less_iff)
  moreover have "\<forall>io \<in> set (ds_ios D). io_len io = unit_len D"
    using p unit(2) ul by (simp add: prepared_def io_len_def)
  ultimately show "at_start D"
    using r(2) ul mc(3) assms(6) rf by (simp add: at_start_def in_pos_def in_lo_def)
qed


text \<open>
  C39. No request of a run leaves its bounds. For the same command lines, and whatever the devices and the
  user do (any run, ended or not, with errors or an interruption), every request that was accepted has at
  most the length of a unit, so that it stays inside the buffer of its unit; a read lies inside the region
  of the input that the command line asks for, and a write, or the read of the output before a padded
  write, inside the region of the output up to the padding of its last block.
\<close>

theorem dd_requests_fit:
  assumes "dd_lib_ok L" and "main_check opts = 0" and "dd_setup L E (g_job opts) = Inr (True, D)"
    and "0 < queue_depth opts" and "io_unit_size opts < 2 ^ 32" and "\<not> sparse opts"
    and "input_bdev opts = None \<longrightarrow> file_region opts (unat (tg_total_size (ds_input D)))"
    and "unat (input_offset opts) * nat (io_unit_size opts) < 2 ^ 64"
    and "unat (tg_total_size (ds_input D)) < 2 ^ 63" and "unat (tg_total_size (ds_output D)) < 2 ^ 63"
    and "unat (output_offset opts) * nat (io_unit_size opts) + asked opts (unat (tg_total_size (ds_input D))) + 2 ^ 32 \<le> 2 ^ 64"
    and "nat (io_unit_size opts) mod unat (tg_block_size (ds_output D)) = 0"
    and "start_units L (start_envs E D) 0 D = Inr D1"
    and "(dd_step L ^^ k) (D1, submitted (new_calls D D1)) (D2, fl)"
    and "Dd_submit i ty be off len 0 \<in> set (ds_calls D2)"
  shows "unat len \<le> nat (io_unit_size opts) \<and>
    (let i0 = unat (input_offset opts) * nat (io_unit_size opts); o0 = unat (output_offset opts) * nat (io_unit_size opts);
         n = asked opts (unat (tg_total_size (ds_input D)))
     in if ty = DD_READ then i0 \<le> unat off \<and> unat off + unat len \<le> i0 + n
        else o0 \<le> unat off \<and> unat off + unat len < o0 + n + unat (tg_block_size (ds_output D)))"
proof -
  note r = tool_at_start [OF assms(1-12)]
  have p: "prepared opts D" and req: "request (ds_opts D) = request opts"
    using setup_prepared [OF assms(1-3)] by blast+
  have "submitted cs = [] \<Longrightarrow> c \<in> set cs \<Longrightarrow> fits D c" for c cs
    by (induction cs rule: submitted.induct) (auto split: if_splits)
  then have "all_fit D"
    using p unfolding all_fit_def prepared_def by blast
  from run_fits [OF r(1) assms(13,1) r(2) this assms(14)]
  have f: "fits D2 (Dd_submit i ty be off len 0)" and sr: "same_region D D2"
    using assms(15) by (auto simp: all_fit_def)
  have "unit_len D = nat (io_unit_size opts)"
    using request_fields [OF req] main_check_0 [OF assms(2)] assms(5) unit_word_exact [of "io_unit_size opts"]
    by (simp add: unit_len_def)
  note s = this r(3-5)
  show ?thesis
    using f by (auto simp: same_region_simps [OF sr] s Let_def out_bs_def [of D, symmetric])
qed

section \<open>What is released\<close>

definition bufs_match :: "dd_job \<Rightarrow> bool" where
  "bufs_match D \<longleftrightarrow> (\<forall>bs. ds_bufs D = Some bs \<longrightarrow> length bs = unat (queue_depth (ds_opts D)))"

text \<open>What holds after a stage that goes on, and after one that leaves.\<close>

definition triple :: "(dd_job \<Rightarrow> bool) \<Rightarrow> dd_stage \<Rightarrow> (dd_job \<Rightarrow> bool) \<Rightarrow> (dd_job \<Rightarrow> bool) \<Rightarrow> bool" where
  "triple P f Q R \<longleftrightarrow> (\<forall>D go D'. P D \<longrightarrow> f D = Inr (go, D') \<longrightarrow> (if go then Q D' else R D'))"

lemma triple_then: "triple P f Q R \<Longrightarrow> triple Q g S R \<Longrightarrow> triple P (then_stage f g) S R"
  unfolding triple_def then_stage_def by (fastforce split: if_splits)

lemma tripleI: "(\<And>D go D'. P D \<Longrightarrow> f D = Inr (go, D') \<Longrightarrow> Q D') \<Longrightarrow> (\<And>D. Q D \<Longrightarrow> R D) \<Longrightarrow> triple P f Q R"
  unfolding triple_def by auto

lemma leave_bufs: "leave rc X = Inr (go, D') \<Longrightarrow> ds_bufs D' = ds_bufs X \<and> ds_opts D' = ds_opts X"
  by (auto simp: leave_def)

lemma run_input_bufs:
  assumes "run_input L E D = Inr (go, D')" and "dd_lib_ok L"
  shows "ds_bufs D' = ds_bufs D"
proof (cases "input_file (ds_opts D)")
  case (Some f)
  obtain flags D1 where p: "parse_input_flags D = (flags, D1)" by fastforce
  with assms(1) Some obtain rc t D2 where
    o: "dd_open_file L E f flags (input_offset (ds_opts D)) True (ds_input D1) D1 = Inr (rc, t, D2)"
    and "ds_bufs D' = ds_bufs D2"
    by (auto simp: run_input_def Let_def go_on_ok dest: leave_bufs split: if_splits)
  with parse_input_flags_effect [OF p] open_file_effect [OF o assms(2)] show ?thesis
    by (simp add: only_opts_def)
next
  case None
  with assms show ?thesis
    by (auto simp: run_input_def Let_def go_on_ok only_opts_def split: if_splits option.splits
        dest!: leave_bufs open_bdev_effect)
qed

lemma run_output_bufs:
  assumes "run_output L E D = Inr (go, D')" and "dd_lib_ok L"
  shows "ds_bufs D' = ds_bufs D"
proof (cases "output_file (ds_opts D)")
  case (Some f)
  obtain flags D1 where p: "parse_output_flags D = (flags, D1)" by fastforce
  with assms(1) Some obtain rc t D2 where
    o: "dd_open_file L E f flags (output_offset (ds_opts D)) False (ds_output D1) D1 = Inr (rc, t, D2)"
    and "ds_bufs D' = ds_bufs D2"
    by (auto simp: run_output_def Let_def go_on_ok dest: leave_bufs split: if_splits)
  with parse_output_flags_effect [OF p] open_file_effect [OF o assms(2)] show ?thesis
    by (simp add: only_opts_def)
next
  case None
  with assms show ?thesis
    by (auto simp: run_output_def Let_def go_on_ok only_opts_def split: if_splits option.splits
        dest!: leave_bufs open_bdev_effect)
qed

lemma check_bufs:
  "run_check_input D = Inr (go, D') \<Longrightarrow> ds_bufs D' = ds_bufs D"
  "run_block_sizes D = Inr (go, D') \<Longrightarrow> ds_bufs D' = ds_bufs D"
  by (auto simp: run_check_input_def run_block_sizes_def Let_def go_on_ok dest!: leave_bufs split: if_splits)

lemma alloc_units_length: "length (snd (alloc_units E i k)) = k"
  by (induction E i k rule: alloc_units.induct) (auto split: option.splits prod.splits)

lemma run_units_bufs:
  assumes "run_units E D = Inr (go, D')" and "ds_bufs D = None"
  shows "bufs_match D'"
  using assms alloc_units_length [of E 0 "unat (queue_depth (ds_opts D))"]
  by (auto simp: run_units_def Let_def go_on_ok bufs_match_def split: if_splits prod.splits dest!: leave_bufs)

lemma run_backend_bufs:
  assumes "run_backend E D = Inr (go, D')" and "bufs_match D"
  shows "bufs_match D'"
  using run_backend_parts [OF assms(1)] assms(2)
  by (auto simp: same_job_def bufs_match_def go_on_ok dest!: leave_bufs)

lemma setup_bufs:
  assumes "dd_lib_ok L" and "dd_setup L E (g_job opts) = Inr (go, D)"
  shows "bufs_match D"
proof -
  have none: "ds_bufs X = None \<Longrightarrow> bufs_match X" for X
    by (simp add: bufs_match_def)
  have "triple (\<lambda>D. ds_bufs D = None) (dd_setup L E) bufs_match bufs_match"
    unfolding dd_setup_def
  proof (intro triple_then)
    show "triple (\<lambda>D. ds_bufs D = None) (run_input L E) (\<lambda>D. ds_bufs D = None) bufs_match"
      by (intro tripleI) (auto simp: none dest: run_input_bufs [OF _ assms(1)])
    show "triple (\<lambda>D. ds_bufs D = None) run_check_input (\<lambda>D. ds_bufs D = None) bufs_match"
      by (intro tripleI) (auto simp: none dest: check_bufs)
    show "triple (\<lambda>D. ds_bufs D = None) (run_output L E) (\<lambda>D. ds_bufs D = None) bufs_match"
      by (intro tripleI) (auto simp: none dest: run_output_bufs [OF _ assms(1)])
    show "triple (\<lambda>D. ds_bufs D = None) run_block_sizes (\<lambda>D. ds_bufs D = None) bufs_match"
      by (intro tripleI) (auto simp: none dest: check_bufs)
    show "triple (\<lambda>D. ds_bufs D = None) (run_units E) bufs_match bufs_match"
      by (intro tripleI) (auto dest: run_units_bufs)
    show "triple bufs_match (run_backend E) bufs_match bufs_match"
      by (intro tripleI) (auto dest: run_backend_bufs)
    show "triple bufs_match (run_prepare E) bufs_match bufs_match"
      by (intro tripleI) (auto simp: run_prepare_def go_on_ok bufs_match_def)
  qed
  moreover have "ds_bufs (g_job opts) = None"
    by (simp add: g_job_def)
  ultimately show ?thesis
    using assms(2) unfolding triple_def by (metis (full_types))
qed

text \<open>The buffers among what is released.\<close>

fun freed :: "dd_release list \<Rightarrow> nat option list" where
  "freed [] = []"
| "freed (Free_buf b # rs) = b # freed rs"
| "freed (_ # rs) = freed rs"

lemma freed_append [simp]: "freed (xs @ ys) = freed xs @ freed ys"
  by (induction xs rule: freed.induct) auto

lemma freed_map [simp]: "freed (map Free_buf bs) = bs"
  by (induction bs) auto

lemma freed_string [simp]: "freed (free_string s) = []"
  by (cases s) (simp_all add: free_string_def)

text \<open>The jobs with which \<open>main\<close> may call \<open>dd_free\<close>: after a setup that failed, or after some run.\<close>

definition tool_end :: "dd_lib \<Rightarrow> dd_setup_env \<Rightarrow> dd_job \<Rightarrow> dd_job \<Rightarrow> bool" where
  "tool_end L E D D2 \<longleftrightarrow> D2 = D \<or> dd_ready D (start_envs E D) \<and>
     (\<exists>D1 k fl. start_units L (start_envs E D) 0 D = Inr D1 \<and>
        (dd_step L ^^ k) (D1, submitted (new_calls D D1)) (D2, fl))"

text \<open>
  C24. Nothing leaks. Whether the setup failed at any of its stages or the copy ran, \<open>dd_free\<close> reads inside
  the array of units and frees the buffer of every unit that the setup had allocated, each once (a null
  pointer where the allocation failed).
\<close>

theorem dd_free_releases:
  assumes "dd_lib_ok L" and "dd_setup L E (g_job opts) = Inr (go, D)" and "tool_end L E D D2"
  shows "\<exists>rs. dd_free D2 = Inr rs \<and> freed rs = (case ds_bufs D of None \<Rightarrow> [] | Some bs \<Rightarrow> bs)"
proof -
  have "ds_opts D2 = ds_opts D \<and> ds_bufs D2 = ds_bufs D"
  proof (cases "D2 = D")
    case False
    with assms(3) obtain D1 k fl where r: "dd_ready D (start_envs E D)" "start_units L (start_envs E D) 0 D = Inr D1"
      "(dd_step L ^^ k) (D1, submitted (new_calls D D1)) (D2, fl)"
      by (auto simp: tool_end_def)
    from ready_run(4,6) [OF r(1,2,3)] show ?thesis by simp
  qed simp
  then show ?thesis
    using setup_bufs [OF assms(1,2)]
    by (auto simp: dd_free_def Let_def bufs_match_def split: option.splits)
qed

section \<open>Flaws of the setup\<close>

text \<open>Between two block devices no stage that goes on stops the application.\<close>

lemma open_bdev_quiet:
  assumes "dd_open_bdev L E name skip t D = Inr (rc, t', D')" and "dd_lib_ok L"
  shows "stops (ds_calls D') = stops (ds_calls D)"
  using open_bdev_effect [OF assms] keeps_new [of D D'] by simp

lemma bdev_setup_quiet:
  assumes "dd_lib_ok L" and "main_check opts = 0" and "input_bdev opts \<noteq> None" and "output_bdev opts \<noteq> None"
    and "dd_setup L E (g_job opts) = Inr (True, D)"
  shows "stops (ds_calls D) = 0"
proof -
  have files: "input_file opts = None" "output_file opts = None"
    using main_check_0(1,2) [OF assms(2)] assms(3,4) by simp_all
  from setup_stages [OF assms(1,5)] obtain D1 D2 D3 D3' D4 D5 where
    st: "run_input L E (g_job opts) = Inr (True, D1)" "run_check_input D1 = Inr (True, D2)"
    "run_output L E D2 = Inr (True, D3)" "run_block_sizes D3 = Inr (True, D3')" "run_units E D3' = Inr (True, D4)"
    "run_backend E D4 = Inr (True, D5)" "run_prepare E D5 = Inr (True, D)"
    and req: "request (ds_opts D2) = request opts" "request (ds_opts D3) = request opts"
    by blast
  have "stops (ds_calls D1) = 0"
    using st(1) files(1) assms(3) open_bdev_quiet [OF _ assms(1)]
    by (fastforce simp: run_input_def g_job_def Let_def go_on_ok split: if_splits)
  moreover have "ds_calls D2 = ds_calls D1"
    using st(2) by (auto simp: run_check_input_def Let_def go_on_ok split: if_splits)
  moreover have "stops (ds_calls D3) = stops (ds_calls D2)"
    using st(3) files(2) assms(4) request_fields [OF req(1)] open_bdev_quiet [OF _ assms(1)]
    by (fastforce simp: run_output_def Let_def go_on_ok split: if_splits)
  moreover have "ds_calls D4 = ds_calls D3" "ds_opts D4 = ds_opts D3"
    using st(4,5) run_block_sizes_True [OF st(4)] by (auto simp: run_units_def Let_def go_on_ok split: if_splits prod.splits)
  moreover have "D5 = D4"
    using st(6) files request_fields [OF req(2)] calculation(5) by (simp add: run_backend_def go_on_ok)
  ultimately show ?thesis
    using st(7) by (simp add: run_prepare_def go_on_ok)
qed

text \<open>
  A command line that asks for the queue depth 0 hangs the tool. Between two block devices, nothing
  rejects it: when \<open>dd_run\<close> is through, it has submitted no request, so that no completion will ever
  come, and it has not stopped the application.
\<close>

theorem dd_zero_depth_hangs:
  assumes "dd_lib_ok L" and "main_check opts = 0" and "queue_depth opts = 0"
    and "input_bdev opts \<noteq> None" and "output_bdev opts \<noteq> None" and "dd_run L E (g_job opts) = Inr (True, D)"
  shows "submitted (ds_calls D) = [] \<and> stops (ds_calls D) = 0"
proof -
  obtain D0 where D0: "dd_setup L E (g_job opts) = Inr (True, D0)" "start_units L (start_envs E D0) 0 D0 = Inr D"
    using assms(6) by (auto simp: dd_run_def then_stage_True go_on_ok)
  have p: "prepared opts D0"
    using setup_prepared [OF assms(1,2) D0(1)] by blast
  then have "start_envs E D0 = []"
    using assms(3) by (simp add: prepared_def start_envs_def)
  with D0(2) p bdev_setup_quiet [OF assms(1,2,4,5) D0(1)] show ?thesis
    by (simp add: prepared_def)
qed

text \<open>
  C40. A unit size that is not a multiple of the output's block size overruns the buffers. The setup
  requires a multiple of the block size of the input alone. When it goes on with a unit size that is no
  multiple of the output's block size, and the region has a whole unit, then the first request of the
  copy, if it is accepted, reads the output's blocks into the buffer of the first unit, and is longer than
  the unit, that is, than the buffer that \<open>dd_run\<close> has allocated.
\<close>

theorem dd_padded_request_overruns:
  assumes "dd_lib_ok L" and "main_check opts = 0" and "dd_setup L E (g_job opts) = Inr (True, D)"
    and "0 < queue_depth opts" and "io_unit_size opts < 2 ^ 31" and "\<not> sparse opts"
    and "input_bdev opts = None \<longrightarrow> file_region opts (unat (tg_total_size (ds_input D)))"
    and "unat (input_offset opts) * nat (io_unit_size opts) < 2 ^ 64"
    and "unat (output_offset opts) * nat (io_unit_size opts) < 2 ^ 64"
    and "unat (tg_total_size (ds_input D)) < 2 ^ 63" and "unat (tg_total_size (ds_output D)) < 2 ^ 63"
    and "nat (io_unit_size opts) \<le> asked opts (unat (tg_total_size (ds_input D)))"
    and "nat (io_unit_size opts) mod unat (tg_block_size (ds_output D)) \<noteq> 0"
    and "dd_target_seek L e 0 D = Inr D1" and "ds_error D1 = 0"
  shows "\<exists>be off len. ds_calls D1 = ds_calls D @ [Dd_submit 0 DD_POPULATE be off len 0] \<and>
    nat (io_unit_size opts) < unat len"
proof -
  have small: "io_unit_size opts < 2 ^ 63"
    using assms(5) by simp
  note r = tool_ready [OF assms(1-4) small assms(6-11)]
  have req: "request (ds_opts D) = request opts" and p: "prepared opts D"
    using setup_prepared [OF assms(1-3)] by blast+
  note rf = request_fields [OF req] and mc = main_check_0 [OF assms(2)]
  let ?b = "tg_block_size (ds_output D)" and ?u = "nat (io_unit_size opts)"
  have d: "0 < length (ds_ios D)" "\<not> stopped D" "uint ?b \<le> io_unit_size opts"
    using r(1) p unfolding dd_ready_def prepared_def stopped_def by (fastforce, blast+)
  have "\<forall>io \<in> set (ds_ios D). dio_length io = word_of_int (io_unit_size opts)"
    using p unfolding prepared_def by blast
  then have len0: "dio_length (ds_ios D ! 0) = word_of_int (io_unit_size opts)"
    using d(1) by simp
  have pb: "dd_target_populate_buffer L e 0 D = Inr D1"
    using assms(6,14) rf by (simp add: dd_target_seek_def)
  have c: "unat (claim L 0 D) = ?u"
    using unat_claim [OF assms(1), of D 0] r(2,5) assms(12) unit_word_exact [OF mc(3) small] len0
    by (simp add: in_pos_def in_lo_def region_len_def io_len_def)
  have nz: "claim L 0 D \<noteq> 0"
    using c mc(3) by auto
  have mod: "claim L 0 D mod ucast ?b \<noteq> 0"
  proof
    assume "claim L 0 D mod ucast ?b = 0"
    then have "unat (claim L 0 D mod ucast ?b) = 0"
      by simp
    with assms(13) c show False
      by (simp add: unat_mod)
  qed
  note pe = populate_effect [OF pb d(1)]
  then have ok: "\<not> stopped D1"
    using assms(15) d(2) by (auto simp: stopped_def handled_def frame_def)
  with pe nz d(2) mod obtain be off len where q:
    "ds_calls D1 = ds_calls D @ [Dd_submit 0 DD_POPULATE be off (request_len be len) 0]"
    "padded L (claim L 0 D) ?b = Inr len"
    by auto
  have pl: "unat len = round_up (unat ?b) ?u" "0 < unat ?b"
    using padded_exact [OF q(2) assms(1)] c assms(5) by (simp_all add: round_up_def)
  have "unat ?b \<le> ?u" "?u < 2 ^ 31"
    using d(3) mc(3) assms(5) by (simp_all add: nat_less_iff le_nat_iff)
  then have "unat len < 2 ^ 32"
    using round_up_bounds(2) [OF pl(2), of ?u] pl(1) by simp
  moreover have "?u \<noteq> unat len"
    using pl(1) assms(13) by (metis round_up_def mod_mult_self2_is_0)
  ultimately show ?thesis
    using q(1) round_up_bounds(1) [OF pl(2), of ?u] pl(1)
    by (intro exI [of _ be] exI [of _ off] exI [of _ "request_len be len"]) (simp add: request_len_small)
qed

text \<open>
  A block device without an I/O channel is closed twice. When the input device opens but gives no
  channel, \<open>dd_open_bdev\<close> closes its descriptor and leaves \<open>open\<close> set, so that \<open>dd_exit\<close> closes the same
  descriptor again.
\<close>

theorem dd_no_channel_closes_twice:
  assumes "input_file opts = None" and "input_bdev opts = Some b" and "s_bdev_open E b = (0, d)" and "s_channel E d = None"
  shows "\<exists>D. dd_run L E (g_job opts) = Inr (False, D) \<and> count_list (ds_calls D) (Dd_bdev_close (Some d)) = 2"
proof -
  obtain D where "run_input L E (g_job opts) = Inr (False, D)" "count_list (ds_calls D) (Dd_bdev_close (Some d)) = 2"
    using assms
    by (simp add: run_input_def g_job_def dd_open_bdev_def leave_def dd_exit_def exit_target_def
        dd_cleanup_bdev_def zero_target_def emit_def)
  then show ?thesis
    by (intro exI [of _ D]) (simp add: dd_run_def dd_setup_def then_stage_def)
qed

section \<open>A concrete run of the tool\<close>

definition tool_started :: dd_job where
  "tool_started = projr (start_units demo_lib (start_envs demo_setup_env demo_set_up) 0 demo_set_up)"

definition tool_written :: dd_job where
  "tool_written = projr (dd_complete_poll demo_lib demo_env 0 tool_started)"

definition tool_done :: dd_job where
  "tool_done = projr (dd_complete_poll demo_lib demo_env 0 tool_written)"

lemma tool_start: "start_units demo_lib (start_envs demo_setup_env demo_set_up) 0 demo_set_up = Inr tool_started"
  by code_simp

lemma tool_run:
  "(dd_step demo_lib ^^ 2) (tool_started, submitted (new_calls demo_set_up tool_started)) (tool_done, [])"
proof -
  have "dd_step demo_lib (tool_started, [0])
      (tool_written, remove1 0 [0] @ submitted (new_calls tool_started tool_written))"
  proof (rule dd_step.complete)
    show "dd_complete_poll demo_lib demo_env 0 (note_error 0 tool_started) = Inr tool_written"
      by code_simp
  qed simp_all
  moreover have "remove1 0 [0] @ submitted (new_calls tool_started tool_written) = [0]"
    by code_simp
  moreover have "dd_step demo_lib (tool_written, [0])
      (tool_done, remove1 0 [0] @ submitted (new_calls tool_written tool_done))"
  proof (rule dd_step.complete)
    show "dd_complete_poll demo_lib demo_env 0 (note_error 0 tool_written) = Inr tool_done"
      by code_simp
  qed simp_all
  moreover have "remove1 0 [0] @ submitted (new_calls tool_written tool_done) = []"
    by code_simp
  moreover have "submitted (new_calls demo_set_up tool_started) = [0]"
    by code_simp
  ultimately show ?thesis
    by (auto simp: numeral_2_eq_2)
qed

lemma demo_request:
  "0 < queue_depth demo_copy_opts" "io_unit_size demo_copy_opts < 2 ^ 32" "io_unit_size demo_copy_opts < 2 ^ 63"
  "\<not> sparse demo_copy_opts"
  "input_bdev demo_copy_opts = None \<longrightarrow> file_region demo_copy_opts (unat (tg_total_size (ds_input demo_set_up)))"
  "unat (input_offset demo_copy_opts) * nat (io_unit_size demo_copy_opts) < 2 ^ 64"
  "unat (output_offset demo_copy_opts) * nat (io_unit_size demo_copy_opts) < 2 ^ 64"
  by (simp_all add: demo_copy_opts_def)

lemma demo_totals: "unat (tg_total_size (ds_input demo_set_up)) = 512" "unat (tg_total_size (ds_output demo_set_up)) = 512"
  "unat (tg_block_size (ds_output demo_set_up)) = 512"
  by code_simp+






theorem dd_requests_fit_witness:
  "Dd_submit 0 DD_WRITE By_bdev 0 512 0 \<in> set (ds_calls tool_done) \<and> unat (512 :: u64) \<le> nat (io_unit_size demo_copy_opts)"
proof -
  have c: "Dd_submit 0 DD_WRITE By_bdev 0 512 0 \<in> set (ds_calls tool_done)"
    by code_simp
  have o: "unat (output_offset demo_copy_opts) * nat (io_unit_size demo_copy_opts) +
      asked demo_copy_opts (unat (tg_total_size (ds_input demo_set_up))) + 2 ^ 32 \<le> 2 ^ 64"
    "nat (io_unit_size demo_copy_opts) mod unat (tg_block_size (ds_output demo_set_up)) = 0"
    by (simp_all add: demo_totals asked_def demo_copy_opts_def)
  from dd_requests_fit [OF demo_lib_ok demo_main demo_setup demo_request(1,2,4-6) _ _ o tool_start tool_run c]
  have "unat (512 :: u64) \<le> nat (io_unit_size demo_copy_opts)"
    by (simp add: demo_totals)
  with c show ?thesis by blast
qed

lemma demo_tool_end: "tool_end demo_lib demo_setup_env demo_set_up tool_done"
  using tool_ready(1) [OF demo_lib_ok demo_main demo_setup demo_request(1,3-7)] tool_start tool_run
  by (auto simp: tool_end_def demo_totals)

theorem dd_free_releases_witness: "\<exists>rs. dd_free tool_done = Inr rs \<and> freed rs = [Some 0]"
proof -
  have "(case ds_bufs demo_set_up of None \<Rightarrow> [] | Some bs \<Rightarrow> bs) = [Some 0]"
    by code_simp
  with dd_free_releases [OF demo_lib_ok demo_setup demo_tool_end] show ?thesis by simp
qed

text \<open>The queue depth 0.\<close>

definition hung_opts :: spdk_dd_opts where
  "hung_opts = demo_copy_opts\<lparr>queue_depth := 0\<rparr>"

definition hung :: dd_job where
  "hung = snd (projr (dd_run demo_lib demo_setup_env (g_job hung_opts)))"

lemma hung_run: "dd_run demo_lib demo_setup_env (g_job hung_opts) = Inr (True, hung)"
  by code_simp

theorem dd_zero_depth_hangs_witness: "submitted (ds_calls hung) = [] \<and> stops (ds_calls hung) = 0"
proof (rule dd_zero_depth_hangs [OF demo_lib_ok _ _ _ _ hung_run])
  show "main_check hung_opts = 0"
    by code_simp
qed (simp_all add: hung_opts_def demo_copy_opts_def)

text \<open>Units of 768 bytes, an input with blocks of 256 bytes, an output with blocks of 512 bytes.\<close>

definition odd_opts :: spdk_dd_opts where
  "odd_opts = demo_copy_opts\<lparr>io_unit_size := 768\<rparr>"

definition odd_env :: dd_setup_env where
  "odd_env = demo_setup_env\<lparr>s_block_size := (\<lambda>d. if d = 1 then 256 else 512), s_num_blocks := (\<lambda>_. 6)\<rparr>"

definition odd_job :: dd_job where
  "odd_job = snd (projr (dd_setup demo_lib odd_env (g_job odd_opts)))"

lemma odd_setup: "dd_setup demo_lib odd_env (g_job odd_opts) = Inr (True, odd_job)"
  by code_simp

theorem dd_padded_request_overruns_witness:
  "\<exists>D1 be off len. dd_target_seek demo_lib demo_env 0 odd_job = Inr D1 \<and>
     ds_calls D1 = ds_calls odd_job @ [Dd_submit 0 DD_POPULATE be off len 0] \<and> 768 < unat len"
proof -
  let ?D1 = "projr (dd_target_seek demo_lib demo_env 0 odd_job)"
  have s: "dd_target_seek demo_lib demo_env 0 odd_job = Inr ?D1" "ds_error ?D1 = 0" "main_check odd_opts = 0"
    by code_simp+
  have t: "unat (tg_total_size (ds_input odd_job)) = 1536" "unat (tg_total_size (ds_output odd_job)) = 3072"
    "unat (tg_block_size (ds_output odd_job)) = 512"
    by code_simp+
  have a: "asked odd_opts 1536 = 1536"
    by (simp add: asked_def odd_opts_def demo_copy_opts_def)
  have o: "0 < queue_depth odd_opts" "io_unit_size odd_opts < 2 ^ 31" "\<not> sparse odd_opts" "io_unit_size odd_opts = 768"
    "input_bdev odd_opts = None \<longrightarrow> file_region odd_opts (unat (tg_total_size (ds_input odd_job)))"
    "unat (input_offset odd_opts) * nat (io_unit_size odd_opts) < 2 ^ 64"
    "unat (output_offset odd_opts) * nat (io_unit_size odd_opts) < 2 ^ 64"
    by (simp_all add: odd_opts_def demo_copy_opts_def)
  from dd_padded_request_overruns [OF demo_lib_ok s(3) odd_setup o(1-3,5-7) _ _ _ _ s(1,2)] s(1) show ?thesis
    by (auto simp: t a o(4))
qed

end
