(* ===== verification/Dd_Flags.thy ===== *)
theory Dd_Flags
  imports Dd_Stages
begin

text \<open>
  The flag strings of the copy tool: what \<open>parse_flags\<close> computes for a list of names, and what a second
  parse of the same string computes.
\<close>

section \<open>Joining and splitting\<close>

fun join_flags :: "string list \<Rightarrow> string" where
  "join_flags [] = []"
| "join_flags [t] = t"
| "join_flags (t # u # ts) = t @ CHR '','' # join_flags (u # ts)"

abbreviation comma_free :: "string \<Rightarrow> bool" where
  "comma_free t \<equiv> CHR '','' \<notin> set t"

lemma take_to_comma:
  "comma_free t \<Longrightarrow> takeWhile (\<lambda>c. c \<noteq> CHR '','') t = t"
  "comma_free t \<Longrightarrow> takeWhile (\<lambda>c. c \<noteq> CHR '','') (t @ CHR '','' # r) = t"
  by (induction t) auto

lemma strsep_last: "comma_free t \<Longrightarrow> strsep t = (t, None)"
  by (simp add: strsep_def take_to_comma)

lemma strsep_more: "comma_free t \<Longrightarrow> strsep (t @ CHR '','' # r) = (t, Some r)"
  by (simp add: strsep_def take_to_comma)

lemma first_token_join: "comma_free t \<Longrightarrow> first_token (join_flags (t # ts)) = t"
  by (cases ts) (simp_all add: first_token_def strsep_last strsep_more)

text \<open>The reference splitter: the tokens between the commas.\<close>

fun tokens :: "string \<Rightarrow> string list" where
  "tokens [] = [[]]"
| "tokens (c # s) = (if c = CHR '','' then [] # tokens s else (c # hd (tokens s)) # tl (tokens s))"

lemma tokens_ne [simp]: "tokens s \<noteq> []"
  by (cases s) auto

lemma tokens_comma_free: "t \<in> set (tokens s) \<Longrightarrow> comma_free t"
proof (induction s arbitrary: t)
  case (Cons c s)
  then show ?case
    by (auto split: if_splits dest: list.set_sel(2) [OF tokens_ne])
qed simp

lemma join_tokens: "join_flags (tokens s) = s"
proof (induction s)
  case (Cons c s)
  then show ?case
    by (cases "tokens s"; cases "tl (tokens s)") (auto simp: neq_Nil_conv)
qed simp

text \<open>The flags of a list of names.\<close>

definition flags_of :: "string list \<Rightarrow> u32 option" where
  "flags_of ts = (if \<forall>t \<in> set ts. map_of g_flags t \<noteq> None then Some (foldl (OR) 0 (map (the \<circ> map_of g_flags) ts)) else None)"

lemma parse_loop_join:
  assumes "ts \<noteq> []" and "\<forall>t \<in> set ts. comma_free t"
  shows "parse_loop f (join_flags ts) =
    (if \<forall>t \<in> set ts. map_of g_flags t \<noteq> None then Some (foldl (OR) f (map (the \<circ> map_of g_flags) ts)) else None)"
  using assms
proof (induction ts arbitrary: f rule: join_flags.induct)
  case (2 t)
  then show ?case
    by (subst parse_loop.simps) (auto simp: strsep_last split: option.splits)
next
  case (3 t u ts)
  then have "strsep (join_flags (t # u # ts)) = (t, Some (join_flags (u # ts)))"
    by (simp add: strsep_more)
  with 3 show ?case
    by (subst parse_loop.simps) (auto split: option.splits)
qed simp

text \<open>
  C23. The flag strings. \<open>parse_flags\<close>, a loop of \<open>strsep\<close>, splits its argument at the commas: when every token
  is a name of the table it returns the union of their flags and touches nothing else; when one is not
  (the empty token of an empty string or of two commas included), it returns no flag and leaves the
  application with \<open>EINVAL\<close>.
\<close>

theorem parse_flags_tokens:
  "parse_flags (Some s) D =
    (case flags_of (tokens s) of Some f \<Rightarrow> (f, D) | None \<Rightarrow> (0, dd_exit (- EINVAL) D))"
proof -
  have "parse_loop 0 s = flags_of (tokens s)"
    using parse_loop_join [of "tokens s" 0] tokens_comma_free by (simp add: join_tokens flags_of_def)
  then show ?thesis
    by (simp add: parse_flags_def)
qed

text \<open>
  C31. The flags of the input are parsed twice, and the second parse sees only the first name: the first
  parse has cut the string at its first comma. What \<open>dd_run\<close> uses to choose between the polling modes of
  the ring is therefore the first flag alone, whatever follows it.
\<close>

theorem input_flags_second_parse:
  assumes "input_file_flags (ds_opts D) = Some (join_flags (t # ts))" and "\<forall>u \<in> set (t # ts). comma_free u"
    and "flags_of (t # ts) = Some f" and "parse_input_flags D = (f1, D1)" and "parse_input_flags D1 = (f2, D2)"
  shows "f1 = f \<and> flags_of [t] = Some f2"
proof -
  have p: "parse_loop 0 (join_flags (t # ts)) = Some f"
    using parse_loop_join [of "t # ts" 0] assms(2,3) by (simp add: flags_of_def split: if_splits)
  then have 1: "f1 = f" "input_file_flags (ds_opts D1) = Some t"
    using assms(1,2,4) first_token_join [of t ts] by (auto simp: parse_input_flags_def parse_flags_def Let_def)
  have "parse_loop 0 (join_flags [t]) = flags_of [t]"
    using parse_loop_join [of "[t]" 0] assms(2) by (simp add: flags_of_def)
  moreover have "flags_of [t] \<noteq> None"
    using assms(3) by (auto simp: flags_of_def split: if_splits)
  ultimately show ?thesis
    using assms(5) 1 by (auto simp: parse_input_flags_def parse_flags_def Let_def split: option.splits)
qed

definition demo_flagged :: dd_job where
  "demo_flagged = demo_job\<lparr>ds_opts := demo_copy_opts\<lparr>input_file_flags := Some ''sync,direct''\<rparr>\<rparr>"

theorem input_flags_second_parse_witness:
  "fst (parse_input_flags demo_flagged) = O_SYNC OR O_DIRECT \<and>
   flags_of [''sync''] = Some (fst (parse_input_flags (snd (parse_input_flags demo_flagged))))"
proof -
  have j: "input_file_flags (ds_opts demo_flagged) = Some (join_flags [''sync'', ''direct''])"
    by (simp add: demo_flagged_def)
  have f: "flags_of [''sync'', ''direct''] = Some (O_SYNC OR O_DIRECT)"
    by (simp add: flags_of_def g_flags_def)
  show ?thesis
    using input_flags_second_parse [OF j _ f prod.collapse [symmetric] prod.collapse [symmetric]] by simp
qed

end
