(* ===== verification/Dd_Polls.thy ===== *)
theory Dd_Polls
  imports Dd_Copy
begin

text \<open>
  The pollers and callbacks of the copy tool against the runs of the copy engine: what a poll delivers is
  a sequence of completions, no completion of a run is undefined; and the places where the tool loses an
  error, leaves too often or does not leave.
\<close>

section \<open>Polls deliver completions\<close>

text \<open>
  The answers of the ring that concern units in flight: every completion that is not \<open>EAGAIN\<close> belongs to a
  unit that is in flight when it is peeked. Likewise for the events of AIO.
\<close>

fun delivers :: "dd_lib \<Rightarrow> peek list \<Rightarrow> dd_job \<Rightarrow> nat list \<Rightarrow> bool" where
  "delivers L [] D fl = True"
| "delivers L (Peek_cqe i res e # ps) D fl =
     (if res = - EAGAIN then delivers L ps D fl
      else i \<in> set fl \<and> (case dd_complete_poll L e i (note_error (if res < 0 then res else 0) D) of
         Inl u \<Rightarrow> True | Inr D' \<Rightarrow> delivers L ps D' (remove1 i fl @ submitted (new_calls D D'))))"
| "delivers L (Peek_status rc # ps) D fl =
     (rc \<noteq> 0 \<and> delivers L ps (if rc \<noteq> - EAGAIN then note_error rc D else D) fl)"

fun aio_delivers :: "dd_lib \<Rightarrow> (nat \<times> u64 \<times> dd_env) list \<Rightarrow> dd_job \<Rightarrow> nat list \<Rightarrow> bool" where
  "aio_delivers L [] D fl = True"
| "aio_delivers L ((i, res, e) # evs) D fl =
     (i \<in> set fl \<and>
      (case dd_complete_poll L e i (note_error (if res \<noteq> dio_length (ds_ios D ! i) then - ENOSPC else 0) D) of
         Inl u \<Rightarrow> True | Inr D' \<Rightarrow> aio_delivers L evs D' (remove1 i fl @ submitted (new_calls D D'))))"

text \<open>One delivery, after ticks, is a step of the run.\<close>

lemma deliver_step:
  assumes "(dd_tick L)\<^sup>*\<^sup>* D0 D" and "dd_inv n (D0, fl)" and "i \<in> set fl"
    and "dd_complete_poll L e i (note_error err D) = Inr D'"
  shows "dd_step L (D0, fl) (D', remove1 i fl @ submitted (new_calls D D'))"
    and "dd_inv n (D', remove1 i fl @ submitted (new_calls D D'))"
proof -
  let ?E = "note_error err D"
  have c: "calm D0 D" "calm D ?E"
    using ticks_calm [OF assms(1)] note_error_calm by blast+
  have E: "sync_seek ?E" "i < length (ds_ios ?E)"
    using calm_trans [OF c] assms(2,3) by (auto simp: dd_inv_def calm_def sync_seek_def)
  obtain cs where "ds_calls D' = ds_calls ?E @ cs"
    using complete_effect [OF assms(4) E] by (auto simp: handled_def)
  moreover have "ds_calls ?E = ds_calls D"
    by (simp add: note_error_def)
  moreover obtain cs0 where "ds_calls D = ds_calls D0 @ cs0" "submitted cs0 = []"
    using c(1) by (auto simp: calm_def)
  ultimately have "submitted (new_calls D D') = submitted (new_calls D0 D')"
    by (simp add: new_calls_def)
  then show st: "dd_step L (D0, fl) (D', remove1 i fl @ submitted (new_calls D D'))"
    using dd_step.complete [OF assms(1,3,4)] by simp
  from step_inv [OF st assms(2)] show "dd_inv n (D', remove1 i fl @ submitted (new_calls D D'))" by blast
qed

text \<open>A delivery in flight is no assertion failure either.\<close>

lemma deliver_no_assert:
  assumes "(dd_tick L)\<^sup>*\<^sup>* D0 D" and "dd_inv n (D0, fl)" and "i \<in> set fl"
  shows "dd_complete_poll L e i (note_error err D) \<noteq> Inl Assertion_failed"
proof (rule complete_no_assert)
  have "calm D0 (note_error err D)"
    using calm_trans [OF ticks_calm [OF assms(1)] note_error_calm] .
  with assms(2,3) show "ds_outstanding (note_error err D) \<noteq> 0" "sync_seek (note_error err D)"
    by (auto simp: dd_inv_def calm_def sync_seek_def)
qed

definition runs_to :: "dd_lib \<Rightarrow> dd_job \<times> nat list \<Rightarrow> dd_job \<Rightarrow> bool" where
  "runs_to L s D' \<longleftrightarrow> (\<exists>k D1 fl. (dd_step L ^^ k) s (D1, fl) \<and> (dd_tick L)\<^sup>*\<^sup>* D1 D')"

lemma runs_to_step: "dd_step L s t \<Longrightarrow> runs_to L t D' \<Longrightarrow> runs_to L s D'"
  unfolding runs_to_def by (blast intro: relpowp_Suc_I2)

lemma runs_to_ticks: "(dd_tick L)\<^sup>*\<^sup>* D D' \<Longrightarrow> runs_to L (D, fl) D'"
  unfolding runs_to_def by (intro exI [of _ 0] exI [of _ D] exI [of _ fl]) simp

lemma uring_turns_refine:
  assumes "delivers L ps D fl" and "(dd_tick L)\<^sup>*\<^sup>* D0 D" and "dd_inv n (D0, fl)"
  shows "uring_poll_turns L ps D \<noteq> Inl Assertion_failed \<and>
    (\<forall>D'. uring_poll_turns L ps D = Inr D' \<longrightarrow> runs_to L (D0, fl) D')"
  using assms
proof (induction L ps D arbitrary: D0 fl rule: uring_poll_turns.induct)
  case (1 L D)
  then show ?case by (simp add: runs_to_ticks)
next
  case (2 L i res e ps D)
  let ?err = "if res < 0 then res else 0"
  have eq: "(if res < 0 then D\<lparr>ds_error := res\<rparr> else D) = note_error ?err D"
    by (simp add: note_error_def)
  show ?case
  proof (cases "res = - EAGAIN")
    case True
    with 2 show ?thesis by simp
  next
    case False
    then have i: "i \<in> set fl"
      using 2(3) by simp
    note na = deliver_no_assert [OF 2(4,5) i]
    show ?thesis
    proof (cases "dd_complete_poll L e i (note_error ?err D)")
      case (Inl u)
      with False na [of e ?err] show ?thesis by (simp add: eq)
    next
      case (Inr D')
      note d = deliver_step [OF 2(4,5) i Inr]
      have "delivers L ps D' (remove1 i fl @ submitted (new_calls D D'))"
        using 2(3) False Inr by (simp split: if_splits)
      from 2(2) [OF False this rtranclp.rtrancl_refl d(2)] False Inr d(1) show ?thesis
        by (auto simp: eq intro: runs_to_step)
    qed
  qed
next
  case (3 L rc ps D)
  have "(dd_tick L)\<^sup>*\<^sup>* D0 (if rc \<noteq> - EAGAIN then note_error rc D else D)"
    using 3(3) dd_tick.ring_error [of L D rc] by auto
  moreover have "(if rc \<noteq> - EAGAIN then D\<lparr>ds_error := rc\<rparr> else D) = (if rc \<noteq> - EAGAIN then note_error rc D else D)"
    using 3(2) by (simp add: note_error_def)
  ultimately show ?case
    using 3(1) [of fl D0] 3(2,4) by simp
qed

lemma aio_events_refine:
  assumes "aio_delivers L evs D fl" and "dd_inv n (D, fl)"
  shows "aio_poll_events L evs D \<noteq> Inl Assertion_failed \<and>
    (\<forall>D'. aio_poll_events L evs D = Inr D' \<longrightarrow> runs_to L (D, fl) D')"
  using assms
proof (induction L evs D arbitrary: fl rule: aio_poll_events.induct)
  case (1 L D)
  then show ?case by (simp add: runs_to_ticks)
next
  case (2 L i res e evs D)
  let ?err = "if res \<noteq> dio_length (ds_ios D ! i) then - ENOSPC else 0"
  have eq: "(if res \<noteq> dio_length (ds_ios D ! i) then D\<lparr>ds_error := - ENOSPC\<rparr> else D) = note_error ?err D"
    by (simp add: note_error_def)
  have i: "i \<in> set fl"
    using 2(2) by simp
  show ?case
  proof (cases "dd_complete_poll L e i (note_error ?err D)")
    case (Inl u)
    with deliver_no_assert [OF rtranclp.rtrancl_refl 2(3) i, of L e ?err] show ?thesis by (simp add: eq)
  next
    case (Inr D')
    note d = deliver_step [OF rtranclp.rtrancl_refl 2(3) i Inr]
    have "aio_delivers L evs D' (remove1 i fl @ submitted (new_calls D D'))"
      using 2(2) Inr by simp
    from 2(1) [OF this d(2)] Inr d(1) show ?thesis
      by (auto simp: eq intro: runs_to_step)
  qed
qed

text \<open>
  C8. The pollers refine the runs of the copy engine. In any state of a run, when what the ring delivers
  (or, for AIO, what \<open>io_getevents\<close> returned without error) are completions of units in flight, one poll
  fails no assertion, and the job it leaves is reached from that state by steps of the run and ticks: what
  holds along runs holds across polls.
\<close>

theorem dd_polls_refine:
  assumes "dd_ready D es" and "start_units L es 0 D = Inr D1" and "dd_lib_ok L"
    and "(dd_step L ^^ k) (D1, submitted (new_calls D D1)) (D2, fl)"
  shows "(delivers L (take (nat (c_int (int (unat (queue_depth (ds_opts D2)))))) ps) D2 fl \<longrightarrow>
      dd_uring_poll L ps D2 \<noteq> Inl Assertion_failed \<and>
      (\<forall>D3. dd_uring_poll L ps D2 = Inr D3 \<longrightarrow> runs_to L (D2, fl) D3)) \<and>
    (0 \<le> rc \<and> aio_delivers L (take (nat rc) evs) D2 fl \<longrightarrow>
      dd_aio_poll L rc evs D2 \<noteq> Inl Assertion_failed \<and>
      (\<forall>D3. dd_aio_poll L rc evs D2 = Inr D3 \<longrightarrow> runs_to L (D2, fl) D3))"
proof -
  have inv: "dd_inv (length (ds_ios D)) (D2, fl)"
    by (rule ready_run(2) [OF assms(1,2,4)])
  show ?thesis
    using uring_turns_refine [OF _ rtranclp.rtrancl_refl inv] aio_events_refine [OF _ inv]
    by (auto simp: dd_uring_poll_def dd_aio_poll_def)
qed

theorem dd_polls_refine_witness:
  "delivers demo_lib (take (nat (c_int (int (unat (queue_depth (ds_opts demo_started))))))
     [Peek_cqe 0 512 demo_env]) demo_started [0] \<and>
   dd_uring_poll demo_lib [Peek_cqe 0 512 demo_env] demo_started = Inr demo_written \<and>
   runs_to demo_lib (demo_started, [0]) demo_written"
proof -
  have r: "(dd_step demo_lib ^^ 0) (demo_started, submitted (new_calls demo_job demo_started)) (demo_started, [0])"
    by (simp add: demo_in_flight)
  have d: "delivers demo_lib (take (nat (c_int (int (unat (queue_depth (ds_opts demo_started))))))
     [Peek_cqe 0 512 demo_env]) demo_started [0]"
    by code_simp
  have p: "dd_uring_poll demo_lib [Peek_cqe 0 512 demo_env] demo_started = Inr demo_written"
    by code_simp
  from dd_polls_refine [OF demo_ready demo_start demo_lib_ok r] d p show ?thesis by blast
qed

section \<open>Errors that are lost\<close>

text \<open>A completion of a block device request goes to the callback of its kind.\<close>

definition bdev_done :: "dd_lib \<Rightarrow> dd_env \<Rightarrow> nat \<Rightarrow> bool \<Rightarrow> dd_job \<Rightarrow> dd_job c_result" where
  "bdev_done L e i success D =
     (case dio_type (ds_ios D ! i) of
        DD_POPULATE \<Rightarrow> dd_target_populate_buffer_done e i success D
      | DD_READ \<Rightarrow> dd_read_bdev_done L e i success D
      | DD_WRITE \<Rightarrow> dd_write_bdev_done L e i success D)"

lemma bdev_done_complete: "bdev_done L e i success D = dd_complete_poll L e i D"
  by (simp add: bdev_done_def dd_complete_poll_def dd_target_populate_buffer_done_def dd_read_bdev_done_def
      dd_write_bdev_done_def Let_def split: dd_submit_type.splits)

fun bdev_completions :: "dd_lib \<Rightarrow> (nat \<times> bool \<times> dd_env) list \<Rightarrow> dd_job \<Rightarrow> dd_job c_result" where
  "bdev_completions L [] D = Inr D"
| "bdev_completions L ((i, success, e) # cs) D = c_bind (bdev_done L e i success D) (bdev_completions L cs)"

text \<open>A job between block devices without an error so far, and the status its exits have.\<close>

definition no_error :: "dd_job \<Rightarrow> bool" where
  "no_error D \<longleftrightarrow> ds_error D = 0 \<and> \<not> sparse (ds_opts D) \<and> tg_type (ds_input D) = DD_TARGET_TYPE_BDEV \<and>
     tg_type (ds_output D) = DD_TARGET_TYPE_BDEV \<and> (\<forall>rc. Dd_app_stop rc \<in> set (ds_calls D) \<longrightarrow> rc = 0)"

lemma no_error_exit: "no_error D \<Longrightarrow> no_error (dd_exit 0 D)"
  by (auto simp: no_error_def dd_exit_def exit_target_def dd_cleanup_bdev_def split: option.splits if_splits)

lemma no_error_progress:
  assumes "no_error D" and "dd_show_progress L e fin D = Inr D'"
  shows "no_error D'"
  using assms(1) show_progress_effect [OF assms(2)] by (auto simp: no_error_def)

lemma no_error_stop:
  assumes "no_error D" and "dd_stop L e D = Inr D'"
  shows "no_error D'"
proof (cases "ds_outstanding D = 0")
  case True
  with assms obtain D1 where D1: "dd_show_progress L e True D = Inr D1" "D' = dd_exit (ds_error D1) D1"
    by (auto simp: dd_stop_def no_error_def)
  then have "no_error D1"
    using no_error_progress [OF assms(1)] by blast
  with no_error_exit [OF this] D1(2) show ?thesis
    by (simp add: no_error_def [of D1])
qed (use assms in \<open>simp add: dd_stop_def\<close>)

lemma no_error_submit:
  assumes "no_error D" and "e_submit e = 0" and "tg_type target = DD_TARGET_TYPE_BDEV"
    and "dd_submit e i target len off D = Inr D'"
  shows "no_error D'"
  using assms by (auto simp: dd_submit_def dd_uring_submit_def no_error_def Let_def)

lemma no_error_updates [simp]:
  "no_error (D\<lparr>ds_outstanding := n\<rparr>) = no_error D" "no_error (set_io i f D) = no_error D"
  "no_error (D\<lparr>ds_input := (ds_input D)\<lparr>tg_pos := p\<rparr>\<rparr>) = no_error D"
  "no_error (D\<lparr>ds_incremental_bytes := b\<rparr>) = no_error D"
  by (simp_all add: no_error_def)

lemma no_error_read:
  assumes "no_error D" and "e_submit e = 0" and "dd_target_read e i D = Inr D'"
  shows "no_error D'"
proof (cases "stopped D")
  case True
  with assms no_error_exit [OF assms(1)] show ?thesis
    by (auto simp: dd_target_read_def no_error_def [of D])
next
  case False
  have t: "tg_type (ds_input D) = DD_TARGET_TYPE_BDEV"
    using assms(1) by (simp add: no_error_def)
  let ?X = "set_io i (\<lambda>io. io\<lparr>dio_type := DD_READ\<rparr>) (D\<lparr>ds_outstanding := ds_outstanding D + 1\<rparr>)"
  have "dd_submit e i (ds_input D) (dio_length (ds_ios D ! i)) (dio_offset (ds_ios D ! i)) ?X = Inr D'"
    using False assms(3) by (simp add: dd_target_read_def Let_def)
  from no_error_submit [OF _ assms(2) t this] assms(1) show ?thesis by simp
qed

lemma no_error_write:
  assumes "no_error D" and "e_submit e = 0" and "dd_target_write L e i D = Inr D'"
  shows "no_error D'"
proof -
  have t: "tg_type (ds_output D) = DD_TARGET_TYPE_BDEV"
    using assms(1) by (simp add: no_error_def)
  show ?thesis
  proof (cases "stopped D")
    case True
    with assms(3) no_error_stop [OF assms(1)] show ?thesis
      by (auto simp: dd_target_write_def Let_def)
  next
    case False
    let ?X = "set_io i (\<lambda>io. io\<lparr>dio_type := DD_WRITE\<rparr>)
      (D\<lparr>ds_incremental_bytes := ds_incremental_bytes D + dio_length (ds_ios D ! i),
         ds_outstanding := ds_outstanding D + 1\<rparr>)"
    from False assms(3) obtain len off where "dd_submit e i (ds_output D) len off ?X = Inr D'"
      by (auto simp: dd_target_write_def Let_def)
    from no_error_submit [OF _ assms(2) t this] assms(1) show ?thesis by simp
  qed
qed

lemma no_error_populate:
  assumes "no_error D" and "e_submit e = 0" and "dd_target_populate_buffer L e i D = Inr D'"
  shows "no_error D'"
proof -
  have t: "tg_type (ds_output D) = DD_TARGET_TYPE_BDEV"
    using assms(1) by (simp add: no_error_def)
  let ?len = "l_min L (dio_length (ds_ios D ! i)) (ds_copy_size D - (tg_pos (ds_input D) - read_region_start D))"
  let ?D1 = "set_io i (\<lambda>io. io\<lparr>dio_offset := tg_pos (ds_input D), dio_length := ?len\<rparr>) D"
  let ?D2 = "?D1\<lparr>ds_input := (ds_input ?D1)\<lparr>tg_pos := tg_pos (ds_input D) + ?len\<rparr>\<rparr>"
  let ?D3 = "set_io i (\<lambda>io. io\<lparr>dio_type := DD_POPULATE\<rparr>) (?D2\<lparr>ds_outstanding := ds_outstanding ?D2 + 1\<rparr>)"
  have D1: "no_error ?D1"
    using assms(1) by simp
  then have D2: "no_error ?D2"
    by (simp only: no_error_updates)
  then have D3: "no_error ?D3"
    by (simp only: no_error_updates)
  consider "dd_stop L e ?D1 = Inr D'" | "dd_target_read e i ?D2 = Inr D'"
    | len off where "dd_submit e i (ds_output D) len off ?D3 = Inr D'"
    using assms(3) by (auto simp: dd_target_populate_buffer_def Let_def split: if_splits)
  then show ?thesis
    by cases (blast intro: no_error_stop [OF D1] no_error_read [OF D2 assms(2)] no_error_submit [OF D3 assms(2) t])+
qed

lemma no_error_complete:
  assumes "no_error D" and "e_submit e = 0" and "dd_complete_poll L e i D = Inr D'"
  shows "no_error D'"
proof -
  let ?F = "D\<lparr>ds_outstanding := ds_outstanding D - 1\<rparr>"
  have f: "no_error ?F" and ns: "\<not> sparse (ds_opts D)"
    using assms(1) by (simp_all add: no_error_def)
  show ?thesis
    using assms(3) ns no_error_read [OF f assms(2)] no_error_write [OF f assms(2)] no_error_populate [OF f assms(2)]
    by (auto simp: dd_complete_poll_def dd_target_seek_def Let_def split: dd_submit_type.splits if_splits)
qed

lemma no_error_completions:
  assumes "no_error D" and "\<forall>(i, success, e) \<in> set cs. e_submit e = 0" and "bdev_completions L cs D = Inr D'"
  shows "no_error D'"
  using assms
proof (induction cs arbitrary: D)
  case (Cons c cs)
  obtain i success e where c: "c = (i, success, e)"
    by (cases c)
  with Cons.prems obtain D1 where "dd_complete_poll L e i D = Inr D1" "bdev_completions L cs D1 = Inr D'" "e_submit e = 0"
    by (auto simp: bdev_done_complete)
  with Cons.prems(1) no_error_complete have "no_error D1" by blast
  with Cons.IH Cons.prems(2) \<open>bdev_completions L cs D1 = Inr D'\<close> show ?case by simp
qed simp

text \<open>
  C25. Errors of block devices are lost. In a copy between block devices whose requests are all accepted,
  the outcome does not depend on whether the requests succeed: the job after any sequence of completions
  is the one after the same completions with success, it records no error, and the tool, when it leaves,
  reports success.
\<close>

theorem dd_bdev_errors_lost:
  assumes "ds_error D = 0" and "\<not> sparse (ds_opts D)" and "\<forall>rc. Dd_app_stop rc \<notin> set (ds_calls D)"
    and "tg_type (ds_input D) = DD_TARGET_TYPE_BDEV" and "tg_type (ds_output D) = DD_TARGET_TYPE_BDEV"
    and "\<forall>(i, success, e) \<in> set cs. e_submit e = 0" and "bdev_completions L cs D = Inr D'"
  shows "ds_error D' = 0 \<and> (\<forall>rc. Dd_app_stop rc \<in> set (ds_calls D') \<longrightarrow> rc = 0) \<and>
    bdev_completions L (map (\<lambda>(i, success, e). (i, True, e)) cs) D = Inr D'"
proof -
  have "bdev_completions L (map (\<lambda>(i, success, e). (i, True, e)) cs) X = bdev_completions L cs X" for X
    by (induction cs arbitrary: X) (auto simp: bdev_done_complete fun_eq_iff intro!: arg_cong2 [where f = c_bind])
  moreover have "no_error D"
    using assms by (simp add: no_error_def)
  then have "no_error D'"
    by (rule no_error_completions [OF _ assms(6,7)])
  ultimately show ?thesis
    using assms(7) by (simp add: no_error_def)
qed

theorem dd_bdev_errors_lost_witness:
  "ds_error demo_done = 0 \<and> bdev_completions demo_lib [(0, False, demo_env), (0, False, demo_env)] demo_started = Inr demo_done \<and>
   bdev_completions demo_lib [(0, True, demo_env), (0, True, demo_env)] demo_started = Inr demo_done"
proof -
  have r: "bdev_completions demo_lib [(0, False, demo_env), (0, False, demo_env)] demo_started = Inr demo_done"
    by code_simp
  have s: "ds_error demo_started = 0" "\<not> sparse (ds_opts demo_started)"
    "tg_type (ds_input demo_started) = DD_TARGET_TYPE_BDEV" "tg_type (ds_output demo_started) = DD_TARGET_TYPE_BDEV"
    "ds_calls demo_started = [Dd_submit 0 DD_READ By_bdev 0 512 0]"
    by code_simp+
  have "\<forall>rc. Dd_app_stop rc \<notin> set (ds_calls demo_started)"
    by (simp add: s(5))
  from dd_bdev_errors_lost [OF s(1,2) this s(3,4) _ r] r show ?thesis
    by (simp add: demo_env_def)
qed

section \<open>A padded write on AIO\<close>

text \<open>A job that has failed only drops the unit whose write completes.\<close>

lemma write_done_failed:
  assumes "dio_type (ds_ios D ! i) = DD_WRITE" and "ds_outstanding D \<noteq> 0" and "ds_error D \<noteq> 0"
  shows "\<exists>D'. dd_complete_poll L e i D = Inr D' \<and> ds_error D' = ds_error D \<and>
    (ds_outstanding D = 1 \<longrightarrow> last (ds_calls D') = Dd_app_stop (ds_error D))"
  using assms
  by (auto simp: dd_complete_poll_def dd_target_seek_def dd_target_populate_buffer_def dd_stop_def stopped_def Let_def
      dd_exit_def)

text \<open>
  C30. On AIO a padded write that succeeds is taken for an error. When the read of a unit completes whose
  length is not a multiple of the block size of the output file, and the poll has no other error, it
  submits a write of whole blocks. The poll that delivers the completion of this write, with all its
  bytes written, always returns, but has compared the count with the length of the unit: it leaves the
  error \<open>ENOSPC\<close>, and stops the application with it when nothing else is outstanding.
\<close>

theorem dd_aio_padded_write_fails:
  assumes "i < length (ds_ios D)" and "dd_lib_ok L" and "aio (ds_opts D)" and "tg_type (ds_output D) = DD_TARGET_TYPE_FILE"
    and "dio_type (ds_ios D ! i) = DD_READ"
    and "unat (dio_length (ds_ios D ! i)) mod unat (tg_block_size (ds_output D)) \<noteq> 0"
    and "unat (dio_length (ds_ios D ! i)) + 2 ^ 32 \<le> 2 ^ 64"
    and "dd_aio_poll L 1 [(i, dio_length (ds_ios D ! i), e)] D = Inr D1" and "\<not> stopped D1"
  shows "\<exists>off n. ds_calls D1 = ds_calls D @ [Dd_submit i DD_WRITE By_aio off n 0] \<and>
    (\<exists>D2. dd_aio_poll L 1 [(i, n, e')] D1 = Inr D2 \<and> ds_error D2 = - ENOSPC \<and>
       (ds_outstanding D = 1 \<longrightarrow> last (ds_calls D2) = Dd_app_stop (- ENOSPC)))"
proof -
  let ?io = "ds_ios D ! i" and ?F = "D\<lparr>ds_outstanding := ds_outstanding D - 1\<rparr>"
  have w: "dd_target_write L e i ?F = Inr D1" and o: "ds_outstanding D \<noteq> 0"
    using assms(5,8) by (auto simp: dd_aio_poll_def dd_complete_poll_def split: if_splits)
  from write_effect [OF w] assms(1,9) obtain be n where
    e: "ds_ios D1 = (ds_ios D)[i := ?io\<lparr>dio_type := DD_WRITE\<rparr>]" "ds_outstanding D1 = ds_outstanding D"
    and p: "padded L (dio_length ?io) (tg_block_size (ds_output D)) = Inr n"
    and c: "ds_calls D1 = ds_calls D @
      [Dd_submit i DD_WRITE be (write_region_start D + (dio_offset ?io - read_region_start D)) (request_len be n) 0]"
    by (auto simp: read_region_start_def write_region_start_def)
  have "\<not> stopped ?F"
    using write_effect [OF w] assms(1,9) by auto
  then have be: "be = By_aio"
    using w c assms(3,4) p
    by (auto simp: dd_target_write_def dd_submit_def submit_failed_def dd_exit_def Let_def set_io_def emit_def
        split: if_splits dest: arg_cong [of _ _ last])
  have "unat n mod unat (tg_block_size (ds_output D)) = 0"
    using padded_exact(1) [OF p assms(2,7)] by simp
  then have "n \<noteq> dio_length (ds_ios D1 ! i)"
    using assms(1,6) e(1) by auto
  then have "dd_aio_poll L 1 [(i, n, e')] D1 = c_bind (dd_complete_poll L e' i (D1\<lparr>ds_error := - ENOSPC\<rparr>)) (aio_poll_events L [])"
    by (simp add: dd_aio_poll_def)
  moreover have "dio_type (ds_ios D1 ! i) = DD_WRITE"
    using assms(1) e(1) by simp
  ultimately show ?thesis
    using write_done_failed [of "D1\<lparr>ds_error := - ENOSPC\<rparr>" i L e'] o e(2) c be
    by (auto simp: request_len_def)
qed

text \<open>
  A copy of 100 bytes between files on AIO, to a file of 100 bytes with blocks of 512: the read of the
  old contents returns 100 bytes, and so does the read of the input; the write of 512 bytes fails the job.
\<close>

definition aio_job :: dd_job where
  "aio_job = demo_job\<lparr>ds_opts := demo_copy_opts\<lparr>aio := True\<rparr>, ds_copy_size := 100,
     ds_input := (ds_input demo_job)\<lparr>tg_type := DD_TARGET_TYPE_FILE\<rparr>,
     ds_output := (ds_output demo_job)\<lparr>tg_type := DD_TARGET_TYPE_FILE\<rparr>\<rparr>"

definition aio_read :: dd_job where
  "aio_read = projr (c_bind (start_units demo_lib [demo_env] 0 aio_job) (dd_aio_poll demo_lib 1 [(0, 100, demo_env)]))"

definition aio_written :: dd_job where
  "aio_written = projr (dd_aio_poll demo_lib 1 [(0, 100, demo_env)] aio_read)"

theorem dd_aio_padded_write_fails_witness:
  "\<exists>D2. dd_aio_poll demo_lib 1 [(0, 512, demo_env)] aio_written = Inr D2 \<and> ds_error D2 = - ENOSPC \<and>
     last (ds_calls D2) = Dd_app_stop (- ENOSPC)"
proof -
  have l: "dio_length (ds_ios aio_read ! 0) = 100" "unat (tg_block_size (ds_output aio_read)) = 512"
    "ds_outstanding aio_read = 1" "aio (ds_opts aio_read)" "tg_type (ds_output aio_read) = DD_TARGET_TYPE_FILE"
    "dio_type (ds_ios aio_read ! 0) = DD_READ" "0 < length (ds_ios aio_read)"
    by code_simp+
  have p: "dd_aio_poll demo_lib 1 [(0, 100, demo_env)] aio_read = Inr aio_written" "\<not> stopped aio_written"
    by code_simp+
  have c: "last (ds_calls aio_written) = Dd_submit 0 DD_WRITE By_aio 0 512 0"
    by code_simp
  from dd_aio_padded_write_fails [OF l(7) demo_lib_ok l(4-6) _ _ _ p(2), of demo_env demo_env]
  obtain off n where "ds_calls aio_written = ds_calls aio_read @ [Dd_submit 0 DD_WRITE By_aio off n 0]"
    "\<exists>D2. dd_aio_poll demo_lib 1 [(0, n, demo_env)] aio_written = Inr D2 \<and> ds_error D2 = - ENOSPC \<and>
       last (ds_calls D2) = Dd_app_stop (- ENOSPC)"
    using p(1) by (auto simp: l)
  with c show ?thesis by simp
qed

section \<open>Leaving too often, and not at all\<close>

lemma start_stopped:
  assumes "start_units L es i D = Inr D'" and "stopped D" and "ds_outstanding D = 0"
    and "sync_seek D" and "i + length es \<le> length (ds_ios D)"
  shows "\<exists>cs. ds_calls D' = ds_calls D @ cs \<and> stops cs = length es"
  using assms
proof (induction es arbitrary: i D)
  case (Cons e es)
  then obtain D1 where D1: "dd_target_seek L e i D = Inr D1" "start_units L es (Suc i) D1 = Inr D'"
    by auto
  have h: "handled i D D1"
    using seek_handled [OF D1(1) _ Cons.prems(4)] Cons.prems(5) by simp
  then have fr: "frame D D1"
    by (simp add: handled_def)
  with Cons.prems(2) have s: "stopped D1"
    by (auto simp: frame_def stopped_def)
  then obtain cs where cs: "ds_calls D1 = ds_calls D @ cs" "stops cs = 1" "ds_outstanding D1 = 0"
    using h Cons.prems(3) by (auto simp: handled_def retires_def submits_def)
  have "sync_seek D1" "Suc i + length es \<le> length (ds_ios D1)"
    using fr frame_sync [OF fr] Cons.prems(4,5) by (simp_all add: frame_def)
  from Cons.IH [OF D1(2) s cs(3) this] cs show ?case
    by auto
qed simp

text \<open>
  C27. A refused first request makes the tool leave once per unit. When the first unit's request is refused
  at the start, the error is recorded and the application is told to stop; every further unit of the
  start loop then finds the error and nothing outstanding, and tells it to stop again, closing the
  targets again each time.
\<close>

theorem dd_refused_start_leaves_again:
  assumes "dd_ready D (e # es)" and "start_units L (e # es) 0 D = Inr D'"
    and "dd_target_seek L e 0 D = Inr D1" and "ds_error D1 \<noteq> 0"
  shows "stops (new_calls D D') = Suc (length es)"
proof -
  have i: "0 < length (ds_ios D)" and sy: "sync_seek D"
    using assms(1) by (auto simp: dd_ready_def)
  have h: "handled 0 D D1"
    by (rule seek_handled [OF assms(3) i sy])
  have st: "stopped D1"
    using assms(4) by (simp add: stopped_def)
  have o: "ds_outstanding D = 0"
    using assms(1) by (simp add: dd_ready_def)
  obtain cs where cs: "ds_calls D1 = ds_calls D @ cs" "stops cs = 1" "ds_outstanding D1 = 0"
    using h st o by (auto simp: handled_def retires_def submits_def)
  have s: "start_units L es 1 D1 = Inr D'" "sync_seek D1" "1 + length es \<le> length (ds_ios D1)"
    using assms(1-3) h frame_sync [of D D1] sy by (auto simp: dd_ready_def handled_def frame_def)
  from start_stopped [OF s(1) st cs(3) s(2,3)] cs show ?thesis
    by (auto simp: new_calls_def)
qed

text \<open>Two units, and a device that refuses every request.\<close>

definition refused_env :: dd_env where
  "refused_env = demo_env\<lparr>e_submit := - EIO\<rparr>"

definition refused_job :: dd_job where
  "refused_job = demo_job\<lparr>ds_ios := ds_ios demo_job @ ds_ios demo_job\<rparr>"

theorem dd_refused_start_leaves_again_witness:
  "stops (new_calls refused_job (projr (start_units demo_lib [refused_env, refused_env] 0 refused_job))) = 2"
proof -
  have s: "start_units demo_lib [refused_env, refused_env] 0 refused_job =
      Inr (projr (start_units demo_lib [refused_env, refused_env] 0 refused_job))"
    "dd_target_seek demo_lib refused_env 0 refused_job = Inr (projr (dd_target_seek demo_lib refused_env 0 refused_job))"
    "ds_error (projr (dd_target_seek demo_lib refused_env 0 refused_job)) \<noteq> 0"
    by code_simp+
  have "dd_ready refused_job [refused_env, refused_env]"
    by (simp add: dd_ready_def sync_seek_def refused_job_def demo_job_def demo_copy_opts_def)
  from dd_refused_start_leaves_again [OF this s] show ?thesis by simp
qed

text \<open>With a seek in flight, the units that follow are queued behind it.\<close>

lemma start_seek_queue:
  assumes "sparse (ds_opts D)" and "tg_type (ds_input D) = DD_TARGET_TYPE_BDEV" and "\<not> stopped D"
    and "remaining D \<noteq> 0" and "ds_seek_queue D \<noteq> []"
  shows "start_units L es i D = Inr (D\<lparr>ds_seek_queue := ds_seek_queue D @ [i..<i + length es]\<rparr>)"
  using assms
proof (induction es arbitrary: i D)
  case (Cons e es)
  let ?D = "D\<lparr>ds_seek_queue := ds_seek_queue D @ [i]\<rparr>"
  obtain j q where q: "ds_seek_queue D = j # q"
    using Cons.prems(5) by (cases "ds_seek_queue D") auto
  have "dd_target_seek L e i D = Inr ?D"
    using Cons.prems q by (simp add: dd_target_seek_def seek_bdev_def remaining_def stopped_def)
  moreover have "start_units L es (Suc i) ?D = Inr (?D\<lparr>ds_seek_queue := ds_seek_queue ?D @ [Suc i..<Suc i + length es]\<rparr>)"
    using Cons.prems
    by (intro Cons.IH) (simp_all add: stopped_def remaining_def read_region_start_def)
  ultimately show ?case
    by (simp add: upt_conv_Cons del: upt_Suc)
qed simp

lemma tick_queue: "dd_tick L D D' \<Longrightarrow> ds_seek_queue D' = ds_seek_queue D"
  by (auto simp: dd_status_poller_def dd_show_progress_def dd_finish_def note_error_def Let_def
      elim!: dd_tick.cases split: prod.splits if_splits)

lemma ticks_queue: "(dd_tick L)\<^sup>*\<^sup>* D D' \<Longrightarrow> ds_seek_queue D' = ds_seek_queue D"
  by (induction rule: rtranclp_induct) (auto dest: tick_queue)

text \<open>
  C28. An interrupted seek hangs the tool. With hole skipping on a block device whose seek is accepted, the
  loop that starts the units submits one request, the seek of the first unit, and queues the other
  units behind it. When the user interrupts, or an error comes, before the seek completes, then its
  completion returns without submitting anything, without stopping the application, and without giving
  up the count of the request. Nothing is in flight then, and whatever the status poller, the
  user or the ring do afterwards, the tool does not stop, and counts one request as outstanding.
\<close>

theorem dd_interrupted_seek_hangs:
  assumes "sparse (ds_opts D)" and "tg_type (ds_input D) = DD_TARGET_TYPE_BDEV" and "\<not> stopped D" and "remaining D \<noteq> 0"
    and "tg_block_size (ds_input D) \<noteq> 0" and "ds_seek_queue D = []" and "ds_outstanding D = 0" and "e_seek e = 0"
    and "start_units L (e # es) 0 D = Inr D1" and "(dd_tick L)\<^sup>*\<^sup>* D1 X" and "stopped X"
  shows "(\<exists>blk. new_calls D D1 = [Dd_seek_data 0 blk 0]) \<and>
    (\<exists>D2. dd_bdev_seek_data_done L e' 0 blk' X = Inr D2 \<and> submitted (new_calls D D2) = [] \<and>
       (\<forall>D3. (dd_tick L)\<^sup>*\<^sup>* D2 D3 \<longrightarrow> stops (new_calls D D3) = 0 \<and> ds_outstanding D3 = 1))"
proof -
  let ?blk = "tg_pos (ds_input D) div ucast (tg_block_size (ds_input D))"
  let ?S = "emit [Dd_seek_data 0 ?blk 0] (D\<lparr>ds_outstanding := 1, ds_seek_queue := [0]\<rparr>)"
  let ?q = "[0..<Suc (length es)]"
  have nz: "(ucast (tg_block_size (ds_input D)) :: u64) \<noteq> 0"
  proof
    assume "(ucast (tg_block_size (ds_input D)) :: u64) = 0"
    then have "unat (ucast (tg_block_size (ds_input D)) :: u64) = 0"
      by simp
    with assms(5) show False
      by (simp add: unsigned_eq_0_iff)
  qed
  have "dd_target_seek L e 0 D = Inr ?S"
    using assms(1-8) nz by (simp add: dd_target_seek_def seek_bdev_def remaining_def stopped_def)
  moreover have "start_units L es 1 ?S = Inr (?S\<lparr>ds_seek_queue := ?q\<rparr>)"
    using assms(1-4) start_seek_queue [of ?S L es 1]
    by (simp add: stopped_def remaining_def read_region_start_def upt_conv_Cons del: upt_Suc)
  ultimately have D1: "D1 = ?S\<lparr>ds_seek_queue := ?q\<rparr>"
    using assms(9) by simp
  then have n: "ds_calls D1 = ds_calls D @ [Dd_seek_data 0 ?blk 0]" "ds_outstanding D1 = 1"
    by simp_all
  obtain cs where X: "ds_calls X = ds_calls D1 @ cs" "submitted cs = []" "stops cs = 0" "ds_outstanding X = 1"
    using ticks_calm [OF assms(10)] n(2) by (auto simp: calm_def)
  have "ds_seek_queue X = ?q"
    using ticks_queue [OF assms(10)] D1 by simp
  then have d: "dd_bdev_seek_data_done L e' 0 blk' X = Inr (X\<lparr>ds_seek_queue := [1..<Suc (length es)]\<rparr>)"
    using assms(11) X(4)
    by (simp add: dd_bdev_seek_data_done_def remove_head_def dd_stop_def upt_conv_Cons del: upt_Suc)
  have "stops (new_calls D D3) = 0 \<and> ds_outstanding D3 = 1"
    if "(dd_tick L)\<^sup>*\<^sup>* (X\<lparr>ds_seek_queue := [1..<Suc (length es)]\<rparr>) D3" for D3
    using ticks_calm [OF that] X n(1) by (auto simp: calm_def new_calls_def)
  with d show ?thesis
    using X n(1) by (auto simp: new_calls_def)
qed

text \<open>Two units, hole skipping, and an interruption before the seek completes.\<close>

definition seek_job :: dd_job where
  "seek_job = demo_job\<lparr>ds_opts := demo_copy_opts\<lparr>sparse := True\<rparr>, ds_ios := ds_ios demo_job @ ds_ios demo_job\<rparr>"

definition seek_started :: dd_job where
  "seek_started = projr (start_units demo_lib [demo_env, demo_env] 0 seek_job)"

theorem dd_interrupted_seek_hangs_witness:
  "\<exists>D2. dd_bdev_seek_data_done demo_lib demo_env 0 0 (dd_finish seek_started) = Inr D2 \<and>
     stops (new_calls seek_job D2) = 0 \<and> ds_outstanding D2 = 1"
proof -
  have s: "start_units demo_lib [demo_env, demo_env] 0 seek_job = Inr seek_started"
    by code_simp
  have j: "sparse (ds_opts seek_job)" "tg_type (ds_input seek_job) = DD_TARGET_TYPE_BDEV" "\<not> stopped seek_job"
    "remaining seek_job \<noteq> 0" "tg_block_size (ds_input seek_job) \<noteq> 0" "ds_seek_queue seek_job = []"
    "ds_outstanding seek_job = 0" "e_seek demo_env = 0"
    by code_simp+
  have t: "(dd_tick demo_lib)\<^sup>*\<^sup>* seek_started (dd_finish seek_started)" "stopped (dd_finish seek_started)"
    by (auto simp: stopped_def dd_finish_def intro: dd_tick.interrupt [unfolded dd_finish_def])
  from dd_interrupted_seek_hangs [OF j s t] show ?thesis by blast
qed

section \<open>Skipping a hole at the end of the region\<close>

text \<open>A seek of a file that finds data ahead puts the position there and claims from it.\<close>

lemma seek_file_jump:
  assumes "seek_file L e i D = Inr D'" and "e_lseek_data e = Some n" and "e_lseek_hole e = Some h"
    and "tg_pos (ds_input D) < word_of_int (int n)"
  shows "\<exists>X. dd_target_populate_buffer L e i X = Inr D' \<and> ds_opts X = ds_opts D \<and> ds_copy_size X = ds_copy_size D \<and>
    ds_input X = (ds_input D)\<lparr>tg_pos := word_of_int (int n)\<rparr> \<and> stopped X = stopped D \<and>
    ds_calls X = ds_calls D @ [Dd_lseek_data (tg_pos (ds_input D)), Dd_lseek_hole (word_of_int (int n))] \<and>
    ds_ios X = (ds_ios D)[i := (ds_ios D ! i)\<lparr>dio_length := seek_length L (int h) X\<rparr>]"
proof -
  let ?Y = "emit [Dd_lseek_hole (word_of_int (int n))] ((emit [Dd_lseek_data (tg_pos (ds_input D))] D)
    \<lparr>ds_input := (ds_input D)\<lparr>tg_pos := word_of_int (int n)\<rparr>\<rparr>)"
  let ?X = "set_io i (\<lambda>io. io\<lparr>dio_length := seek_length L (int h) ?Y\<rparr>) ?Y"
  have "seek_length L (int h) ?X = seek_length L (int h) ?Y"
    by (simp add: seek_length_def)
  moreover have "dd_target_populate_buffer L e i ?X = Inr D'"
    using assms by (simp add: seek_file_def dd_file_seek_data_def dd_file_seek_hole_def Let_def)
  ultimately show ?thesis
    by (intro exI [of _ ?X]) (simp add: stopped_def)
qed

text \<open>
  C29. Hole skipping runs past the end of the region. When the input file has a hole from the position to
  behind the end of the region and data after it, the seek puts the position behind the end; the bytes
  left, the difference of the copy size and the position, wrap around, so that the unit claims data the
  command line did not ask for: if no error or interruption comes first, a request is in flight for the
  unit, whose offset is that of the data behind the region, and whose length is not zero.
\<close>

theorem dd_sparse_overruns:
  assumes "dd_target_seek L e i D = Inr D'" and "\<not> stopped D'" and "i < length (ds_ios D)" and "dd_lib_ok L"
    and "sparse (ds_opts D)" and "tg_type (ds_input D) = DD_TARGET_TYPE_FILE" and "remaining D \<noteq> 0"
    and "e_lseek_data e = Some n" and "e_lseek_hole e = Some h" and "n < h" and "h < 2 ^ 63"
    and "(word_of_int (io_unit_size (ds_opts D)) :: u64) \<noteq> 0"
    and "unat (tg_pos (ds_input D)) < n" and "unat (read_region_start D) + unat (ds_copy_size D) < n"
  shows "submitted (new_calls D D') = [i] \<and> unat (dio_offset (ds_ios D' ! i)) = n \<and> dio_length (ds_ios D' ! i) \<noteq> 0"
proof -
  let ?n = "word_of_int (int n) :: u64" and ?h = "word_of_int (int h) :: u64"
  have w: "unat ?n = n" "unat ?h = h"
    using assms(10,11) by (simp_all add: unsigned_of_nat take_bit_nat_eq_self)
  have ns: "\<not> stopped D"
  proof -
    have "frame D D'"
      using seek_handled [OF assms(1,3)] assms(6) by (simp add: sync_seek_def handled_def)
    with assms(2) show ?thesis by (auto simp: frame_def stopped_def)
  qed
  have "seek_file L e i D = Inr D'"
    using assms(1,5-7) ns by (simp add: dd_target_seek_def remaining_def)
  moreover have "tg_pos (ds_input D) < ?n"
    using assms(13) w(1) by (simp add: word_less_nat_alt)
  ultimately obtain X where X: "dd_target_populate_buffer L e i X = Inr D'" "ds_opts X = ds_opts D"
    "ds_copy_size X = ds_copy_size D" "ds_input X = (ds_input D)\<lparr>tg_pos := ?n\<rparr>" "\<not> stopped X"
    "ds_calls X = ds_calls D @ [Dd_lseek_data (tg_pos (ds_input D)), Dd_lseek_hole ?n]"
    "ds_ios X = (ds_ios D)[i := (ds_ios D ! i)\<lparr>dio_length := seek_length L (int h) X\<rparr>]"
    using seek_file_jump [OF _ assms(8,9)] ns by blast
  have "?n < ?h"
    using assms(10) w by (simp add: word_less_nat_alt)
  then have len: "seek_length L (int h) X \<noteq> 0"
    using assms(4,12) X(2,4) by (auto simp: seek_length_def dd_lib_ok_def min_def Let_def)
  have "remaining X \<noteq> 0"
  proof
    assume "remaining X = 0"
    then have "?n = read_region_start D + ds_copy_size D"
      using X(2-4) by (simp add: remaining_def read_region_start_def algebra_simps)
    then have "n = (unat (read_region_start D) + unat (ds_copy_size D)) mod 2 ^ 64"
      using w(1) by (simp add: unat_word_ariths)
    with assms(14) show False
      by (metis mod_less_eq_dividend not_less)
  qed
  with len assms(3,4) X(7) have c: "claim L i X \<noteq> 0"
    by (auto simp: claim_def dd_lib_ok_def min_def)
  have i: "i < length (ds_ios X)"
    using assms(3) X(7) by simp
  from populate_effect [OF X(1) i] c X(5) assms(2) obtain ty be off len where
    "ds_ios D' = (ds_ios X)[i := claimed_io L i X ty]" "ds_calls D' = ds_calls X @ [Dd_submit i ty be off len 0]"
    by blast
  with X(4,6) c i w(1) show ?thesis
    by (simp add: new_calls_def claimed_io_def)
qed

text \<open>A region of 512 bytes that is all hole, and data from byte 4096 on.\<close>

definition hole_job :: dd_job where
  "hole_job = demo_job\<lparr>ds_opts := demo_copy_opts\<lparr>sparse := True\<rparr>,
     ds_input := (ds_input demo_job)\<lparr>tg_type := DD_TARGET_TYPE_FILE\<rparr>\<rparr>"

definition hole_env :: dd_env where
  "hole_env = demo_env\<lparr>e_lseek_data := Some 4096, e_lseek_hole := Some 8192\<rparr>"

theorem dd_sparse_overruns_witness:
  "\<exists>D'. dd_target_seek demo_lib hole_env 0 hole_job = Inr D' \<and> submitted (new_calls hole_job D') = [0] \<and>
     unat (dio_offset (ds_ios D' ! 0)) = 4096"
proof -
  let ?D' = "projr (dd_target_seek demo_lib hole_env 0 hole_job)"
  have s: "dd_target_seek demo_lib hole_env 0 hole_job = Inr ?D'" "\<not> stopped ?D'" "0 < length (ds_ios hole_job)"
    by code_simp+
  have h: "sparse (ds_opts hole_job)" "tg_type (ds_input hole_job) = DD_TARGET_TYPE_FILE" "remaining hole_job \<noteq> 0"
    "e_lseek_data hole_env = Some 4096" "e_lseek_hole hole_env = Some 8192"
    "(word_of_int (io_unit_size (ds_opts hole_job)) :: u64) \<noteq> 0" "unat (tg_pos (ds_input hole_job)) < 4096"
    "unat (read_region_start hole_job) + unat (ds_copy_size hole_job) < 4096"
    by code_simp+
  from dd_sparse_overruns [OF s demo_lib_ok h(1-5) _ _ h(6-8)] s(1) show ?thesis by auto
qed

end
