(* ===== verification/Vhost_App.thy ===== *)
theory Vhost_App
  imports Prelude
begin

text \<open>
  The vhost target \<open>src/app/vhost_ubi.c\<close>: its option handler and its \<open>main\<close>. What SPDK's application
  framework returns is an argument.
\<close>

datatype vhost_call =
    Set_socket_path string
  | App_start
  | App_fini

text \<open>The handler of one option: the calls it makes and its result.\<close>

definition vhost_parse_arg :: "char \<Rightarrow> string \<Rightarrow> vhost_call list \<times> int" where
  "vhost_parse_arg ch arg = (if ch = CHR ''S'' then ([Set_socket_path arg], 0) else ([], - EINVAL))"

text \<open>
  \<open>main\<close>: \<open>rc\<close> is what \<open>spdk_app_parse_args\<close> returned, \<open>success\<close> the value it is compared with, \<open>started\<close>
  what \<open>spdk_app_start\<close> returns. The result is the exit status.
\<close>

definition vhost_main :: "int \<Rightarrow> int \<Rightarrow> int \<Rightarrow> int \<times> vhost_call list" where
  "vhost_main success rc started =
     (if rc \<noteq> success then (rc, []) else (started, [App_start, App_fini]))"

text \<open>The handler accepts \<open>-S\<close> alone; \<open>-f\<close>, which \<open>main\<close> announces to SPDK too, is refused.\<close>

lemma vhost_parse_arg_accepts: "snd (vhost_parse_arg ch arg) = 0 \<longleftrightarrow> ch = CHR ''S''"
  by (simp add: vhost_parse_arg_def)

end
