(* ===== verification/Spec2Isabelle.thy ===== *)
theory Spec2Isabelle
  imports Ubi_Rpc Dd_Tool Dd_Flags Dd_Polls Vhost_App
begin

text \<open>
  A verification of bdev\_ubi, an SPDK virtual block device that layers a writable blobstore over a
  read-only image file, and can export snapshots of itself as delta files.

  \<^bold>\<open>The program.\<close> A JSON-RPC request (\<open>src/lib/bdev_ubi_rpc.c\<close>) asks for a device. The creation flow
  (\<open>src/lib/bdev_ubi.c\<close>) opens a blobstore on a base block device, formats or loads it, and registers
  a block device whose requests go to one thin blob. Clusters the blob has not written are read
  through an external snapshot device, the image device (\<open>src/lib/spdk_bs_dev_uring.c\<close>): it serves a
  block from a snapshot file when the snapshot's cluster map has its cluster, and from the image file
  otherwise. A snapshot request (\<open>src/lib/bdev_ubi_snapshot.c\<close>) snapshots and clones the blob and
  copies the clone's clusters into a delta device (\<open>src/lib/spdk_bs_dev_delta.c\<close>), which appends them
  to a file that starts with the cluster map. That file can be the snapshot of another device. The
  repository also builds two applications: a copy tool (\<open>src/app/spdk_dd.c\<close>), which moves units of
  data between files and block devices with a queue of requests in flight, and a vhost target
  (\<open>src/app/vhost_ubi.c\<close>), which only starts SPDK's application framework.

  \<^bold>\<open>The theories.\<close>
  \<^item> \<open>Prelude\<close>: C integers as words, undefined behaviour as a sum type (\<open>'a c_result\<close>), errno values, C
    strings in arrays, arithmetic of shifts and masks.
  \<^item> \<open>Posix_File\<close>: open, read, write, lseek and close on a map from paths to files; the locale
    \<open>append_log\<close> of a file written only at its end.
  \<^item> \<open>Bs_Dev\<close>: the interface between the blobstore and its devices. The locale \<open>bs_dev_io\<close> states the
    contract (each operation answers its callback or queues one request; the poller answers what it
    reaps) and derives conservation of callbacks; it is interpreted for both devices, for the image device
    as long as no submission of the ring fails. The weaker \<open>bs_dev_serve\<close>, which follows from it, holds
    for the image device whatever the submission returns.
  \<^item> \<open>Bs_Delta\<close>, \<open>Bs_Uring\<close>: the two devices, one definition per function of the source, with
    their channels, pollers, constructors and function tables (\<open>delta_submit\<close>, \<open>uring_submit\<close>).
  \<^item> \<open>Snapshot_File\<close>: what a file written through a delta channel holds, and what the image device
    finds in it.
  \<^item> \<open>Once_Flow\<close>: the locales of an asynchronous flow that owes its client one answer (\<open>answer_flow\<close>) and
    gives it within a bound (\<open>once_flow\<close>), interpreted for the creation flow, the snapshot flow and the
    copy engine.
  \<^item> \<open>Ubi_Bdev\<close>: the state of a device and the creation flow, as an inductive step relation: SPDK
    calls the callback it holds with any result. Callbacks that end in undefined behaviour have no step;
    \<open>create_deliver\<close> says when that happens.
  \<^item> \<open>Ubi_Device\<close>: deletion, destruction, external snapshot device, I/O channels
    (\<open>src/lib/bdev_ubi_io_channel.c\<close>) and requests.
  \<^item> \<open>Ubi_Snapshot\<close>: the snapshot flow, as a step relation (\<open>snap_step\<close>), and the same steps labelled with
    what SPDK delivers (\<open>snap_deliver\<close>, \<open>snap_run\<close>).
  \<^item> \<open>Ubi_Rpc\<close>: the RPC handlers, the responses that the flows cause, the saved configuration.
  \<^item> \<open>Dd_Engine\<close>: the job of the copy tool and its handlers (\<open>dd_target_seek\<close>, \<open>dd_target_populate_buffer\<close>,
    \<open>dd_target_read\<close>, \<open>dd_target_write\<close>, the seeks of sparse mode, the completions, the pollers, \<open>dd_exit\<close>).
    \<open>Dd_Progress\<close>: the progress line.
  \<^item> \<open>Dd_Run\<close>: runs of the copy engine as an inductive step relation, any request in flight completing with
    any result; their invariant, and \<open>answer_flow\<close> interpreted for them; without hole skipping a
    rank, and \<open>once_flow\<close>. \<open>Dd_Copy\<close>: runs with data (\<open>dd_io_step\<close>): the bytes of the output and of the
    buffers, and devices that carry out an accepted request in full before it completes; the invariants
    of the claimed ranges and of the data. \<open>Dd_Polls\<close>: the pollers refine the runs; errors that are
    lost, exits too many or missing.
  \<^item> \<open>Dd_Setup\<close>: \<open>parse_args\<close>, the checks of \<open>main\<close>, \<open>parse_flags\<close>, the opening of targets, \<open>dd_run\<close> as a
    sequence of stages, \<open>dd_free\<close>. \<open>Dd_Stages\<close>: what each stage keeps and prepares. \<open>Dd_Flags\<close>: the flag
    strings. \<open>Dd_Tool\<close>: the tool from its command line to \<open>dd_free\<close>.
  \<^item> \<open>Vhost_App\<close>: the vhost target.

  \<^bold>\<open>Modelling.\<close> A struct is a record, an enum a datatype, \<open>uint32_t\<close> and \<open>uint64_t\<close> are words, a pointer is
  an address or \<open>None\<close>, the objects \<open>struct ubi_bdev\<close> live in a heap. Undefined behaviour (null
  dereference, use of freed memory, buffer overflow, shift too far, division by zero) is an \<open>Inl\<close>
  value. SPDK and liburing are not part of the repository: what their functions return, and what they
  pass to a callback, are arguments of the definitions (records \<open>spdk\<close>, \<open>snap_env\<close>, \<open>dd_env\<close>,
  \<open>dd_setup_env\<close> and those of the devices), and the calls made to them are entries of traces. Where a
  property relies on their documented behaviour it is a named hypothesis (\<open>log2_spec\<close>,
  \<open>rejects_missing\<close>, \<open>dd_lib_ok\<close> for the macros of \<open>spdk/util.h\<close>). Log output is not modelled. No fuel is
  used: every loop is structural recursion or has a termination proof, and the flows are step relations
  whose length the theorems bound. In the copy tool \<open>SPDK_CONFIG_URING\<close> is taken as defined. Its trace
  records a request with the length that reaches the device, which on io\_uring are the low 32 bits
  (\<open>request_len\<close>).

  \<^bold>\<open>What is shown.\<close>
  \<^item> Data: a snapshot written through the delta device is read back through a channel of the image
    device, for blocks inside the image; block addresses are translated without losing a bit; the cluster
    map round trips.
  \<^item> Answers: the delta device and the block device answer each request exactly once, the image device as
    long as no submission of the ring fails, and at least once in any case; the creation flow, unless it
    is handed a null blob, the snapshot flow, along its defined runs, and the RPC methods answer their
    client exactly once, the flows within four and five callbacks, and the status that the snapshot
    method answers is that of the events.
  \<^item> Order: what a successful creation and a running copy have asked of SPDK, call by call, in terms of the
    ids that SPDK delivered; what a failure releases; which orders of teardown callbacks are safe.
  \<^item> The copy tool: from the command line on, on devices that carry out what they accept, a run that ends
    without error and interruption has copied the region asked for and changed nothing else; no request
    leaves its buffer or its region. Both hold for units below 4 GiB that are whole blocks of the output,
    without hole skipping. Requests are counted exactly; unless the start loop or a failing
    \<open>io_getevents\<close> stops the application, the tool leaves once, when nothing is in flight, and without
    hole skipping every run ends. The counting, the leaving and the refinement of runs by the pollers
    include input files with hole skipping. The regions read lie inside their device, the
    regions written when there is a count; flags, progress line and release are as they should be. The
    seeks of block devices are modelled, but of runs with them only the start and the
    interruption are treated.
  \<^item> Errors and bounds: the error branches of the delta device, path buffers, descriptors, range
    checks, and the places where the code falls short (a leaked context, a sticky error, a late close
    of the blob, an incomplete saved configuration; in the copy tool lost errors, repeated exits,
    hangs, a wrap-around, and requests longer than their buffer).

  \<^bold>\<open>Not modelled.\<close> Log and usage output, the registration macros of the SPDK module, the function tables,
  devices that carry out a request of the copy tool in part, and the test programs.
\<close>

section \<open>Snapshot round trip\<close>

text \<open>
  C1. A snapshot reads back. Create a delta device for a path, open a channel, write any sequence of
  whole clusters, in any order and with repetitions, and tear the channel down; then build the image
  device on an image file with that path as its snapshot, and open a channel of it. Every step succeeds.
  A read of blocks inside one cluster and inside the image then queues one request, of the right length,
  for the place where the current data is: each byte found through the request's descriptor at the
  request's offset is the byte of the last write to that cluster, or, for a cluster that was not written,
  the byte of the image. A read that starts behind the end of the image completes without
  reading anything, even when the snapshot has its cluster.
\<close>

theorem snapshot_reads_back:
  assumes lg: "log2_spec log2" and geo: "a + s < 31"
    and paths: "length img < 1024" "NUL \<notin> set img" "length path < 1024" "path \<noteq> []" "NUL \<notin> set path" "img \<noteq> path"
    and env: "0 \<le> de_open e" "int MAP_BYTES \<le> de_write e" "de_ring e = 0" "int MAP_BYTES \<le> w"
      "uc_calloc ue" "uc_stat ue = 0" "0 \<le> uc_open ue" "int MAP_BYTES \<le> uc_read ue"
      "0 \<le> ue_open_image ce" "0 \<le> ue_open_snapshot ce" "ue_open_image ce \<noteq> ue_open_snapshot ce" "ue_ring ce = 0"
      "sqe_available re" "0 \<le> submit_ret re"
    and image: "files P img = Some g" "fsize g div 2 ^ a < 2 ^ 64" and old: "\<forall>f. files P path = Some f \<longrightarrow> fseekable f"
    and ws: "\<forall>x \<in> set ws. fst x < MAX_CLUSTERS" "MAP_BYTES + 2 ^ (a + s) * length ws < 2 ^ 63"
  shows "\<exists>d ch P1 st ch' P2 dev P3 uch P4.
    bs_dev_delta_create True path bcnt (2 ^ a) (2 ^ (a + s)) BS_DEV_DELTA_WRITE = Inr (Some d, True) \<and>
    bs_dev_delta_create_channel_cb d e P = Inr (0, ch, P1) \<and>
    delta_write_all \<lparr>dd = d, dc = ch, dos = P1\<rparr> ws = Inr st \<and>
    bs_dev_delta_destroy_channel_cb d (dc st) w (dos st) = (ch', P2) \<and>
    bs_dev_uring_create log2 ue img (Some path) (2 ^ a) (2 ^ (a + s)) dio P2 = Inr (Some dev, True, P3) \<and>
    bs_dev_uring_create_channel_cb dev ce P3 = Inr (0, uch, P4) \<and>
    (\<forall>payload lba n cb. unat lba < MAX_CLUSTERS * 2 ^ s \<and> unat lba mod 2 ^ s + unat n \<le> 2 ^ s \<and> 0 < n \<and>
       unat lba + unat n \<le> fsize g div 2 ^ a \<longrightarrow>
       (\<exists>fd len off. bs_dev_uring_read dev uch re payload lba n cb =
            Inr [Queue_sqe cb (Prep_read fd payload len off), Ring_submit] \<and> unat len = unat n * 2 ^ a \<and>
          (\<forall>j < unat n * 2 ^ a. fd_byte P4 fd (unat off + j) =
             Some (case last_write ws (unat lba div 2 ^ s) of
                 None \<Rightarrow> fbytes g (unat lba * 2 ^ a + j) | Some p \<Rightarrow> p (unat lba mod 2 ^ s * 2 ^ a + j))))) \<and>
    (\<forall>payload lba n cb. fsize g div 2 ^ a \<le> unat lba \<longrightarrow> bs_dev_uring_read dev uch re payload lba n cb = Inr [Callback cb 0])"
proof -
  have "(2 ^ a :: u32) \<noteq> 0"
    using geo unat_two_power [of a, where 'a = 32] by (intro notI) simp
  moreover have "unat (2 ^ (a + s) :: u32) div unat (2 ^ a :: u32) = 2 ^ s"
    using geo by simp (simp add: power_add)
  ultimately obtain d where d: "bs_dev_delta_create True path bcnt (2 ^ a) (2 ^ (a + s)) BS_DEV_DELTA_WRITE
        = Inr (Some d, True)"
    and dp: "c_str (d_filename d) = path" "d_direction d = BS_DEV_DELTA_WRITE" "d_blocklen d = 2 ^ a"
      "unat (d_cluster_size d) = 2 ^ s"
    using delta_create_ok [of "2 ^ a" path bcnt "2 ^ (a + s)" BS_DEV_DELTA_WRITE] paths
    by metis
  note cb = cluster_bytes_two_power [OF geo dp(3,4)]
  have pos: "0 < cluster_bytes d" and ws2: "MAP_BYTES + cluster_bytes d * length ws < 2 ^ 63"
    and old': "\<And>f. files P (c_str (d_filename d)) = Some f \<Longrightarrow> fseekable f"
    using ws(2) old by (simp_all add: cb(1) dp(1))
  obtain ch P1 st ch' P2 f m where
    ses: "bs_dev_delta_create_channel_cb d e P = Inr (0, ch, P1)"
      "delta_write_all \<lparr>dd = d, dc = ch, dos = P1\<rparr> ws = Inr st"
      "bs_dev_delta_destroy_channel_cb d (dc st) w (dos st) = (ch', P2)"
    and P2: "files P2 = (files P)(path \<mapsto> f)" "MAP_BYTES \<le> fsize f"
      "\<forall>i < MAP_BYTES. fbytes f i = map_bytes m i" and hs: "holds_snapshot f m (2 ^ (a + s)) ws"
    using delta_session [OF dp(2) pos cb(2) env(1-4) old' ws(1) ws2, unfolded dp(1) cb(1)] by blast
  have im: "files P2 img = Some g" and P2': "files P2 path = Some f"
    using image(1) paths(6) P2(1) by auto
  obtain dev P3 where dev: "bs_dev_uring_create log2 ue img (Some path) (2 ^ a) (2 ^ (a + s)) dio P2 =
      Inr (Some dev, True, P3)" "files P3 = files P2" "\<forall>c < MAX_CLUSTERS. u_cluster_map dev c = m c"
    and geom: "uring_geom dev a s" and names: "c_str (u_filename dev) = img" "c_str (u_snapshot_path dev) = path"
    and blocks: "u_blockcnt dev = of_nat (fsize g div 2 ^ a)" "u_blocklen dev = 2 ^ a"
    using uring_create_loads [OF lg geo paths(1-5) env(5-8) im P2' P2(2,3), of dio] by blast
  obtain uch P4 where uch: "bs_dev_uring_create_channel_cb dev ce P3 = Inr (0, uch, P4)"
    "\<forall>i. fd_byte P4 (image_file_fd uch) i = Some (fbytes g i)" "\<forall>i. fd_byte P4 (snapshot_file_fd uch) i = Some (fbytes f i)"
    using image_channel_sees [of P3 dev g f ce] names dev(2) im P2' paths(4) env(9-12) by auto
  note rd = snapshot_read [OF geom dev(3) hs blocks(1) image(2) blocks(2) uch(2,3) _ _ _ env(13,14)]
  have "u_blockcnt dev \<le> lba" if "fsize g div 2 ^ a \<le> unat lba" for lba
    using that image(2) blocks(1) by (simp add: word_le_nat_alt unat_of_nat take_bit_nat_eq_self)
  then have tail: "bs_dev_uring_read dev uch re payload lba n cb = Inr [Callback cb 0]"
    if "fsize g div 2 ^ a \<le> unat lba" for payload lba n cb
    using that by (simp add: bs_dev_uring_read_def)
  have ok: "unat lba < fsize g div 2 ^ a" if "0 < n" "unat lba + unat n \<le> fsize g div 2 ^ a" for lba :: u64 and n :: u32
    using that by (auto simp: word_less_nat_alt)
  show ?thesis
  proof (intro exI conjI)
    show "\<forall>payload lba n cb. unat lba < MAX_CLUSTERS * 2 ^ s \<and> unat lba mod 2 ^ s + unat n \<le> 2 ^ s \<and> 0 < n \<and>
       unat lba + unat n \<le> fsize g div 2 ^ a \<longrightarrow>
       (\<exists>fd len off. bs_dev_uring_read dev uch re payload lba n cb =
            Inr [Queue_sqe cb (Prep_read fd payload len off), Ring_submit] \<and> unat len = unat n * 2 ^ a \<and>
          (\<forall>j < unat n * 2 ^ a. fd_byte P4 fd (unat off + j) =
             Some (case last_write ws (unat lba div 2 ^ s) of
                 None \<Rightarrow> fbytes g (unat lba * 2 ^ a + j) | Some p \<Rightarrow> p (unat lba mod 2 ^ s * 2 ^ a + j))))"
      by (intro allI impI rd) (auto intro: ok)
    show "\<forall>payload lba n cb. fsize g div 2 ^ a \<le> unat lba \<longrightarrow> bs_dev_uring_read dev uch re payload lba n cb = Inr [Callback cb 0]"
      using tail by blast
  qed (rule d ses dev(1) uch(1))+
qed

text \<open>
  An image of 1 MiB, blocks of 512 bytes, clusters of 8 blocks; the clusters 2 and 0 are written, 2 twice.
  Block 17 lies in cluster 2, block 8 in cluster 1.
\<close>

theorem snapshot_reads_back_witness:
  defines "g \<equiv> \<lparr>fbytes = (\<lambda>i. of_nat (i div 512)), fsize = 2 ^ 20, fseekable = True\<rparr>"
  defines "P \<equiv> \<lparr>files = [''img'' \<mapsto> g], fds = Map.empty\<rparr>"
  defines "e \<equiv> \<lparr>de_open = 3, de_read = 0, de_write = 2 ^ 29, de_ring = 0\<rparr>"
  defines "ue \<equiv> \<lparr>uc_calloc = True, uc_stat = 0, uc_open = 4, uc_read = 2 ^ 29\<rparr>"
  defines "ce \<equiv> \<lparr>ue_open_image = 5, ue_open_snapshot = 6, ue_ring = 0\<rparr>"
  defines "re \<equiv> \<lparr>sqe_available = True, submit_ret = 1\<rparr>"
  defines "ws \<equiv> [(2, (\<lambda>_. 7)), (0, (\<lambda>_. 8)), (2, (\<lambda>j. of_nat j))]"
  shows "\<exists>d ch P1 st ch' P2 dev P3 uch P4 fd len off fd' len' off'.
    bs_dev_delta_create True ''snap'' 2048 (2 ^ 9) (2 ^ (9 + 3)) BS_DEV_DELTA_WRITE = Inr (Some d, True) \<and>
    bs_dev_delta_create_channel_cb d e P = Inr (0, ch, P1) \<and>
    delta_write_all \<lparr>dd = d, dc = ch, dos = P1\<rparr> ws = Inr st \<and>
    bs_dev_delta_destroy_channel_cb d (dc st) (2 ^ 29) (dos st) = (ch', P2) \<and>
    bs_dev_uring_create ilog2 ue ''img'' (Some ''snap'') (2 ^ 9) (2 ^ (9 + 3)) False P2 = Inr (Some dev, True, P3) \<and>
    bs_dev_uring_create_channel_cb dev ce P3 = Inr (0, uch, P4) \<and>
    bs_dev_uring_read dev uch re 0 17 2 4 = Inr [Queue_sqe 4 (Prep_read fd 0 len off), Ring_submit] \<and>
    fd_byte P4 fd (unat off + 1000) = Some (of_nat 1512) \<and>
    bs_dev_uring_read dev uch re 0 8 1 4 = Inr [Queue_sqe 4 (Prep_read fd' 0 len' off'), Ring_submit] \<and>
    fd_byte P4 fd' (unat off' + 5) = Some 8"
proof -
  have h: "length ''img'' < 1024" "NUL \<notin> set ''img''" "length ''snap'' < 1024" "''snap'' \<noteq> []" "NUL \<notin> set ''snap''"
    "''img'' \<noteq> ''snap''" "0 \<le> de_open e" "int MAP_BYTES \<le> de_write e" "de_ring e = 0" "int MAP_BYTES \<le> 2 ^ 29"
    "uc_calloc ue" "uc_stat ue = 0" "0 \<le> uc_open ue" "int MAP_BYTES \<le> uc_read ue"
    "0 \<le> ue_open_image ce" "0 \<le> ue_open_snapshot ce" "ue_open_image ce \<noteq> ue_open_snapshot ce" "ue_ring ce = 0"
    "sqe_available re" "0 \<le> submit_ret re" "files P ''img'' = Some g" "fsize g div 2 ^ 9 < 2 ^ 64"
    "\<forall>f. files P ''snap'' = Some f \<longrightarrow> fseekable f"
    "\<forall>x \<in> set ws. fst x < MAX_CLUSTERS" "MAP_BYTES + 2 ^ (9 + 3) * length ws < 2 ^ 63"
    by (simp_all add: P_def e_def ue_def ce_def re_def ws_def g_def MAX_CLUSTERS_def MAP_BYTES_eq)
  obtain d ch P1 st ch' P2 dev P3 uch P4 where
    o: "bs_dev_delta_create True ''snap'' 2048 (2 ^ 9) (2 ^ (9 + 3)) BS_DEV_DELTA_WRITE = Inr (Some d, True)"
    "bs_dev_delta_create_channel_cb d e P = Inr (0, ch, P1)"
    "delta_write_all \<lparr>dd = d, dc = ch, dos = P1\<rparr> ws = Inr st"
    "bs_dev_delta_destroy_channel_cb d (dc st) (2 ^ 29) (dos st) = (ch', P2)"
    "bs_dev_uring_create ilog2 ue ''img'' (Some ''snap'') (2 ^ 9) (2 ^ (9 + 3)) False P2 = Inr (Some dev, True, P3)"
    "bs_dev_uring_create_channel_cb dev ce P3 = Inr (0, uch, P4)"
    and rd: "\<forall>payload lba n cb. unat lba < MAX_CLUSTERS * 2 ^ 3 \<and> unat lba mod 2 ^ 3 + unat n \<le> 2 ^ 3 \<and> 0 < n \<and>
       unat lba + unat n \<le> fsize g div 2 ^ 9 \<longrightarrow>
       (\<exists>fd len off. bs_dev_uring_read dev uch re payload lba n cb =
            Inr [Queue_sqe cb (Prep_read fd payload len off), Ring_submit] \<and> unat len = unat n * 2 ^ 9 \<and>
          (\<forall>j < unat n * 2 ^ 9. fd_byte P4 fd (unat off + j) =
             Some (case last_write ws (unat lba div 2 ^ 3) of
                 None \<Rightarrow> fbytes g (unat lba * 2 ^ 9 + j) | Some p \<Rightarrow> p (unat lba mod 2 ^ 3 * 2 ^ 9 + j))))"
    using snapshot_reads_back [OF log2_spec_ilog2 _ h, of 2048 False] by fastforce
  have w: "last_write ws 2 = Some (\<lambda>j. of_nat j)" "last_write ws 1 = None"
    by (simp_all add: last_write_def ws_def)
  obtain fd len off where r1: "bs_dev_uring_read dev uch re 0 17 2 4 = Inr [Queue_sqe 4 (Prep_read fd 0 len off), Ring_submit]"
    "fd_byte P4 fd (unat off + 1000) = Some (of_nat 1512)"
    using rd [rule_format, of 17 2 0 4] w(1) by (auto simp: MAX_CLUSTERS_def g_def)
  obtain fd' len' off' where r2: "bs_dev_uring_read dev uch re 0 8 1 4 = Inr [Queue_sqe 4 (Prep_read fd' 0 len' off'), Ring_submit]"
    "fd_byte P4 fd' (unat off' + 5) = Some 8"
    using rd [rule_format, of 8 1 0 4] w(2) by (auto simp: MAX_CLUSTERS_def g_def)
  show ?thesis
    using o r1 r2 by blast
qed

end
